(* ===== verification/Prelude.thy ===== *)
theory Prelude
  imports Main
begin

text \<open>
  What the components share: reachable states and the invariant rule, association of ghost-free
  list and map facts, Go strings as byte lists with the operations of package \<^verbatim>\<open>strings\<close> the
  program calls, and Go errors as values.

  Strings are \<open>char list\<close>; a \<open>char\<close> is one byte, as in Go. Times and durations are \<open>int\<close>
  nanoseconds.
\<close>

named_theorems go_string \<open>evaluation of the string operations\<close>
named_theorems nb_defs \<open>definitions of the batcher operations\<close>

section \<open>Transition systems\<close>

inductive reach :: "('s \<Rightarrow> bool) \<Rightarrow> ('s \<Rightarrow> 's \<Rightarrow> bool) \<Rightarrow> 's \<Rightarrow> bool"
  for init :: "'s \<Rightarrow> bool" and step :: "'s \<Rightarrow> 's \<Rightarrow> bool" where
  reach_init: "init s \<Longrightarrow> reach init step s"
| reach_step: "reach init step s \<Longrightarrow> step s t \<Longrightarrow> reach init step t"

text \<open>A component whose steps keep an invariant.\<close>

locale invariant_system =
  fixes init :: "'s \<Rightarrow> bool" and step :: "'s \<Rightarrow> 's \<Rightarrow> bool" and inv :: "'s \<Rightarrow> bool"
  assumes inv_init: "init s \<Longrightarrow> inv s"
    and inv_step: "inv s \<Longrightarrow> step s t \<Longrightarrow> inv t"
begin

lemma reach_inv: "reach init step s \<Longrightarrow> inv s"
  by (induction rule: reach.induct) (auto intro: inv_init inv_step)

lemma steps_inv: "step\<^sup>*\<^sup>* s t \<Longrightarrow> inv s \<Longrightarrow> inv t"
  by (induction rule: rtranclp_induct) (auto intro: inv_step)

end

text \<open>
  A component that implements an abstract machine: every step is a step of the machine on the
  abstracted states, or leaves the abstracted state alone.
\<close>

locale refinement = invariant_system init step inv
  for init :: "'s \<Rightarrow> bool" and step :: "'s \<Rightarrow> 's \<Rightarrow> bool" and inv :: "'s \<Rightarrow> bool" +
  fixes ainit :: "'a \<Rightarrow> bool" and astep :: "'a \<Rightarrow> 'a \<Rightarrow> bool" and abs :: "'s \<Rightarrow> 'a"
  assumes abs_init: "init s \<Longrightarrow> ainit (abs s)"
    and abs_step: "inv s \<Longrightarrow> step s t \<Longrightarrow> abs t = abs s \<or> astep (abs s) (abs t)"
begin

lemma reach_abs: "reach init step s \<Longrightarrow> reach ainit astep (abs s)"
proof (induction rule: reach.induct)
  case (reach_init s)
  then show ?case by (intro reach.reach_init abs_init)
next
  case (reach_step s t)
  from abs_step [OF reach_inv [OF reach_step.hyps(1)] reach_step.hyps(2)] show ?case
    using reach_step.IH by (auto intro: reach.reach_step)
qed

lemma steps_abs: "step\<^sup>*\<^sup>* s t \<Longrightarrow> inv s \<Longrightarrow> astep\<^sup>*\<^sup>* (abs s) (abs t)"
proof (induction rule: rtranclp_induct)
  case (step t u)
  from abs_step [OF steps_inv [OF step.hyps(1) step.prems] step.hyps(2)] show ?case
    using step.IH [OF step.prems] by (auto intro: rtranclp.rtrancl_into_rtrancl)
qed simp

end

section \<open>Lists and maps\<close>

lemma distinct_map_filter: "distinct (map f xs) \<Longrightarrow> distinct (map f (filter P xs))"
  by (induction xs) auto

lemma map_filter_partition_set:
  "f ` set (filter P xs) \<union> f ` set (filter (\<lambda>x. \<not> P x) xs) = f ` set xs"
  by auto

lemma fold_upd_eq:
  "fold (\<lambda>x m. m(f x := v)) xs m y = (if y \<in> f ` set xs then v else m y)"
  by (induction xs arbitrary: m) auto

lemma fold_insert_eq: "fold (\<lambda>x. insert (f x)) xs A = f ` set xs \<union> A"
  by (induction xs arbitrary: A) auto

lemma fold_delete_eq: "fold (\<lambda>x A. A - {f x}) xs A = A - f ` set xs"
  by (induction xs arbitrary: A) auto

section \<open>Go strings\<close>

definition hasPrefix :: "string \<Rightarrow> string \<Rightarrow> bool" where
  "hasPrefix s p \<longleftrightarrow> take (length p) s = p"

definition trimPrefix :: "string \<Rightarrow> string \<Rightarrow> string" where
  "trimPrefix s p = (if hasPrefix s p then drop (length p) s else s)"

text \<open>
  \<open>cut s c\<close> splits at the first \<open>c\<close>: what \<^verbatim>\<open>strings.SplitN(s, c, 2)\<close> returns, as the part
  before and, when \<open>c\<close> occurs, the part after.
\<close>

definition cut :: "string \<Rightarrow> char \<Rightarrow> string \<times> string option" where
  "cut s c = (takeWhile (\<lambda>x. x \<noteq> c) s,
     (case dropWhile (\<lambda>x. x \<noteq> c) s of [] \<Rightarrow> None | _ # r \<Rightarrow> Some r))"

lemma hasPrefix_append [simp]: "hasPrefix (p @ s) p"
  by (simp add: hasPrefix_def)

lemma hasPrefix_iff: "hasPrefix s p \<longleftrightarrow> (\<exists>r. s = p @ r)"
  by (metis append_eq_conv_conj append_take_drop_id hasPrefix_def)

lemma trimPrefix_append [simp]: "trimPrefix (p @ s) p = s"
  by (simp add: trimPrefix_def)

lemma cut_append: "c \<notin> set a \<Longrightarrow> cut (a @ c # b) c = (a, Some b)"
proof -
  assume c: "c \<notin> set a"
  then have "takeWhile (\<lambda>x. x \<noteq> c) (a @ c # b) = a" by (induction a) auto
  moreover from c have "dropWhile (\<lambda>x. x \<noteq> c) (a @ c # b) = c # b" by (induction a) auto
  ultimately show ?thesis by (simp add: cut_def)
qed

lemma cut_Some: "cut s c = (a, Some b) \<Longrightarrow> s = a @ c # b \<and> c \<notin> set a"
proof -
  assume h: "cut s c = (a, Some b)"
  then obtain d where d: "dropWhile (\<lambda>x. x \<noteq> c) s = d # b"
    by (auto simp: cut_def split: list.splits)
  then have "d = c" by (metis (mono_tags) hd_dropWhile list.distinct(1) list.sel(1))
  moreover from h have a: "a = takeWhile (\<lambda>x. x \<noteq> c) s" by (simp add: cut_def)
  ultimately show ?thesis using d set_takeWhileD
    by (metis takeWhile_dropWhile_id)
qed

text \<open>
  \<^verbatim>\<open>strings.TrimSpace\<close> removes leading and trailing Unicode white space. The white space
  runes in UTF-8: the six ASCII ones, U+0085, U+00A0, U+1680, U+2000 to U+200A, U+2028, U+2029,
  U+202F, U+205F and U+3000.
\<close>

definition space_runes :: "string list" where
  "space_runes =
     [[CHR 0x20], [CHR 0x09], [CHR 0x0A], [CHR 0x0B], [CHR 0x0C], [CHR 0x0D],
      [CHR 0xC2, CHR 0x85], [CHR 0xC2, CHR 0xA0], [CHR 0xE1, CHR 0x9A, CHR 0x80],
      [CHR 0xE2, CHR 0x80, CHR 0x80], [CHR 0xE2, CHR 0x80, CHR 0x81],
      [CHR 0xE2, CHR 0x80, CHR 0x82], [CHR 0xE2, CHR 0x80, CHR 0x83],
      [CHR 0xE2, CHR 0x80, CHR 0x84], [CHR 0xE2, CHR 0x80, CHR 0x85],
      [CHR 0xE2, CHR 0x80, CHR 0x86], [CHR 0xE2, CHR 0x80, CHR 0x87],
      [CHR 0xE2, CHR 0x80, CHR 0x88], [CHR 0xE2, CHR 0x80, CHR 0x89],
      [CHR 0xE2, CHR 0x80, CHR 0x8A], [CHR 0xE2, CHR 0x80, CHR 0xA8],
      [CHR 0xE2, CHR 0x80, CHR 0xA9], [CHR 0xE2, CHR 0x80, CHR 0xAF],
      [CHR 0xE2, CHR 0x81, CHR 0x9F], [CHR 0xE3, CHR 0x80, CHR 0x80]]"

function trimLeft :: "string list \<Rightarrow> string \<Rightarrow> string" where
  "trimLeft ws s =
     (case find (\<lambda>w. w \<noteq> [] \<and> hasPrefix s w) ws of
        None \<Rightarrow> s
      | Some w \<Rightarrow> trimLeft ws (drop (length w) s))"
  by pat_completeness auto
termination
  by (relation "measure (\<lambda>(ws, s). length s)") (auto simp: find_Some_iff hasPrefix_iff)

declare trimLeft.simps [simp del]

definition trimSpace :: "string \<Rightarrow> string" where
  "trimSpace s = rev (trimLeft (map rev space_runes) (rev (trimLeft space_runes s)))"

lemma trimLeft_Nil [simp]: "trimLeft ws [] = []"
  by (subst trimLeft.simps) (auto split: option.splits simp: find_Some_iff hasPrefix_def)

lemma trimSpace_Nil [simp]: "trimSpace [] = []"
  by (simp add: trimSpace_def)

lemma trimLeft_fixed: "find (\<lambda>w. w \<noteq> [] \<and> hasPrefix s w) ws = None \<Longrightarrow> trimLeft ws s = s"
  by (subst trimLeft.simps) simp

lemma trimLeft_stable: "find (\<lambda>w. w \<noteq> [] \<and> hasPrefix (trimLeft ws s) w) ws = None"
proof (induction ws s rule: trimLeft.induct)
  case (1 ws s)
  show ?case
  proof (cases "find (\<lambda>w. w \<noteq> [] \<and> hasPrefix s w) ws")
    case None
    then show ?thesis by (simp add: trimLeft_fixed)
  next
    case (Some w)
    with "1.IH" show ?thesis by (subst trimLeft.simps) simp
  qed
qed

lemma trimLeft_suffix: "\<exists>p. s = p @ trimLeft ws s"
proof (induction ws s rule: trimLeft.induct)
  case (1 ws s)
  show ?case
  proof (cases "find (\<lambda>w. w \<noteq> [] \<and> hasPrefix s w) ws")
    case None
    then show ?thesis by (simp add: trimLeft_fixed)
  next
    case (Some w)
    with "1.IH" obtain p where "drop (length w) s = p @ trimLeft ws (drop (length w) s)" by auto
    then have "s = (take (length w) s @ p) @ trimLeft ws (drop (length w) s)"
      by (metis append.assoc append_take_drop_id)
    moreover from Some have "trimLeft ws s = trimLeft ws (drop (length w) s)"
      by (subst trimLeft.simps) simp
    ultimately show ?thesis by metis
  qed
qed

lemma trimSpace_idem [simp]: "trimSpace (trimSpace s) = trimSpace s"
proof -
  let ?ws = space_runes and ?ws' = "map rev space_runes"
  let ?t = "trimLeft ?ws s"
  let ?r = "trimSpace s"
  have r: "?r = rev (trimLeft ?ws' (rev ?t))" by (simp add: trimSpace_def)
  from trimLeft_suffix [of "rev ?t" ?ws'] obtain p where "rev ?t = p @ rev ?r" unfolding r by auto
  then have t: "?t = ?r @ rev p" by (metis rev_append rev_rev_ident)
  have "find (\<lambda>w. w \<noteq> [] \<and> hasPrefix ?r w) ?ws = None"
    using trimLeft_stable [of ?ws s] unfolding find_None_iff
    by (subst (asm) t) (auto simp: hasPrefix_iff)
  then have "trimLeft ?ws ?r = ?r" by (rule trimLeft_fixed)
  moreover have "trimLeft ?ws' (rev ?r) = rev ?r"
    using trimLeft_stable [of ?ws' "rev ?t"] unfolding r by (intro trimLeft_fixed) simp
  ultimately show ?thesis unfolding trimSpace_def [of ?r] by simp
qed

text \<open>\<^verbatim>\<open>time.Second\<close>, in nanoseconds.\<close>

definition second :: int where "second = 1000000000"

section \<open>Go errors\<close>

text \<open>
  An error is a tree: sentinels of the program, errors of outside code, and
  \<^verbatim>\<open>fmt.Errorf\<close> values with their format and arguments, wrapping another error when the format
  has \<^verbatim>\<open>%w\<close>. The constructors of Karpenter's error types are the last group.
\<close>

datatype grpc_code = Unavailable | NotFoundCode | OtherCode nat

datatype gerror =
    ErrNodeNotFound
  | ErrListNodesUnsupported
  | ErrGetNodeUnsupported
  | ErrBatchRejected
  | GrpcError grpc_code string
  | ExternalError string
  | ContextDone
  | Errorf string "string list"
  | Wrapf string "string list" gerror
  | Joined "gerror list"
  | NodeClaimNotFoundError gerror
  | InsufficientCapacityError gerror
  | CreateError gerror string string

text \<open>\<^verbatim>\<open>errors.Is(err, target)\<close> walks the chain of wrapped errors.\<close>

fun errorsIs :: "gerror \<Rightarrow> gerror \<Rightarrow> bool" where
  "errorsIs e t \<longleftrightarrow> e = t \<or>
     (case e of
        Wrapf _ _ e' \<Rightarrow> errorsIs e' t
      | Joined es \<Rightarrow> (\<exists>e' \<in> set es. errorsIs e' t)
      | NodeClaimNotFoundError e' \<Rightarrow> errorsIs e' t
      | InsufficientCapacityError e' \<Rightarrow> errorsIs e' t
      | CreateError e' _ _ \<Rightarrow> errorsIs e' t
      | _ \<Rightarrow> False)"

declare errorsIs.simps [simp del]

lemma errorsIs_self [simp]: "errorsIs e e"
  by (subst errorsIs.simps) simp

lemma errorsIs_Wrapf [simp]: "errorsIs (Wrapf f a e) t \<longleftrightarrow> Wrapf f a e = t \<or> errorsIs e t"
  by (subst errorsIs.simps) simp

type_synonym 'a result = "gerror + 'a"

text \<open>Continuing after a call, and wrapping its error.\<close>

definition andThen :: "'a result \<Rightarrow> ('a \<Rightarrow> 'b result) \<Rightarrow> 'b result" where
  "andThen r f = (case r of Inl e \<Rightarrow> Inl e | Inr x \<Rightarrow> f x)"

definition wrapError :: "string \<Rightarrow> string list \<Rightarrow> 'a result \<Rightarrow> 'a result" where
  "wrapError fmt args r = (case r of Inl e \<Rightarrow> Inl (Wrapf fmt args e) | Inr x \<Rightarrow> Inr x)"

lemma andThen_simps [simp]: "andThen (Inl e) f = Inl e" "andThen (Inr x) f = f x"
  by (simp_all add: andThen_def)

lemma wrapError_simps [simp]:
  "wrapError fmt args (Inl e) = Inl (Wrapf fmt args e)" "wrapError fmt args (Inr x) = Inr x"
  by (simp_all add: wrapError_def)

lemma andThen_Inr: "andThen r f = Inr y \<longleftrightarrow> (\<exists>x. r = Inr x \<and> f x = Inr y)"
  by (cases r) auto

lemma wrapError_Inr: "wrapError fmt args r = Inr y \<longleftrightarrow> r = Inr y"
  by (cases r) auto

end
