(* ===== verification/ProviderID.thy ===== *)
theory ProviderID
  imports Prelude
begin

text \<open>
  Provider IDs, \<^verbatim>\<open>pkg/rafay/providerid.go\<close>, and the pending IDs of
  \<^verbatim>\<open>pkg/cloudprovider/cloudprovider.go\<close>: building, parsing and their round trip.
\<close>

definition ProviderIDPrefix :: string where
  "ProviderIDPrefix = ''rafay://''"

definition PendingProviderIDPrefix :: string where
  "PendingProviderIDPrefix = ''rafay://pending/''"

definition BuildProviderID :: "string \<Rightarrow> string \<Rightarrow> string \<Rightarrow> string" where
  "BuildProviderID nodePoolName skuName hostname =
     (if nodePoolName = [] \<or> skuName = [] \<or> hostname = [] then []
      else ProviderIDPrefix @ nodePoolName @ ''/'' @ skuName @ ''/'' @ hostname)"

definition ParseProviderID :: "string \<Rightarrow> (string \<times> string) result" where
  "ParseProviderID providerID =
     (if \<not> hasPrefix providerID ProviderIDPrefix
      then Inl (Errorf ''invalid rafay provider ID %q'' [providerID])
      else
        (case cut (trimPrefix providerID ProviderIDPrefix) (CHR ''/'') of
           (a, Some b) \<Rightarrow>
             (if a = [] \<or> b = []
              then Inl (Errorf ''invalid rafay provider ID %q'' [providerID])
              else Inr (a, b))
         | (a, None) \<Rightarrow> Inl (Errorf ''invalid rafay provider ID %q'' [providerID])))"

text \<open>A provider ID is pending when it starts with the pending prefix.\<close>

abbreviation is_pending :: "string \<Rightarrow> bool" where
  "is_pending pid \<equiv> hasPrefix pid PendingProviderIDPrefix"

lemma BuildProviderID_empty_iff:
  "BuildProviderID p s h = [] \<longleftrightarrow> p = [] \<or> s = [] \<or> h = []"
  by (simp add: BuildProviderID_def ProviderIDPrefix_def)

lemma parse_build:
  assumes "p \<noteq> []" and "s \<noteq> []" and "h \<noteq> []" and "CHR ''/'' \<notin> set p"
  shows "ParseProviderID (BuildProviderID p s h) = Inr (p, s @ ''/'' @ h)"
  using assms cut_append [of "CHR ''/''" p "s @ ''/'' @ h"]
  by (simp add: BuildProviderID_def ParseProviderID_def)

lemma parse_Inr:
  assumes "ParseProviderID pid = Inr (a, b)"
  shows "pid = ProviderIDPrefix @ a @ ''/'' @ b \<and> a \<noteq> [] \<and> b \<noteq> [] \<and> CHR ''/'' \<notin> set a"
proof -
  from assms have "hasPrefix pid ProviderIDPrefix"
    by (simp add: ParseProviderID_def split: if_splits)
  then obtain r where r: "pid = ProviderIDPrefix @ r" by (auto simp: hasPrefix_iff)
  with assms have "cut r (CHR ''/'') = (a, Some b)" "a \<noteq> []" "b \<noteq> []"
    by (auto simp: ParseProviderID_def split: prod.splits option.splits if_splits)
  then show ?thesis using cut_Some [of r "CHR ''/''" a b] r by simp
qed

lemma parse_pending: "u \<noteq> [] \<Longrightarrow> ParseProviderID (PendingProviderIDPrefix @ u) = Inr (''pending'', u)"
  by (simp add: ParseProviderID_def PendingProviderIDPrefix_def ProviderIDPrefix_def hasPrefix_def
      trimPrefix_def cut_def)

lemma pending_not_Nil [simp]: "is_pending pid \<Longrightarrow> pid \<noteq> []"
  by (auto simp: hasPrefix_def PendingProviderIDPrefix_def)

lemma pending_append [simp]: "is_pending (PendingProviderIDPrefix @ u)"
  by simp

lemma build_pending_iff:
  assumes "p \<noteq> []" and "s \<noteq> []" and "h \<noteq> []" and "CHR ''/'' \<notin> set p"
  shows "is_pending (BuildProviderID p s h) \<longleftrightarrow> p = ''pending''"
proof
  assume "is_pending (BuildProviderID p s h)"
  then obtain u where u: "BuildProviderID p s h = PendingProviderIDPrefix @ u"
    by (auto simp: hasPrefix_iff)
  with assms have "p @ CHR ''/'' # s @ ''/'' @ h = ''pending'' @ CHR ''/'' # u"
    by (simp add: BuildProviderID_def PendingProviderIDPrefix_def ProviderIDPrefix_def)
  then have "cut (p @ CHR ''/'' # s @ ''/'' @ h) (CHR ''/'')
      = cut (''pending'' @ CHR ''/'' # u) (CHR ''/'')" by simp
  with assms(4) show "p = ''pending''"
    using cut_append [of "CHR ''/''" p] cut_append [of "CHR ''/''" "''pending''"] by simp
next
  assume "p = ''pending''"
  with assms show "is_pending (BuildProviderID p s h)"
    by (simp add: BuildProviderID_def PendingProviderIDPrefix_def ProviderIDPrefix_def hasPrefix_def)
qed

section \<open>Properties\<close>

text \<open>
  C40: A provider ID built for an adopted node parses back: for non-empty segments and a pool name
  without a slash the parser returns the pool name and the rest \<open>sku/hostname\<close>; and whatever
  parses is exactly the prefix, a non-empty pool segment without a slash, the slash and a non-empty
  rest, so parsing loses nothing.
\<close>
theorem provider_id_roundtrip:
  "(p \<noteq> [] \<and> s \<noteq> [] \<and> h \<noteq> [] \<and> CHR ''/'' \<notin> set p \<longrightarrow>
      ParseProviderID (BuildProviderID p s h) = Inr (p, s @ ''/'' @ h)) \<and>
   (ParseProviderID pid = Inr (a, b) \<longrightarrow>
      pid = ProviderIDPrefix @ a @ ''/'' @ b \<and> a \<noteq> [] \<and> b \<noteq> [] \<and> CHR ''/'' \<notin> set a)"
  using parse_build parse_Inr by blast

theorem provider_id_roundtrip_witness:
  "ParseProviderID (BuildProviderID ''pool1'' ''oci'' ''h1'') = Inr (''pool1'', ''oci/h1'')"
  using provider_id_roundtrip [of "''pool1''" "''oci''" "''h1''"] by simp

end
