(* ===== verification/Batcher.thy ===== *)
theory Batcher
  imports Prelude
begin

text \<open>
  The node batcher, \<^verbatim>\<open>pkg/rafay/batcher.go\<close>: its state and its operations, one definition
  per function, and the functional facts about each. A function that releases its locks in the
  middle is a composition of its locked sections, so that \<open>Batcher_System\<close> can interleave them.

  Channels are numbered; the store \<open>nb_chans\<close> maps a channel to the results in its buffer. The
  clock is an argument \<open>now\<close> of the operations that read it. A registered failure handler is
  identified by a number; a call of it is a \<open>handlerCall\<close> in the operation's output.
\<close>

section \<open>Constants\<close>

definition defaultMaxBatchSize :: nat where "defaultMaxBatchSize = 10"
definition defaultBatchWindow :: int where "defaultBatchWindow = 10 * second"
definition defaultPollInterval :: int where "defaultPollInterval = 30 * second"
definition defaultInitialDelay :: int where "defaultInitialDelay = 120 * second"
definition batchItemQueueBuffer :: nat where "batchItemQueueBuffer = 256"
definition maxBatchAge :: int where "maxBatchAge = 2 * 3600 * second"
definition maxConsecutiveEmptyPolls :: nat where "maxConsecutiveEmptyPolls = 3"
definition succeededRetention :: int where "succeededRetention = 2 * 3600 * second"
definition expiredBatchDetail :: string where "expiredBatchDetail = ''batch expired at broker''"
definition opKindAdd :: string where "opKindAdd = ''add''"
definition opKindRemove :: string where "opKindRemove = ''remove''"

lemma kinds_differ [simp]: "opKindAdd \<noteq> opKindRemove" "opKindRemove \<noteq> opKindAdd"
  by (simp_all add: opKindAdd_def opKindRemove_def)

section \<open>Data\<close>

type_synonym time = int
type_synonym chan = nat

record AddNodesRequest =
  ar_ClusterID :: string
  ar_ProjectID :: string
  ar_InstanceType :: string
  ar_NodePoolName :: string
  ar_OperationID :: string

record RemoveNodesRequest =
  rr_ClusterID :: string
  rr_ProjectID :: string
  rr_InstanceType :: string
  rr_NodePoolName :: string
  rr_ProviderID :: string

record batchItem =
  bi_operationID :: string
  bi_kind :: string
  bi_req :: AddNodesRequest
  bi_removeReq :: RemoveNodesRequest

record BatchResult =
  br_ProviderID :: string
  br_BatchID :: string
  br_Err :: "gerror option"

record inProgressBatch =
  ipb_batchID :: string
  ipb_kind :: string
  ipb_items :: "batchItem list"
  ipb_sentAt :: time
  ipb_pollAfter :: time
  ipb_emptyPolls :: nat

text \<open>The zero values a composite literal leaves in the fields it does not name.\<close>

definition zeroAddReq :: AddNodesRequest where
  "zeroAddReq = \<lparr>ar_ClusterID = [], ar_ProjectID = [], ar_InstanceType = [], ar_NodePoolName = [],
     ar_OperationID = []\<rparr>"

definition zeroRemoveReq :: RemoveNodesRequest where
  "zeroRemoveReq = \<lparr>rr_ClusterID = [], rr_ProjectID = [], rr_InstanceType = [], rr_NodePoolName = [],
     rr_ProviderID = []\<rparr>"

definition ackResult :: "string \<Rightarrow> BatchResult" where
  "ackResult bid = \<lparr>br_ProviderID = [], br_BatchID = bid, br_Err = None\<rparr>"

definition errResult :: "gerror \<Rightarrow> BatchResult" where
  "errResult e = \<lparr>br_ProviderID = [], br_BatchID = [], br_Err = Some e\<rparr>"

lemma result_sel [simp]:
  "br_Err (ackResult bid) = None" "br_BatchID (ackResult bid) = bid"
  "br_Err (errResult e) = Some e" "br_BatchID (errResult e) = []"
  by (simp_all add: ackResult_def errResult_def)

text \<open>The messages of the broker protocol the batcher builds and reads.\<close>

record addItem =
  ai_OperationId :: string
  ai_ClusterId :: string
  ai_ProjectId :: string
  ai_InstanceType :: string
  ai_NodePoolName :: string

record removeItem =
  ri_OperationId :: string
  ri_ClusterId :: string
  ri_ProjectId :: string
  ri_InstanceType :: string
  ri_NodePoolName :: string
  ri_ProviderId :: string

datatype opState = Accepted | Running | Succeeded_state | Failed_state | Unspecified

record nodeResult =
  nr_OperationId :: string
  nr_State :: opState
  nr_ProviderIds :: "string list"
  nr_Detail :: string

text \<open>The four broker calls the batcher makes, over the state \<open>'w\<close> of the outside world.\<close>

record 'w batchBroker =
  bb_SendBatch :: "addItem list \<Rightarrow> 'w \<Rightarrow> string result \<times> 'w"
  bb_SendBatchRemove :: "removeItem list \<Rightarrow> 'w \<Rightarrow> string result \<times> 'w"
  bb_PollBatchStatus :: "string \<Rightarrow> 'w \<Rightarrow> nodeResult list result \<times> 'w"
  bb_CancelOperations :: "string list \<Rightarrow> 'w \<Rightarrow> string list result \<times> 'w"

record NodeBatcher =
  nb_queue :: "batchItem list"
  nb_maxBatchSize :: nat
  nb_batchWindow :: int
  nb_pollInterval :: int
  nb_initialDelay :: int
  nb_inProgress :: "string \<rightharpoonup> inProgressBatch"
  nb_inFlight :: "string set"
  nb_opBatch :: "string \<rightharpoonup> string"
  nb_succeeded :: "string \<rightharpoonup> time"
  nb_pending :: "string \<rightharpoonup> chan list"
  nb_chans :: "chan \<Rightarrow> BatchResult list"
  nb_nextChan :: chan
  nb_failureHandler :: "nat option"

text \<open>One call of the failure handler: the handler, the operation, its kind and the detail.\<close>

type_synonym handlerCall = "nat \<times> string \<times> string \<times> string"

definition NewNodeBatcher :: NodeBatcher where
  "NewNodeBatcher =
     \<lparr>nb_queue = [], nb_maxBatchSize = defaultMaxBatchSize, nb_batchWindow = defaultBatchWindow,
      nb_pollInterval = defaultPollInterval, nb_initialDelay = defaultInitialDelay,
      nb_inProgress = Map.empty, nb_inFlight = {}, nb_opBatch = Map.empty,
      nb_succeeded = Map.empty, nb_pending = Map.empty, nb_chans = (\<lambda>_. []), nb_nextChan = 0,
      nb_failureHandler = None\<rparr>"

section \<open>Queries and the failure handler\<close>

definition Succeeded :: "string \<Rightarrow> NodeBatcher \<Rightarrow> bool" where
  "Succeeded operationID b \<longleftrightarrow> nb_succeeded b operationID \<noteq> None"

definition Tracking :: "string \<Rightarrow> NodeBatcher \<Rightarrow> bool" where
  "Tracking batchID b \<longleftrightarrow> nb_inProgress b (trimSpace batchID) \<noteq> None"

definition SetFailureHandler :: "nat option \<Rightarrow> NodeBatcher \<Rightarrow> NodeBatcher" where
  "SetFailureHandler fn b = b\<lparr>nb_failureHandler := fn\<rparr>"

definition failureHandlerFn :: "NodeBatcher \<Rightarrow> nat option" where
  "failureHandlerFn b = nb_failureHandler b"

section \<open>Enqueueing\<close>

text \<open>A fresh channel with an empty buffer, and a send into a channel's buffer.\<close>

definition makeChan :: "NodeBatcher \<Rightarrow> chan \<times> NodeBatcher" where
  "makeChan b = (nb_nextChan b, b\<lparr>nb_nextChan := Suc (nb_nextChan b)\<rparr>)"

definition sendChan :: "BatchResult \<Rightarrow> chan \<Rightarrow> NodeBatcher \<Rightarrow> NodeBatcher" where
  "sendChan r c b = b\<lparr>nb_chans := (nb_chans b)(c := nb_chans b c @ [r])\<rparr>"

text \<open>
  The section of \<^verbatim>\<open>enqueueItem\<close> under \<^verbatim>\<open>mu\<close>: \<open>Some\<close> of the batch (the empty string
  when the map has none) for an operation in flight.
\<close>

definition enqueue_check :: "string \<Rightarrow> NodeBatcher \<Rightarrow> string option" where
  "enqueue_check operationID b =
     (if operationID \<in> nb_inFlight b
      then Some (case nb_opBatch b operationID of None \<Rightarrow> [] | Some bid \<Rightarrow> bid)
      else None)"

text \<open>The section of \<^verbatim>\<open>enqueueItem\<close> under \<^verbatim>\<open>pendingMu\<close>.\<close>

definition enqueue_join :: "chan \<Rightarrow> batchItem \<Rightarrow> NodeBatcher \<Rightarrow> NodeBatcher" where
  "enqueue_join ch item b =
     (case nb_pending b (bi_operationID item) of
        Some waiters \<Rightarrow>
          b\<lparr>nb_pending := (nb_pending b)(bi_operationID item \<mapsto> waiters @ [ch])\<rparr>
      | None \<Rightarrow>
          (let b1 = b\<lparr>nb_pending := (nb_pending b)(bi_operationID item \<mapsto> [ch])\<rparr> in
           if length (nb_queue b1) < batchItemQueueBuffer
           then b1\<lparr>nb_queue := nb_queue b1 @ [item]\<rparr>
           else
             (let b2 = sendChan (errResult (Errorf ''batcher queue full (capacity %d)'' [''256''])) ch b1
              in b2\<lparr>nb_pending := (nb_pending b2)(bi_operationID item := None)\<rparr>)))"

definition enqueueItem :: "batchItem \<Rightarrow> NodeBatcher \<Rightarrow> chan \<times> NodeBatcher" where
  "enqueueItem item b =
     (let (ch, b1) = makeChan b in
      case enqueue_check (bi_operationID item) b1 of
        Some batchID \<Rightarrow> (ch, sendChan (ackResult batchID) ch b1)
      | None \<Rightarrow> (ch, enqueue_join ch item b1))"

definition Enqueue :: "string \<Rightarrow> AddNodesRequest \<Rightarrow> NodeBatcher \<Rightarrow> chan \<times> NodeBatcher" where
  "Enqueue operationID req =
     enqueueItem \<lparr>bi_operationID = operationID, bi_kind = opKindAdd, bi_req = req,
       bi_removeReq = zeroRemoveReq\<rparr>"

definition EnqueueRemove :: "string \<Rightarrow> RemoveNodesRequest \<Rightarrow> NodeBatcher \<Rightarrow> chan \<times> NodeBatcher" where
  "EnqueueRemove operationID req =
     enqueueItem \<lparr>bi_operationID = operationID, bi_kind = opKindRemove, bi_req = zeroAddReq,
       bi_removeReq = req\<rparr>"

text \<open>
  \<^verbatim>\<open>resolvePending\<close>: the waiters are taken out of the map first, then each gets the result.
\<close>

definition resolvePending :: "string \<Rightarrow> BatchResult \<Rightarrow> NodeBatcher \<Rightarrow> NodeBatcher" where
  "resolvePending operationID result b =
     (let waiters = (case nb_pending b operationID of None \<Rightarrow> [] | Some ws \<Rightarrow> ws);
          b1 = b\<lparr>nb_pending := (nb_pending b)(operationID := None)\<rparr>
      in fold (sendChan result) waiters b1)"

section \<open>Collecting and sending a batch\<close>

text \<open>
  \<^verbatim>\<open>collectBatch\<close> reacts to what its \<^verbatim>\<open>select\<close> chooses: the context ends, an item
  arrives, the closed queue is seen, or the window timer fires. \<open>None\<close> is the result of a
  collection that still waits when the list of events ends; the second component is what it has.
\<close>

datatype collectEvent = CtxDone | Arrived batchItem | QueueClosed | TimerFired

fun collectMore :: "nat \<Rightarrow> batchItem list \<Rightarrow> collectEvent list \<Rightarrow> batchItem list option \<times> batchItem list" where
  "collectMore maxSize batch [] = (None, batch)"
| "collectMore maxSize batch (CtxDone # evs) = (Some batch, batch)"
| "collectMore maxSize batch (QueueClosed # evs) = (Some batch, batch)"
| "collectMore maxSize batch (TimerFired # evs) = (Some batch, batch)"
| "collectMore maxSize batch (Arrived item # evs) =
     (if maxSize \<le> length (batch @ [item]) then (Some (batch @ [item]), batch @ [item])
      else collectMore maxSize (batch @ [item]) evs)"

fun collectBatch :: "nat \<Rightarrow> collectEvent list \<Rightarrow> batchItem list option \<times> batchItem list" where
  "collectBatch maxSize [] = (None, [])"
| "collectBatch maxSize (CtxDone # evs) = (Some [], [])"
| "collectBatch maxSize (QueueClosed # evs) = (Some [], [])"
| "collectBatch maxSize (TimerFired # evs) = collectBatch maxSize evs"
| "collectBatch maxSize (Arrived item # evs) =
     (if maxSize \<le> length [item] then (Some [item], [item])
      else collectMore maxSize [item] evs)"

text \<open>The split by kind at the start of \<^verbatim>\<open>sendBatch\<close>.\<close>

definition partitionBatch :: "batchItem list \<Rightarrow> batchItem list \<times> batchItem list" where
  "partitionBatch batch =
     fold (\<lambda>item (adds, removes).
        if bi_kind item = opKindRemove then (adds, removes @ [item])
        else (adds @ [item], removes)) batch ([], [])"

definition toAddItem :: "batchItem \<Rightarrow> addItem" where
  "toAddItem item =
     \<lparr>ai_OperationId = bi_operationID item, ai_ClusterId = ar_ClusterID (bi_req item),
      ai_ProjectId = ar_ProjectID (bi_req item), ai_InstanceType = ar_InstanceType (bi_req item),
      ai_NodePoolName = ar_NodePoolName (bi_req item)\<rparr>"

definition toRemoveItem :: "batchItem \<Rightarrow> removeItem" where
  "toRemoveItem item =
     \<lparr>ri_OperationId = bi_operationID item, ri_ClusterId = rr_ClusterID (bi_removeReq item),
      ri_ProjectId = rr_ProjectID (bi_removeReq item),
      ri_InstanceType = rr_InstanceType (bi_removeReq item),
      ri_NodePoolName = rr_NodePoolName (bi_removeReq item),
      ri_ProviderId = rr_ProviderID (bi_removeReq item)\<rparr>"

definition sendFailure :: "string \<Rightarrow> gerror \<Rightarrow> BatchResult" where
  "sendFailure kind e = errResult (Wrapf ''send %s batch failed: %w'' [kind] e)"

definition failBatchSend :: "string \<Rightarrow> batchItem list \<Rightarrow> gerror \<Rightarrow> NodeBatcher \<Rightarrow> NodeBatcher" where
  "failBatchSend kind batch e b =
     fold (\<lambda>item. resolvePending (bi_operationID item) (sendFailure kind e)) batch b"

text \<open>The section of \<^verbatim>\<open>registerAndAck\<close> under \<^verbatim>\<open>mu\<close>.\<close>

definition registerBatch :: "time \<Rightarrow> string \<Rightarrow> string \<Rightarrow> batchItem list \<Rightarrow> NodeBatcher \<Rightarrow> NodeBatcher" where
  "registerBatch now kind batchID batch b =
     b\<lparr>nb_inProgress := (nb_inProgress b)(batchID \<mapsto>
          \<lparr>ipb_batchID = batchID, ipb_kind = kind, ipb_items = batch, ipb_sentAt = now,
           ipb_pollAfter = now + nb_initialDelay b, ipb_emptyPolls = 0\<rparr>),
       nb_inFlight := fold (\<lambda>item. insert (bi_operationID item)) batch (nb_inFlight b),
       nb_opBatch := fold (\<lambda>item m. m(bi_operationID item := Some batchID)) batch (nb_opBatch b)\<rparr>"

definition registerAndAck :: "time \<Rightarrow> string \<Rightarrow> string \<Rightarrow> batchItem list \<Rightarrow> NodeBatcher \<Rightarrow> NodeBatcher" where
  "registerAndAck now kind batchID batch b =
     fold (\<lambda>item. resolvePending (bi_operationID item) (ackResult batchID)) batch
       (registerBatch now kind batchID batch b)"

definition sendAddBatch ::
  "'w batchBroker \<Rightarrow> time \<Rightarrow> batchItem list \<Rightarrow> 'w \<times> NodeBatcher \<Rightarrow> 'w \<times> NodeBatcher" where
  "sendAddBatch client now batch = (\<lambda>(w, b).
     case bb_SendBatch client (map toAddItem batch) w of
       (Inl e, w') \<Rightarrow> (w', failBatchSend opKindAdd batch e b)
     | (Inr batchID, w') \<Rightarrow> (w', registerAndAck now opKindAdd batchID batch b))"

definition sendRemoveBatch ::
  "'w batchBroker \<Rightarrow> time \<Rightarrow> batchItem list \<Rightarrow> 'w \<times> NodeBatcher \<Rightarrow> 'w \<times> NodeBatcher" where
  "sendRemoveBatch client now batch = (\<lambda>(w, b).
     case bb_SendBatchRemove client (map toRemoveItem batch) w of
       (Inl e, w') \<Rightarrow> (w', failBatchSend opKindRemove batch e b)
     | (Inr batchID, w') \<Rightarrow> (w', registerAndAck now opKindRemove batchID batch b))"

text \<open>\<^verbatim>\<open>sendBatch\<close>; the two sends read the clock separately.\<close>

definition sendBatch ::
  "'w batchBroker \<Rightarrow> time \<Rightarrow> time \<Rightarrow> batchItem list \<Rightarrow> 'w \<times> NodeBatcher \<Rightarrow> 'w \<times> NodeBatcher" where
  "sendBatch client nowAdd nowRemove batch s =
     (let (adds, removes) = partitionBatch batch;
          s1 = (if adds \<noteq> [] then sendAddBatch client nowAdd adds s else s)
      in if removes \<noteq> [] then sendRemoveBatch client nowRemove removes s1 else s1)"

section \<open>Resuming a batch of an earlier process\<close>

definition resumeItem :: "string \<Rightarrow> batchItem" where
  "resumeItem op = \<lparr>bi_operationID = op, bi_kind = opKindAdd, bi_req = zeroAddReq,
     bi_removeReq = zeroRemoveReq\<rparr>"

definition resumeItems :: "string list \<Rightarrow> batchItem list" where
  "resumeItems operationIDs =
     map resumeItem (filter (\<lambda>op. op \<noteq> []) (map trimSpace operationIDs))"

definition ResumeAddBatch :: "time \<Rightarrow> string \<Rightarrow> string list \<Rightarrow> NodeBatcher \<Rightarrow> bool \<times> NodeBatcher" where
  "ResumeAddBatch now batchID0 operationIDs b =
     (let batchID = trimSpace batchID0; items = resumeItems operationIDs in
      if batchID = [] then (False, b)
      else if items = [] then (False, b)
      else if nb_inProgress b batchID \<noteq> None then (False, b)
      else
        (True,
         b\<lparr>nb_inProgress := (nb_inProgress b)(batchID \<mapsto>
              \<lparr>ipb_batchID = batchID, ipb_kind = opKindAdd, ipb_items = items, ipb_sentAt = now,
               ipb_pollAfter = now, ipb_emptyPolls = 0\<rparr>),
           nb_inFlight := fold (\<lambda>item. insert (bi_operationID item)) items (nb_inFlight b),
           nb_opBatch := fold (\<lambda>item m. m(bi_operationID item := Some batchID)) items (nb_opBatch b)\<rparr>))"

definition clearInFlightLocked :: "batchItem list \<Rightarrow> NodeBatcher \<Rightarrow> NodeBatcher" where
  "clearInFlightLocked items b =
     b\<lparr>nb_inFlight := fold (\<lambda>item A. A - {bi_operationID item}) items (nb_inFlight b),
       nb_opBatch := fold (\<lambda>item m. m(bi_operationID item := None)) items (nb_opBatch b)\<rparr>"

definition pruneSucceededLocked :: "time \<Rightarrow> NodeBatcher \<Rightarrow> NodeBatcher" where
  "pruneSucceededLocked now b =
     b\<lparr>nb_succeeded := (\<lambda>op. case nb_succeeded b op of
         None \<Rightarrow> None
       | Some at \<Rightarrow> if now - at > succeededRetention then None else Some at)\<rparr>"

definition failItems :: "string \<Rightarrow> batchItem list \<Rightarrow> string \<Rightarrow> NodeBatcher \<Rightarrow> handlerCall list" where
  "failItems kind items detail b =
     (case failureHandlerFn b of
        None \<Rightarrow> []
      | Some fn \<Rightarrow> map (\<lambda>item. (fn, bi_operationID item, kind, detail)) items)"

text \<open>
  \<^verbatim>\<open>Cancel\<close>: one broker call in a goroutine of its own; its outcome is only logged.
\<close>

definition Cancel :: "'w batchBroker \<Rightarrow> string \<Rightarrow> 'w \<Rightarrow> 'w" where
  "Cancel client operationID w = snd (bb_CancelOperations client [operationID] w)"

lemmas [nb_defs] = makeChan_def sendChan_def enqueue_check_def enqueue_join_def enqueueItem_def
  Enqueue_def EnqueueRemove_def resolvePending_def failBatchSend_def registerBatch_def
  registerAndAck_def ResumeAddBatch_def clearInFlightLocked_def pruneSucceededLocked_def

end
