(* ===== verification/Batcher_Poll.thy ===== *)
theory Batcher_Poll
  imports Batcher
begin

text \<open>
  The status poller of \<^verbatim>\<open>pkg/rafay/batcher.go\<close>: \<^verbatim>\<open>pollBatch\<close> as its two locked
  sections around the broker call, the loop over the items as it is written (compacting the batch's
  own slice in place), and its equality with the filter the loop computes.
\<close>

section \<open>The first section: initial delay and maximum age\<close>

datatype pollStart = PollSkip | PollExpired string "batchItem list" | PollQuery

definition pollBatch_begin :: "time \<Rightarrow> string \<Rightarrow> NodeBatcher \<Rightarrow> pollStart \<times> NodeBatcher" where
  "pollBatch_begin now batchID b =
     (case nb_inProgress b batchID of
        None \<Rightarrow> (PollSkip, b)
      | Some bp \<Rightarrow>
          if now < ipb_pollAfter bp then (PollSkip, b)
          else if now - ipb_sentAt bp > maxBatchAge
          then (PollExpired (ipb_kind bp) (ipb_items bp),
                clearInFlightLocked (ipb_items bp)
                  (b\<lparr>nb_inProgress := (nb_inProgress b)(batchID := None)\<rparr>))
          else (PollQuery, b))"

section \<open>The loop over the items\<close>

text \<open>\<^verbatim>\<open>resultMap\<close>: a later result for the same operation replaces an earlier one.\<close>

definition resultMap :: "nodeResult list \<Rightarrow> string \<rightharpoonup> nodeResult" where
  "resultMap results = fold (\<lambda>r m. m(nr_OperationId r \<mapsto> r)) results Map.empty"

text \<open>
  The loop's state: the backing array of \<^verbatim>\<open>bp.items\<close> that \<^verbatim>\<open>remaining := bp.items[:0]\<close>
  shares, how many of its cells \<^verbatim>\<open>remaining\<close> has, and the variables the body assigns.
\<close>

record pollLoop =
  pl_arr :: "batchItem list"
  pl_len :: nat
  pl_allDone :: bool
  pl_failed :: "(string \<times> string) list"
  pl_succeeded :: "string \<rightharpoonup> time"
  pl_inFlight :: "string set"

text \<open>One iteration: the item is read from the array as it is now, at index \<open>i\<close>.\<close>

definition pollItem :: "(string \<rightharpoonup> nodeResult) \<Rightarrow> time \<Rightarrow> nat \<Rightarrow> pollLoop \<Rightarrow> pollLoop" where
  "pollItem rm now i st =
     (let item = pl_arr st ! i;
          keep = st\<lparr>pl_allDone := False, pl_arr := (pl_arr st)[pl_len st := item],
                    pl_len := Suc (pl_len st)\<rparr>
      in case rm (bi_operationID item) of
           None \<Rightarrow> keep
         | Some nr \<Rightarrow>
             (case nr_State nr of
                Succeeded_state \<Rightarrow>
                  st\<lparr>pl_succeeded := (pl_succeeded st)(bi_operationID item \<mapsto> now),
                     pl_inFlight := pl_inFlight st - {bi_operationID item}\<rparr>
              | Failed_state \<Rightarrow>
                  st\<lparr>pl_failed := pl_failed st @ [(bi_operationID item, nr_Detail nr)],
                     pl_inFlight := pl_inFlight st - {bi_operationID item}\<rparr>
              | _ \<Rightarrow> keep))"

definition pollItems ::
  "(string \<rightharpoonup> nodeResult) \<Rightarrow> time \<Rightarrow> batchItem list \<Rightarrow> NodeBatcher \<Rightarrow> pollLoop" where
  "pollItems rm now items b =
     fold (pollItem rm now) [0..<length items]
       \<lparr>pl_arr = items, pl_len = 0, pl_allDone = True, pl_failed = [],
        pl_succeeded = nb_succeeded b, pl_inFlight = nb_inFlight b\<rparr>"

section \<open>The second section: applying the broker's answer\<close>

text \<open>
  The result is the calls of the failure handler, made after the lock is released.
\<close>

definition pollBatch_apply ::
  "time \<Rightarrow> string \<Rightarrow> nodeResult list \<Rightarrow> NodeBatcher \<Rightarrow> handlerCall list \<times> NodeBatcher" where
  "pollBatch_apply now batchID results b =
     (case nb_inProgress b batchID of
        None \<Rightarrow> ([], b)
      | Some bp \<Rightarrow>
          if results = []
          then
            (if maxConsecutiveEmptyPolls \<le> Suc (ipb_emptyPolls bp)
             then
               (let b1 = clearInFlightLocked (ipb_items bp)
                           (b\<lparr>nb_inProgress := (nb_inProgress b)(batchID := None)\<rparr>)
                in (failItems (ipb_kind bp) (ipb_items bp) expiredBatchDetail b1, b1))
             else
               ([], b\<lparr>nb_inProgress := (nb_inProgress b)(batchID \<mapsto>
                       bp\<lparr>ipb_emptyPolls := Suc (ipb_emptyPolls bp)\<rparr>)\<rparr>))
          else
            (let st = pollItems (resultMap results) now (ipb_items bp) b;
                 remaining = take (pl_len st) (pl_arr st);
                 b1 = pruneSucceededLocked now
                        (b\<lparr>nb_succeeded := pl_succeeded st, nb_inFlight := pl_inFlight st\<rparr>);
                 b2 = (if pl_allDone st \<or> remaining = []
                       then b1\<lparr>nb_inProgress := (nb_inProgress b1)(batchID := None)\<rparr>
                       else b1\<lparr>nb_inProgress := (nb_inProgress b1)(batchID \<mapsto>
                              bp\<lparr>ipb_emptyPolls := 0, ipb_items := remaining\<rparr>)\<rparr>)
             in (case failureHandlerFn b2 of
                   None \<Rightarrow> []
                 | Some fn \<Rightarrow> map (\<lambda>(op, detail). (fn, op, ipb_kind bp, detail)) (pl_failed st),
                 b2)))"

text \<open>\<^verbatim>\<open>pollBatch\<close> run without interleaving, \<^verbatim>\<open>pollAll\<close> over the batch IDs it
  listed, and \<^verbatim>\<open>statusPoller\<close> over the ticks until the context ends. A poll comes with the two
  clock values it reads; the order of the IDs is that of a walk over a Go map.\<close>

definition pollBatch ::
  "'w batchBroker \<Rightarrow> time \<Rightarrow> time \<Rightarrow> string \<Rightarrow> 'w \<times> NodeBatcher \<Rightarrow> handlerCall list \<times> 'w \<times> NodeBatcher" where
  "pollBatch client now now' batchID = (\<lambda>(w, b).
     case pollBatch_begin now batchID b of
       (PollSkip, b1) \<Rightarrow> ([], w, b1)
     | (PollExpired kind items, b1) \<Rightarrow> (failItems kind items expiredBatchDetail b1, w, b1)
     | (PollQuery, b1) \<Rightarrow>
         (case bb_PollBatchStatus client batchID w of
            (Inl e, w') \<Rightarrow> ([], w', b1)
          | (Inr results, w') \<Rightarrow>
              (case pollBatch_apply now' batchID results b1 of (calls, b2) \<Rightarrow> (calls, w', b2))))"

type_synonym poll = "string \<times> time \<times> time"

fun pollAll ::
  "'w batchBroker \<Rightarrow> poll list \<Rightarrow> 'w \<times> NodeBatcher \<Rightarrow> handlerCall list \<times> 'w \<times> NodeBatcher" where
  "pollAll client [] (w, b) = ([], w, b)"
| "pollAll client ((batchID, now, now') # polls) (w, b) =
     (case pollBatch client now now' batchID (w, b) of
        (calls, w1, b1) \<Rightarrow>
          (case pollAll client polls (w1, b1) of (calls', w2, b2) \<Rightarrow> (calls @ calls', w2, b2)))"

fun statusPoller ::
  "'w batchBroker \<Rightarrow> poll list list \<Rightarrow> 'w \<times> NodeBatcher \<Rightarrow> handlerCall list \<times> 'w \<times> NodeBatcher" where
  "statusPoller client [] (w, b) = ([], w, b)"
| "statusPoller client (tick # ticks) (w, b) =
     (case pollAll client tick (w, b) of
        (calls, w1, b1) \<Rightarrow>
          (case statusPoller client ticks (w1, b1) of (calls', w2, b2) \<Rightarrow> (calls @ calls', w2, b2)))"

section \<open>What the loop computes\<close>

text \<open>
  An operation is terminal in a broker answer when the answer reports it succeeded or failed; the
  loop keeps the other items, in order.
\<close>

definition reported :: "opState \<Rightarrow> (string \<rightharpoonup> nodeResult) \<Rightarrow> batchItem \<Rightarrow> bool" where
  "reported s rm item \<longleftrightarrow> map_option nr_State (rm (bi_operationID item)) = Some s"

definition unresolved :: "(string \<rightharpoonup> nodeResult) \<Rightarrow> batchItem \<Rightarrow> bool" where
  "unresolved rm item \<longleftrightarrow> \<not> reported Succeeded_state rm item \<and> \<not> reported Failed_state rm item"

definition failureOf :: "(string \<rightharpoonup> nodeResult) \<Rightarrow> batchItem \<Rightarrow> string \<times> string" where
  "failureOf rm item = (bi_operationID item, nr_Detail (the (rm (bi_operationID item))))"

definition pollLoopSpec ::
  "(string \<rightharpoonup> nodeResult) \<Rightarrow> time \<Rightarrow> batchItem list \<Rightarrow> NodeBatcher \<Rightarrow> pollLoop \<Rightarrow> bool" where
  "pollLoopSpec rm now items b st \<longleftrightarrow>
     take (pl_len st) (pl_arr st) = filter (unresolved rm) items \<and>
     pl_len st = length (filter (unresolved rm) items) \<and>
     (pl_allDone st \<longleftrightarrow> filter (unresolved rm) items = []) \<and>
     pl_failed st = map (failureOf rm) (filter (reported Failed_state rm) items) \<and>
     pl_succeeded st = (\<lambda>op. if op \<in> bi_operationID ` set (filter (reported Succeeded_state rm) items)
       then Some now else nb_succeeded b op) \<and>
     pl_inFlight st = nb_inFlight b - bi_operationID ` set (filter (\<lambda>x. \<not> unresolved rm x) items)"

lemma take_update_snoc:
  "w < length a \<Longrightarrow> take (Suc w) (a[w := x]) = take w a @ [x]"
  by (simp add: take_Suc_conv_app_nth)

lemma nth_update_later: "w \<le> k \<Longrightarrow> k < j \<Longrightarrow> (a[w := x]) ! j = a ! j"
  by simp

text \<open>
  The invariant of the loop after \<open>k\<close> iterations: the cells from \<open>k\<close> on are untouched, because
  \<^verbatim>\<open>remaining\<close> never has more than \<open>k\<close> cells.
\<close>

definition loopInv ::
  "(string \<rightharpoonup> nodeResult) \<Rightarrow> time \<Rightarrow> batchItem list \<Rightarrow> NodeBatcher \<Rightarrow> nat \<Rightarrow> pollLoop \<Rightarrow> bool" where
  "loopInv rm now items b k st \<longleftrightarrow>
     pollLoopSpec rm now (take k items) b st \<and> length (pl_arr st) = length items \<and>
     pl_len st \<le> k \<and> (\<forall>j. k \<le> j \<and> j < length items \<longrightarrow> pl_arr st ! j = items ! j)"

lemma loopInv_step:
  assumes inv: "loopInv rm now items b k st" and k: "k < length items"
  shows "loopInv rm now items b (Suc k) (pollItem rm now k st)"
proof -
  from inv k have item: "pl_arr st ! k = items ! k" by (simp add: loopInv_def)
  from k have tk: "take (Suc k) items = take k items @ [items ! k]"
    by (rule take_Suc_conv_app_nth)
  from inv k have len: "pl_len st < length (pl_arr st)" by (simp add: loopInv_def)
  let ?it = "items ! k"
  consider (keep) "unresolved rm ?it" | (succ) "reported Succeeded_state rm ?it"
    | (fail) "reported Failed_state rm ?it"
    by (auto simp: unresolved_def)
  then show ?thesis
  proof cases
    case keep
    then have "pollItem rm now k st = st\<lparr>pl_allDone := False,
        pl_arr := (pl_arr st)[pl_len st := ?it], pl_len := Suc (pl_len st)\<rparr>"
      by (auto simp: pollItem_def item unresolved_def reported_def Let_def
          split: option.splits opState.splits)
    moreover from keep have "\<not> reported Succeeded_state rm ?it" "\<not> reported Failed_state rm ?it"
      by (simp_all add: unresolved_def)
    ultimately show ?thesis using inv len keep
      by (auto simp: loopInv_def pollLoopSpec_def tk take_update_snoc)
  next
    case succ
    then have "pollItem rm now k st = st\<lparr>pl_succeeded := (pl_succeeded st)(bi_operationID ?it \<mapsto> now),
        pl_inFlight := pl_inFlight st - {bi_operationID ?it}\<rparr>"
      by (auto simp: pollItem_def item reported_def Let_def split: option.splits opState.splits)
    moreover from succ have "\<not> unresolved rm ?it" "\<not> reported Failed_state rm ?it"
      by (auto simp: unresolved_def reported_def)
    ultimately show ?thesis using inv succ
      by (auto simp: loopInv_def pollLoopSpec_def tk fun_eq_iff)
  next
    case fail
    then have "pollItem rm now k st = st\<lparr>pl_failed := pl_failed st @ [failureOf rm ?it],
        pl_inFlight := pl_inFlight st - {bi_operationID ?it}\<rparr>"
      by (auto simp: pollItem_def item reported_def failureOf_def Let_def
          split: option.splits opState.splits)
    moreover from fail have "\<not> unresolved rm ?it" "\<not> reported Succeeded_state rm ?it"
      by (auto simp: unresolved_def reported_def)
    ultimately show ?thesis using inv fail
      by (auto simp: loopInv_def pollLoopSpec_def tk fun_eq_iff)
  qed
qed

lemma loopInv_fold:
  "k \<le> length items \<Longrightarrow>
   loopInv rm now items b k (fold (pollItem rm now) [0..<k]
     \<lparr>pl_arr = items, pl_len = 0, pl_allDone = True, pl_failed = [],
      pl_succeeded = nb_succeeded b, pl_inFlight = nb_inFlight b\<rparr>)"
proof (induction k)
  case 0
  show ?case by (simp add: loopInv_def pollLoopSpec_def)
next
  case (Suc k)
  then show ?case using loopInv_step [of rm now items b k] by simp
qed

lemma pollItems_spec: "pollLoopSpec rm now items b (pollItems rm now items b)"
  using loopInv_fold [of "length items" items] by (simp add: loopInv_def pollItems_def)

lemmas pollItems_sel =
  pollItems_spec [unfolded pollLoopSpec_def, THEN conjunct1]
  pollItems_spec [unfolded pollLoopSpec_def, THEN conjunct2, THEN conjunct2, THEN conjunct1]
  pollItems_spec [unfolded pollLoopSpec_def, THEN conjunct2, THEN conjunct2, THEN conjunct2,
    THEN conjunct1]
  pollItems_spec [unfolded pollLoopSpec_def, THEN conjunct2, THEN conjunct2, THEN conjunct2,
    THEN conjunct2, THEN conjunct1]
  pollItems_spec [unfolded pollLoopSpec_def, THEN conjunct2, THEN conjunct2, THEN conjunct2,
    THEN conjunct2, THEN conjunct2]

end
