(* ===== verification/Batcher_Facts.thy ===== *)
theory Batcher_Facts
  imports Batcher_Poll
begin

text \<open>
  What each operation of the batcher changes and leaves alone, as simplification rules on the
  state's fields. The invariants of \<open>Batcher_System\<close> and the controllers' proofs rest on them.
\<close>

section \<open>Channels and waiters\<close>

definition waiters :: "NodeBatcher \<Rightarrow> string \<Rightarrow> chan list" where
  "waiters b op = (case nb_pending b op of None \<Rightarrow> [] | Some ws \<Rightarrow> ws)"

lemma waiters_simps [simp]:
  "nb_pending b op = None \<Longrightarrow> waiters b op = []"
  "nb_pending b op = Some ws \<Longrightarrow> waiters b op = ws"
  by (simp_all add: waiters_def)

lemma sendChan_sel [simp]:
  "nb_chans (sendChan r c b) = (nb_chans b)(c := nb_chans b c @ [r])"
  "nb_queue (sendChan r c b) = nb_queue b" "nb_pending (sendChan r c b) = nb_pending b"
  "nb_inFlight (sendChan r c b) = nb_inFlight b" "nb_opBatch (sendChan r c b) = nb_opBatch b"
  "nb_inProgress (sendChan r c b) = nb_inProgress b"
  "nb_succeeded (sendChan r c b) = nb_succeeded b" "nb_nextChan (sendChan r c b) = nb_nextChan b"
  "nb_failureHandler (sendChan r c b) = nb_failureHandler b"
  "nb_maxBatchSize (sendChan r c b) = nb_maxBatchSize b"
  "nb_initialDelay (sendChan r c b) = nb_initialDelay b"
  by (simp_all add: sendChan_def)

lemma makeChan_sel [simp]:
  "fst (makeChan b) = nb_nextChan b" "nb_nextChan (snd (makeChan b)) = Suc (nb_nextChan b)"
  "nb_chans (snd (makeChan b)) = nb_chans b" "nb_queue (snd (makeChan b)) = nb_queue b"
  "nb_pending (snd (makeChan b)) = nb_pending b" "nb_inFlight (snd (makeChan b)) = nb_inFlight b"
  "nb_opBatch (snd (makeChan b)) = nb_opBatch b"
  "nb_inProgress (snd (makeChan b)) = nb_inProgress b"
  "nb_succeeded (snd (makeChan b)) = nb_succeeded b"
  "nb_failureHandler (snd (makeChan b)) = nb_failureHandler b"
  "nb_maxBatchSize (snd (makeChan b)) = nb_maxBatchSize b"
  by (simp_all add: makeChan_def)

lemma fold_sendChan_chans:
  "distinct cs \<Longrightarrow> nb_chans (fold (sendChan r) cs b) c =
     (if c \<in> set cs then nb_chans b c @ [r] else nb_chans b c)"
  by (induction cs arbitrary: b) auto

lemma fold_sendChan_frame [simp]:
  "nb_queue (fold (sendChan r) cs b) = nb_queue b"
  "nb_pending (fold (sendChan r) cs b) = nb_pending b"
  "nb_inFlight (fold (sendChan r) cs b) = nb_inFlight b"
  "nb_opBatch (fold (sendChan r) cs b) = nb_opBatch b"
  "nb_inProgress (fold (sendChan r) cs b) = nb_inProgress b"
  "nb_succeeded (fold (sendChan r) cs b) = nb_succeeded b"
  "nb_nextChan (fold (sendChan r) cs b) = nb_nextChan b"
  "nb_failureHandler (fold (sendChan r) cs b) = nb_failureHandler b"
  "nb_maxBatchSize (fold (sendChan r) cs b) = nb_maxBatchSize b"
  by (induction cs arbitrary: b; simp)+

lemma resolvePending_sel [simp]:
  "nb_pending (resolvePending op r b) = (nb_pending b)(op := None)"
  "nb_queue (resolvePending op r b) = nb_queue b"
  "nb_inFlight (resolvePending op r b) = nb_inFlight b"
  "nb_opBatch (resolvePending op r b) = nb_opBatch b"
  "nb_inProgress (resolvePending op r b) = nb_inProgress b"
  "nb_succeeded (resolvePending op r b) = nb_succeeded b"
  "nb_nextChan (resolvePending op r b) = nb_nextChan b"
  "nb_failureHandler (resolvePending op r b) = nb_failureHandler b"
  "nb_maxBatchSize (resolvePending op r b) = nb_maxBatchSize b"
  by (simp_all add: resolvePending_def Let_def)

lemma resolvePending_chans:
  "distinct (waiters b op) \<Longrightarrow> nb_chans (resolvePending op r b) c =
     (if c \<in> set (waiters b op) then nb_chans b c @ [r] else nb_chans b c)"
  by (simp add: resolvePending_def Let_def waiters_def fold_sendChan_chans)

lemma fold_resolve_frame [simp]:
  "nb_queue (fold (\<lambda>i. resolvePending (g i) r) xs b) = nb_queue b"
  "nb_inFlight (fold (\<lambda>i. resolvePending (g i) r) xs b) = nb_inFlight b"
  "nb_opBatch (fold (\<lambda>i. resolvePending (g i) r) xs b) = nb_opBatch b"
  "nb_inProgress (fold (\<lambda>i. resolvePending (g i) r) xs b) = nb_inProgress b"
  "nb_succeeded (fold (\<lambda>i. resolvePending (g i) r) xs b) = nb_succeeded b"
  "nb_nextChan (fold (\<lambda>i. resolvePending (g i) r) xs b) = nb_nextChan b"
  "nb_failureHandler (fold (\<lambda>i. resolvePending (g i) r) xs b) = nb_failureHandler b"
  by (induction xs arbitrary: b; simp)+

lemma fold_resolve_pending:
  "nb_pending (fold (\<lambda>i. resolvePending (g i) r) xs b) op =
     (if op \<in> g ` set xs then None else nb_pending b op)"
  by (induction xs arbitrary: b) auto

text \<open>What is on a channel stays there, and every waiter gets the result.\<close>

lemma fold_sendChan_keeps:
  "x \<in> set (nb_chans b ch) \<Longrightarrow> x \<in> set (nb_chans (fold (sendChan r) cs b) ch)"
proof (induction cs arbitrary: b)
  case Nil
  then show ?case by simp
next
  case (Cons c cs)
  from Cons.prems have "x \<in> set (nb_chans (sendChan r c b) ch)" by auto
  from Cons.IH [OF this] show ?case by simp
qed

lemma fold_sendChan_sends:
  "ch \<in> set cs \<Longrightarrow> r \<in> set (nb_chans (fold (sendChan r) cs b) ch)"
proof (induction cs arbitrary: b)
  case Nil
  then show ?case by simp
next
  case (Cons c cs)
  then show ?case using fold_sendChan_keeps [of r "sendChan r c b" ch] by (cases "ch = c") auto
qed

lemma fold_resolve_keeps:
  "x \<in> set (nb_chans b ch) \<Longrightarrow> x \<in> set (nb_chans (fold (\<lambda>i. resolvePending (g i) r) xs b) ch)"
proof (induction xs arbitrary: b)
  case Nil
  then show ?case by simp
next
  case (Cons y xs)
  from Cons.prems have "x \<in> set (nb_chans (resolvePending (g y) r b) ch)"
    by (simp add: resolvePending_def Let_def fold_sendChan_keeps)
  from Cons.IH [OF this] show ?case by simp
qed

lemma fold_resolve_sends:
  "i \<in> set xs \<Longrightarrow> ch \<in> set (waiters b (g i)) \<Longrightarrow>
   r \<in> set (nb_chans (fold (\<lambda>i. resolvePending (g i) r) xs b) ch)"
proof (induction xs arbitrary: b)
  case Nil
  then show ?case by simp
next
  case (Cons x xs)
  show ?case
  proof (cases "g x = g i")
    case True
    with Cons.prems have "r \<in> set (nb_chans (resolvePending (g x) r b) ch)"
      by (simp add: resolvePending_def Let_def waiters_def fold_sendChan_sends)
    then show ?thesis by (simp add: fold_resolve_keeps)
  next
    case False
    with Cons.prems have "i \<in> set xs" "ch \<in> set (waiters (resolvePending (g x) r b) (g i))"
      by (auto simp: waiters_def)
    from Cons.IH [OF this] show ?thesis by simp
  qed
qed

section \<open>Enqueueing\<close>

lemma enqueue_join_frame [simp]:
  "nb_inFlight (enqueue_join ch item b) = nb_inFlight b"
  "nb_opBatch (enqueue_join ch item b) = nb_opBatch b"
  "nb_inProgress (enqueue_join ch item b) = nb_inProgress b"
  "nb_succeeded (enqueue_join ch item b) = nb_succeeded b"
  "nb_nextChan (enqueue_join ch item b) = nb_nextChan b"
  "nb_failureHandler (enqueue_join ch item b) = nb_failureHandler b"
  "nb_maxBatchSize (enqueue_join ch item b) = nb_maxBatchSize b"
  by (simp_all add: enqueue_join_def Let_def split: option.splits)

text \<open>The three outcomes of the section under \<^verbatim>\<open>pendingMu\<close>.\<close>

lemma enqueue_join_dedup:
  "nb_pending b (bi_operationID item) = Some ws \<Longrightarrow>
   enqueue_join ch item b = b\<lparr>nb_pending := (nb_pending b)(bi_operationID item \<mapsto> ws @ [ch])\<rparr>"
  by (simp add: enqueue_join_def)

lemma enqueue_join_queued:
  "nb_pending b (bi_operationID item) = None \<Longrightarrow> length (nb_queue b) < batchItemQueueBuffer \<Longrightarrow>
   enqueue_join ch item b = b\<lparr>nb_pending := (nb_pending b)(bi_operationID item \<mapsto> [ch]),
     nb_queue := nb_queue b @ [item]\<rparr>"
  by (simp add: enqueue_join_def)

definition queueFull :: BatchResult where
  "queueFull = errResult (Errorf ''batcher queue full (capacity %d)'' [''256''])"

lemma queueFull_err [simp]: "br_Err queueFull \<noteq> None"
  by (simp add: queueFull_def)

lemma enqueue_join_full:
  "nb_pending b (bi_operationID item) = None \<Longrightarrow> \<not> length (nb_queue b) < batchItemQueueBuffer \<Longrightarrow>
   enqueue_join ch item b = sendChan queueFull ch b"
  by (simp add: enqueue_join_def sendChan_def queueFull_def fun_upd_idem)

lemma enqueueItem_inFlight:
  "bi_operationID item \<in> nb_inFlight b \<Longrightarrow> enqueueItem item b = (nb_nextChan b,
     sendChan (ackResult (case nb_opBatch b (bi_operationID item) of None \<Rightarrow> [] | Some bid \<Rightarrow> bid))
       (nb_nextChan b) (snd (makeChan b)))"
  by (simp add: enqueueItem_def makeChan_def enqueue_check_def Let_def)

lemma enqueueItem_not_inFlight:
  "bi_operationID item \<notin> nb_inFlight b \<Longrightarrow>
   enqueueItem item b = (nb_nextChan b, enqueue_join (nb_nextChan b) item (snd (makeChan b)))"
  by (simp add: enqueueItem_def makeChan_def enqueue_check_def Let_def)

section \<open>Batches\<close>

lemma partitionBatch_eq:
  "partitionBatch batch =
     (filter (\<lambda>i. bi_kind i \<noteq> opKindRemove) batch, filter (\<lambda>i. bi_kind i = opKindRemove) batch)"
proof -
  have "fold (\<lambda>item (adds, removes). if bi_kind item = opKindRemove then (adds, removes @ [item])
        else (adds @ [item], removes)) batch (a, r) =
     (a @ filter (\<lambda>i. bi_kind i \<noteq> opKindRemove) batch,
      r @ filter (\<lambda>i. bi_kind i = opKindRemove) batch)" for a r
    by (induction batch arbitrary: a r) auto
  then show ?thesis by (simp add: partitionBatch_def)
qed

lemma registerBatch_sel [simp]:
  "nb_pending (registerBatch now kind bid items b) = nb_pending b"
  "nb_queue (registerBatch now kind bid items b) = nb_queue b"
  "nb_chans (registerBatch now kind bid items b) = nb_chans b"
  "nb_nextChan (registerBatch now kind bid items b) = nb_nextChan b"
  "nb_succeeded (registerBatch now kind bid items b) = nb_succeeded b"
  "nb_failureHandler (registerBatch now kind bid items b) = nb_failureHandler b"
  "nb_maxBatchSize (registerBatch now kind bid items b) = nb_maxBatchSize b"
  "nb_inFlight (registerBatch now kind bid items b) = bi_operationID ` set items \<union> nb_inFlight b"
  "nb_opBatch (registerBatch now kind bid items b) =
     (\<lambda>op. if op \<in> bi_operationID ` set items then Some bid else nb_opBatch b op)"
  "nb_inProgress (registerBatch now kind bid items b) = (nb_inProgress b)(bid \<mapsto>
     \<lparr>ipb_batchID = bid, ipb_kind = kind, ipb_items = items, ipb_sentAt = now,
      ipb_pollAfter = now + nb_initialDelay b, ipb_emptyPolls = 0\<rparr>)"
  by (simp_all add: registerBatch_def fold_insert_eq fold_upd_eq fun_eq_iff)

lemma clearInFlight_sel [simp]:
  "nb_pending (clearInFlightLocked items b) = nb_pending b"
  "nb_queue (clearInFlightLocked items b) = nb_queue b"
  "nb_chans (clearInFlightLocked items b) = nb_chans b"
  "nb_nextChan (clearInFlightLocked items b) = nb_nextChan b"
  "nb_succeeded (clearInFlightLocked items b) = nb_succeeded b"
  "nb_inProgress (clearInFlightLocked items b) = nb_inProgress b"
  "nb_failureHandler (clearInFlightLocked items b) = nb_failureHandler b"
  "nb_maxBatchSize (clearInFlightLocked items b) = nb_maxBatchSize b"
  "nb_inFlight (clearInFlightLocked items b) = nb_inFlight b - bi_operationID ` set items"
  "nb_opBatch (clearInFlightLocked items b) =
     (\<lambda>op. if op \<in> bi_operationID ` set items then None else nb_opBatch b op)"
  by (simp_all add: clearInFlightLocked_def fold_delete_eq fold_upd_eq fun_eq_iff)

lemma pruneSucceeded_sel [simp]:
  "nb_pending (pruneSucceededLocked now b) = nb_pending b"
  "nb_queue (pruneSucceededLocked now b) = nb_queue b"
  "nb_chans (pruneSucceededLocked now b) = nb_chans b"
  "nb_nextChan (pruneSucceededLocked now b) = nb_nextChan b"
  "nb_inProgress (pruneSucceededLocked now b) = nb_inProgress b"
  "nb_inFlight (pruneSucceededLocked now b) = nb_inFlight b"
  "nb_opBatch (pruneSucceededLocked now b) = nb_opBatch b"
  "nb_failureHandler (pruneSucceededLocked now b) = nb_failureHandler b"
  "nb_maxBatchSize (pruneSucceededLocked now b) = nb_maxBatchSize b"
  by (simp_all add: pruneSucceededLocked_def)

lemma pruneSucceeded_dom: "dom (nb_succeeded (pruneSucceededLocked now b)) \<subseteq> dom (nb_succeeded b)"
  by (auto simp: pruneSucceededLocked_def split: option.splits if_splits)

lemma pruneSucceeded_Some:
  "nb_succeeded (pruneSucceededLocked now b) op = Some at \<longleftrightarrow>
     nb_succeeded b op = Some at \<and> now - at \<le> succeededRetention"
  by (auto simp: pruneSucceededLocked_def split: option.splits)

lemma resumeItems_ops: "bi_operationID ` set (resumeItems ops) = trimSpace ` set ops - {[]}"
proof -
  have "bi_operationID ` set (resumeItems ops) = set (map (bi_operationID \<circ> resumeItem)
      (filter (\<lambda>op. op \<noteq> []) (map trimSpace ops)))"
    by (simp add: resumeItems_def image_image)
  also have "\<dots> = set (filter (\<lambda>op. op \<noteq> []) (map trimSpace ops))"
    by (simp add: resumeItem_def comp_def)
  finally show ?thesis by auto
qed

lemma resumeItems_kind: "i \<in> set (resumeItems ops) \<Longrightarrow> bi_kind i = opKindAdd"
  by (auto simp: resumeItems_def resumeItem_def)

lemma ResumeAddBatch_True:
  assumes "ResumeAddBatch now bid ops b = (True, b')"
  shows "b' = (registerBatch now opKindAdd (trimSpace bid) (resumeItems ops) b)
      \<lparr>nb_inProgress := (nb_inProgress b)(trimSpace bid \<mapsto>
         \<lparr>ipb_batchID = trimSpace bid, ipb_kind = opKindAdd, ipb_items = resumeItems ops,
          ipb_sentAt = now, ipb_pollAfter = now, ipb_emptyPolls = 0\<rparr>)\<rparr>"
    and "trimSpace bid \<noteq> []" and "resumeItems ops \<noteq> []" and "nb_inProgress b (trimSpace bid) = None"
  using assms by (auto simp: ResumeAddBatch_def registerBatch_def Let_def split: if_splits)

lemma ResumeAddBatch_False: "ResumeAddBatch now bid ops b = (False, b') \<Longrightarrow> b' = b"
  by (auto simp: ResumeAddBatch_def Let_def split: if_splits)

lemma failItems_in:
  "(fn, op, kind', detail') \<in> set (failItems kind items detail b) \<Longrightarrow>
   op \<in> bi_operationID ` set items \<and> kind' = kind \<and> detail' = detail"
  by (auto simp: failItems_def split: option.splits)

section \<open>Polling\<close>

text \<open>The items of a batch that stay, and what the second section makes of a non-empty answer.\<close>

lemma pollBatch_begin_cases:
  assumes "pollBatch_begin now bid b = (r, b')"
  obtains (skip) "r = PollSkip" "b' = b" | (query) "r = PollQuery" "b' = b"
  | (expired) bp where "nb_inProgress b bid = Some bp" "r = PollExpired (ipb_kind bp) (ipb_items bp)"
      "now - ipb_sentAt bp > maxBatchAge"
      "b' = clearInFlightLocked (ipb_items bp) (b\<lparr>nb_inProgress := (nb_inProgress b)(bid := None)\<rparr>)"
  using assms by (auto simp: pollBatch_begin_def split: option.splits if_splits)

definition stays :: "nodeResult list \<Rightarrow> inProgressBatch \<Rightarrow> batchItem list" where
  "stays results bp = filter (unresolved (resultMap results)) (ipb_items bp)"

definition leaves :: "nodeResult list \<Rightarrow> inProgressBatch \<Rightarrow> batchItem list" where
  "leaves results bp = filter (\<lambda>x. \<not> unresolved (resultMap results) x) (ipb_items bp)"

definition failuresOf :: "nodeResult list \<Rightarrow> inProgressBatch \<Rightarrow> batchItem list" where
  "failuresOf results bp = filter (reported Failed_state (resultMap results)) (ipb_items bp)"

definition successesOf :: "nodeResult list \<Rightarrow> inProgressBatch \<Rightarrow> batchItem list" where
  "successesOf results bp = filter (reported Succeeded_state (resultMap results)) (ipb_items bp)"

lemma pollBatch_apply_answer:
  assumes bp: "nb_inProgress b bid = Some bp" and ne: "results \<noteq> []"
    and ap: "pollBatch_apply now bid results b = (calls, b')"
  shows "nb_inProgress b' = (nb_inProgress b)(bid :=
      (if stays results bp = [] then None
       else Some (bp\<lparr>ipb_emptyPolls := 0, ipb_items := stays results bp\<rparr>)))"
    and "nb_inFlight b' = nb_inFlight b - bi_operationID ` set (leaves results bp)"
    and "nb_succeeded b' = (\<lambda>op. if op \<in> bi_operationID ` set (successesOf results bp) then Some now
      else (case nb_succeeded b op of None \<Rightarrow> None
            | Some at \<Rightarrow> if now - at > succeededRetention then None else Some at))"
    and "calls = (case nb_failureHandler b of None \<Rightarrow> []
      | Some fn \<Rightarrow> map (\<lambda>i. (fn, bi_operationID i, ipb_kind bp,
          nr_Detail (the (resultMap results (bi_operationID i))))) (failuresOf results bp))"
    and "nb_pending b' = nb_pending b" and "nb_queue b' = nb_queue b" and "nb_chans b' = nb_chans b"
    and "nb_opBatch b' = nb_opBatch b" and "nb_nextChan b' = nb_nextChan b"
    and "nb_maxBatchSize b' = nb_maxBatchSize b" and "nb_failureHandler b' = nb_failureHandler b"
proof -
  let ?st = "pollItems (resultMap results) now (ipb_items bp) b"
  note sel = pollItems_sel [of "resultMap results" now "ipb_items bp" b]
  have ret: "0 \<le> succeededRetention" by (simp add: succeededRetention_def second_def)
  from bp ne ap sel show "nb_inProgress b' = (nb_inProgress b)(bid :=
      (if stays results bp = [] then None
       else Some (bp\<lparr>ipb_emptyPolls := 0, ipb_items := stays results bp\<rparr>)))"
    by (auto simp: pollBatch_apply_def Let_def stays_def)
  from bp ne ap sel show "nb_inFlight b' = nb_inFlight b - bi_operationID ` set (leaves results bp)"
    by (auto simp: pollBatch_apply_def Let_def leaves_def split: if_splits)
  from bp ne ap sel ret show "nb_succeeded b' = (\<lambda>op. if op \<in> bi_operationID ` set (successesOf results bp) then Some now
      else (case nb_succeeded b op of None \<Rightarrow> None
            | Some at \<Rightarrow> if now - at > succeededRetention then None else Some at))"
    by (auto simp: pollBatch_apply_def Let_def successesOf_def pruneSucceededLocked_def fun_eq_iff)
  from bp ne ap sel show "calls = (case nb_failureHandler b of None \<Rightarrow> []
      | Some fn \<Rightarrow> map (\<lambda>i. (fn, bi_operationID i, ipb_kind bp,
          nr_Detail (the (resultMap results (bi_operationID i))))) (failuresOf results bp))"
    by (auto simp: pollBatch_apply_def Let_def failuresOf_def failureOf_def failureHandlerFn_def
        split: if_splits option.splits)
  from bp ne ap show "nb_pending b' = nb_pending b" "nb_queue b' = nb_queue b"
    "nb_chans b' = nb_chans b" "nb_opBatch b' = nb_opBatch b" "nb_nextChan b' = nb_nextChan b"
    "nb_maxBatchSize b' = nb_maxBatchSize b" "nb_failureHandler b' = nb_failureHandler b"
    by (auto simp: pollBatch_apply_def Let_def)
qed

lemma pollBatch_apply_cases:
  assumes "pollBatch_apply now bid results b = (calls, b')"
  obtains (gone) "nb_inProgress b bid = None" "calls = []" "b' = b"
  | (empty_wait) bp where "nb_inProgress b bid = Some bp" "results = []" "calls = []"
      "b' = b\<lparr>nb_inProgress := (nb_inProgress b)(bid \<mapsto> bp\<lparr>ipb_emptyPolls := Suc (ipb_emptyPolls bp)\<rparr>)\<rparr>"
      "Suc (ipb_emptyPolls bp) < maxConsecutiveEmptyPolls"
  | (empty_drop) bp where "nb_inProgress b bid = Some bp" "results = []"
      "b' = clearInFlightLocked (ipb_items bp) (b\<lparr>nb_inProgress := (nb_inProgress b)(bid := None)\<rparr>)"
      "calls = failItems (ipb_kind bp) (ipb_items bp) expiredBatchDetail b'"
      "maxConsecutiveEmptyPolls \<le> Suc (ipb_emptyPolls bp)"
  | (answer) bp where "nb_inProgress b bid = Some bp" "results \<noteq> []"
proof (cases "nb_inProgress b bid")
  case None
  from assms have "calls = []" and "b' = b" by (simp_all add: pollBatch_apply_def None)
  with gone [OF None] show ?thesis by blast
next
  case (Some bp)
  show ?thesis
  proof (cases "results = []")
    case True
    show ?thesis
    proof (cases "maxConsecutiveEmptyPolls \<le> Suc (ipb_emptyPolls bp)")
      case drop: True
      from assms have eq: "pollBatch_apply now bid results b = (calls, b')" .
      show ?thesis
      proof (rule empty_drop [OF Some True])
        from eq show b': "b' = clearInFlightLocked (ipb_items bp)
            (b\<lparr>nb_inProgress := (nb_inProgress b)(bid := None)\<rparr>)"
          by (simp add: pollBatch_apply_def Some True drop Let_def)
        from eq show "calls = failItems (ipb_kind bp) (ipb_items bp) expiredBatchDetail b'"
          by (simp add: pollBatch_apply_def Some True drop Let_def)
            (simp add: b' failItems_def failureHandlerFn_def)
        show "maxConsecutiveEmptyPolls \<le> Suc (ipb_emptyPolls bp)" by (rule drop)
      qed
    next
      case False
      from assms Some True False have "calls = []"
        "b' = b\<lparr>nb_inProgress := (nb_inProgress b)(bid \<mapsto> bp\<lparr>ipb_emptyPolls := Suc (ipb_emptyPolls bp)\<rparr>)\<rparr>"
        by (simp_all add: pollBatch_apply_def)
      with empty_wait [OF Some True] False show ?thesis by simp
    qed
  next
    case False
    with Some answer show ?thesis by blast
  qed
qed

lemma resultMap_fold:
  "fold (\<lambda>r m. m(nr_OperationId r \<mapsto> r)) results m op = Some r \<Longrightarrow>
     (r \<in> set results \<and> nr_OperationId r = op) \<or> m op = Some r"
proof (induction results arbitrary: m)
  case Nil
  then show ?case by simp
next
  case (Cons a results)
  from Cons.prems have "fold (\<lambda>r m. m(nr_OperationId r \<mapsto> r)) results (m(nr_OperationId a \<mapsto> a)) op = Some r"
    by (simp only: fold_Cons comp_apply)
  from Cons.IH [OF this] show ?case by (auto simp only: list.set map_upd_Some_unfold)
qed

lemma resultMap_in:
  "resultMap results op = Some r \<Longrightarrow> r \<in> set results \<and> nr_OperationId r = op"
  using resultMap_fold [of results Map.empty op r] by (simp add: resultMap_def)

end
