(* ===== verification/Batcher_System.thy ===== *)
theory Batcher_System
  imports Batcher_Facts
begin

text \<open>
  The batcher as a transition system: any number of \<^verbatim>\<open>Create\<close>/\<^verbatim>\<open>Delete\<close> callers in
  \<^verbatim>\<open>enqueueItem\<close>, the sender goroutine (\<^verbatim>\<open>batchSender\<close>), the poller goroutine
  (\<^verbatim>\<open>statusPoller\<close>) and the start-up resume, interleaved at the granularity of the locked
  sections. The broker is free: it may reject, accept with any batch ID not tracked at the moment,
  answer a poll with any list of results, or fail. The clock values the steps read are free too.

  \<open>s_acked\<close>, \<open>s_chanOp\<close> and \<open>s_reported\<close> are history: the batch, kind and operation of everything
  the broker acknowledged or a resume registered, the operation a channel was made for, and the
  states the broker reported. No step reads them.
\<close>

section \<open>States and steps\<close>

text \<open>Where the sender goroutine stands.\<close>

datatype senderPc =
    Idle
  | Collecting "batchItem list"
  | SendingAdds "batchItem list" "batchItem list"
  | SendingRemoves "batchItem list"
  | Resolving BatchResult "batchItem list" "batchItem list"
  | Stopped

datatype pollerPc = PollerIdle | PollerWaiting string

record sys =
  s_b :: NodeBatcher
  s_sender :: senderPc
  s_poller :: pollerPc
  s_checked :: "(chan \<times> batchItem) list"
  s_calls :: "handlerCall list"
  s_acked :: "(string \<times> string \<times> string) set"
  s_chanOp :: "chan \<Rightarrow> string"
  s_reported :: "(string \<times> opState) set"

definition sys_init :: "sys \<Rightarrow> bool" where
  "sys_init s \<longleftrightarrow> (\<exists>fn h. s = \<lparr>s_b = SetFailureHandler fn NewNodeBatcher, s_sender = Idle,
     s_poller = PollerIdle, s_checked = [], s_calls = [], s_acked = {}, s_chanOp = h,
     s_reported = {}\<rparr>)"

text \<open>\<^verbatim>\<open>StartBatcher\<close> starts \<^verbatim>\<open>Run\<close>: the sender and the poller on a batcher.\<close>

definition StartBatcher :: "(chan \<Rightarrow> string) \<Rightarrow> NodeBatcher \<Rightarrow> sys" where
  "StartBatcher h b = \<lparr>s_b = b, s_sender = Idle, s_poller = PollerIdle, s_checked = [], s_calls = [],
     s_acked = {}, s_chanOp = h, s_reported = {}\<rparr>"

lemma StartBatcher_init: "sys_init (StartBatcher h (SetFailureHandler fn NewNodeBatcher))"
  unfolding sys_init_def StartBatcher_def by blast

text \<open>What \<^verbatim>\<open>sendBatch\<close> does with the partitions, and with the removes after the adds.\<close>

definition afterAdds :: "batchItem list \<Rightarrow> senderPc" where
  "afterAdds removes = (if removes = [] then Idle else SendingRemoves removes)"

definition startSending :: "batchItem list \<Rightarrow> senderPc" where
  "startSending batch =
     (let (adds, removes) = partitionBatch batch
      in if adds = [] then afterAdds removes else SendingAdds adds removes)"

text \<open>The sender's state after it took an item for the batch.\<close>

definition afterTaking :: "nat \<Rightarrow> batchItem list \<Rightarrow> senderPc" where
  "afterTaking maxSize batch =
     (if maxSize \<le> length batch then startSending batch else Collecting batch)"

definition ops_of :: "string \<Rightarrow> string \<Rightarrow> batchItem list \<Rightarrow> (string \<times> string \<times> string) set" where
  "ops_of bid kind items = (\<lambda>i. (bid, kind, bi_operationID i)) ` set items"

inductive sys_step :: "sys \<Rightarrow> sys \<Rightarrow> bool" where
  call_inFlight:
    "\<lbrakk>bi_kind (item :: batchItem) = opKindAdd \<or> bi_kind item = opKindRemove;
      enqueue_check (bi_operationID item) (s_b s) = Some bid\<rbrakk> \<Longrightarrow>
     sys_step s (s\<lparr>s_b := sendChan (ackResult bid) (nb_nextChan (s_b s)) (snd (makeChan (s_b s))),
       s_chanOp := (s_chanOp s)(nb_nextChan (s_b s) := bi_operationID item)\<rparr>)"
| call_checked:
    "\<lbrakk>bi_kind item = opKindAdd \<or> bi_kind item = opKindRemove;
      enqueue_check (bi_operationID item) (s_b s) = None\<rbrakk> \<Longrightarrow>
     sys_step s (s\<lparr>s_b := snd (makeChan (s_b s)),
       s_checked := s_checked s @ [(nb_nextChan (s_b s), item)],
       s_chanOp := (s_chanOp s)(nb_nextChan (s_b s) := bi_operationID item)\<rparr>)"
| call_join:
    "s_checked s = cs1 @ (ch, item) # cs2 \<Longrightarrow>
     sys_step s (s\<lparr>s_b := enqueue_join ch item (s_b s), s_checked := cs1 @ cs2\<rparr>)"
| receive:
    "nb_chans (s_b s) ch = r # rs \<Longrightarrow>
     sys_step s (s\<lparr>s_b := (s_b s)\<lparr>nb_chans := (nb_chans (s_b s))(ch := rs)\<rparr>\<rparr>)"
| take_first:
    "\<lbrakk>s_sender s = Idle; nb_queue (s_b s) = item # q\<rbrakk> \<Longrightarrow>
     sys_step s (s\<lparr>s_b := (s_b s)\<lparr>nb_queue := q\<rparr>,
       s_sender := afterTaking (nb_maxBatchSize (s_b s)) [item]\<rparr>)"
| take_next:
    "\<lbrakk>s_sender s = Collecting batch; nb_queue (s_b s) = item # q\<rbrakk> \<Longrightarrow>
     sys_step s (s\<lparr>s_b := (s_b s)\<lparr>nb_queue := q\<rparr>,
       s_sender := afterTaking (nb_maxBatchSize (s_b s)) (batch @ [item])\<rparr>)"
| window_over:
    "s_sender s = Collecting batch \<Longrightarrow> sys_step s (s\<lparr>s_sender := startSending batch\<rparr>)"
| sender_stops:
    "s_sender s = Idle \<Longrightarrow> sys_step s (s\<lparr>s_sender := Stopped\<rparr>)"
| adds_acked:
    "\<lbrakk>s_sender s = SendingAdds adds removes; nb_inProgress (s_b s) bid = None\<rbrakk> \<Longrightarrow>
     sys_step s (s\<lparr>s_b := registerBatch now opKindAdd bid adds (s_b s),
       s_sender := Resolving (ackResult bid) adds removes,
       s_acked := s_acked s \<union> ops_of bid opKindAdd adds\<rparr>)"
| adds_failed:
    "s_sender s = SendingAdds adds removes \<Longrightarrow>
     sys_step s (s\<lparr>s_sender := Resolving (sendFailure opKindAdd e) adds removes\<rparr>)"
| removes_acked:
    "\<lbrakk>s_sender s = SendingRemoves removes; nb_inProgress (s_b s) bid = None\<rbrakk> \<Longrightarrow>
     sys_step s (s\<lparr>s_b := registerBatch now opKindRemove bid removes (s_b s),
       s_sender := Resolving (ackResult bid) removes [],
       s_acked := s_acked s \<union> ops_of bid opKindRemove removes\<rparr>)"
| removes_failed:
    "s_sender s = SendingRemoves removes \<Longrightarrow>
     sys_step s (s\<lparr>s_sender := Resolving (sendFailure opKindRemove e) removes []\<rparr>)"
| resolve_next:
    "s_sender s = Resolving r (item # items) removes \<Longrightarrow>
     sys_step s (s\<lparr>s_b := resolvePending (bi_operationID item) r (s_b s),
       s_sender := Resolving r items removes\<rparr>)"
| resolve_done:
    "s_sender s = Resolving r [] removes \<Longrightarrow> sys_step s (s\<lparr>s_sender := afterAdds removes\<rparr>)"
| poll_query:
    "\<lbrakk>s_poller s = PollerIdle; pollBatch_begin now bid (s_b s) = (PollQuery, b')\<rbrakk> \<Longrightarrow>
     sys_step s (s\<lparr>s_b := b', s_poller := PollerWaiting bid\<rparr>)"
| poll_expired:
    "\<lbrakk>s_poller s = PollerIdle; pollBatch_begin now bid (s_b s) = (PollExpired kind items, b')\<rbrakk> \<Longrightarrow>
     sys_step s (s\<lparr>s_b := b',
       s_calls := s_calls s @ failItems kind items expiredBatchDetail b'\<rparr>)"
| poll_error:
    "s_poller s = PollerWaiting bid \<Longrightarrow> sys_step s (s\<lparr>s_poller := PollerIdle\<rparr>)"
| poll_answer:
    "\<lbrakk>s_poller s = PollerWaiting bid; pollBatch_apply now bid results (s_b s) = (calls, b')\<rbrakk> \<Longrightarrow>
     sys_step s (s\<lparr>s_b := b', s_poller := PollerIdle, s_calls := s_calls s @ calls,
       s_reported := s_reported s \<union> (\<lambda>r. (nr_OperationId r, nr_State r)) ` set results\<rparr>)"
| resume:
    "ResumeAddBatch now bid ops (s_b s) = (True, b') \<Longrightarrow>
     sys_step s (s\<lparr>s_b := b', s_acked := s_acked s \<union> ops_of (trimSpace bid) opKindAdd (resumeItems ops)\<rparr>)"

text \<open>The items the sender holds whose waiters it still has to resolve.\<close>

fun held :: "senderPc \<Rightarrow> batchItem list" where
  "held Idle = []"
| "held (Collecting batch) = batch"
| "held (SendingAdds adds removes) = adds @ removes"
| "held (SendingRemoves removes) = removes"
| "held (Resolving r items removes) = items @ removes"
| "held Stopped = []"

definition outstanding :: "sys \<Rightarrow> string list" where
  "outstanding s = map bi_operationID (nb_queue (s_b s) @ held (s_sender s))"

lemma held_afterAdds [simp]: "held (afterAdds removes) = removes"
  by (simp add: afterAdds_def)

lemma held_startSending_eq:
  "held (startSending batch) = filter (\<lambda>i. bi_kind i \<noteq> opKindRemove) batch
     @ filter (\<lambda>i. bi_kind i = opKindRemove) batch"
  by (simp add: startSending_def partitionBatch_eq)

lemma mset_held_startSending:
  "set (map f (held (startSending batch))) = f ` set batch"
  "distinct (map f batch) \<Longrightarrow> distinct (map f (held (startSending batch)))"
  by (auto simp: held_startSending_eq distinct_map_filter) (auto simp: distinct_map inj_on_def)

lemma held_afterTaking:
  "set (map f (held (afterTaking n batch))) = f ` set batch"
  "distinct (map f batch) \<Longrightarrow> distinct (map f (held (afterTaking n batch)))"
  using mset_held_startSending [of f batch] by (simp_all add: afterTaking_def)

section \<open>No waiter is lost\<close>

text \<open>
  The waiters' map and the outstanding items agree: an operation has waiters exactly when one item
  for it is in the queue or with the sender, and never two.
\<close>

definition work_inv :: "sys \<Rightarrow> bool" where
  "work_inv s \<longleftrightarrow> distinct (outstanding s) \<and> set (outstanding s) = dom (nb_pending (s_b s))"

lemma work_inv_frame:
  assumes "work_inv s" and "nb_queue (s_b t) = nb_queue (s_b s)"
    and "nb_pending (s_b t) = nb_pending (s_b s)" and "held (s_sender t) = held (s_sender s)"
  shows "work_inv t"
  using assms by (simp add: work_inv_def outstanding_def)

lemma pollBatch_begin_frame:
  "pollBatch_begin now bid b = (r, b') \<Longrightarrow>
   nb_queue b' = nb_queue b \<and> nb_pending b' = nb_pending b \<and> nb_chans b' = nb_chans b \<and>
   nb_nextChan b' = nb_nextChan b \<and> nb_succeeded b' = nb_succeeded b \<and>
   nb_maxBatchSize b' = nb_maxBatchSize b"
  by (erule pollBatch_begin_cases) auto

lemma pollBatch_apply_frame:
  assumes "pollBatch_apply now bid results b = (calls, b')"
  shows "nb_queue b' = nb_queue b \<and> nb_pending b' = nb_pending b \<and> nb_chans b' = nb_chans b \<and>
    nb_nextChan b' = nb_nextChan b \<and> nb_maxBatchSize b' = nb_maxBatchSize b"
  using assms
proof (cases rule: pollBatch_apply_cases)
  case (answer bp)
  from pollBatch_apply_answer [OF this assms] show ?thesis by simp
qed auto

lemma resume_frame:
  "ResumeAddBatch now bid ops b = (True, b') \<Longrightarrow>
   nb_queue b' = nb_queue b \<and> nb_pending b' = nb_pending b \<and> nb_chans b' = nb_chans b \<and>
   nb_nextChan b' = nb_nextChan b \<and> nb_succeeded b' = nb_succeeded b \<and>
   nb_maxBatchSize b' = nb_maxBatchSize b"
  by (drule ResumeAddBatch_True) simp

lemma work_inv_join:
  assumes inv: "work_inv s"
  shows "work_inv (s\<lparr>s_b := enqueue_join ch item (s_b s), s_checked := cs\<rparr>)"
proof (cases "nb_pending (s_b s) (bi_operationID item)")
  case None
  with inv have new: "bi_operationID item \<notin> set (outstanding s)"
    by (auto simp: work_inv_def)
  show ?thesis
  proof (cases "length (nb_queue (s_b s)) < batchItemQueueBuffer")
    case True
    with None inv new show ?thesis
      by (auto simp: enqueue_join_queued work_inv_def outstanding_def)
  next
    case False
    with None inv show ?thesis
      by (auto simp: enqueue_join_full work_inv_def outstanding_def)
  qed
next
  case (Some ws)
  with inv show ?thesis
    by (auto simp: enqueue_join_dedup work_inv_def outstanding_def)
qed

lemma work_inv_take:
  assumes inv: "work_inv s" and q: "nb_queue (s_b s) = item # q" and h: "held (s_sender s) = batch"
  shows "work_inv (s\<lparr>s_b := (s_b s)\<lparr>nb_queue := q\<rparr>, s_sender := afterTaking n (batch @ [item])\<rparr>)"
  using inv q h held_afterTaking(1) [of bi_operationID n "batch @ [item]"]
    held_afterTaking(2) [of bi_operationID "batch @ [item]" n]
  by (auto simp: work_inv_def outstanding_def)

lemma work_inv_start:
  assumes inv: "work_inv s" and h: "held (s_sender s) = batch"
  shows "work_inv (s\<lparr>s_sender := startSending batch\<rparr>)"
  using inv h mset_held_startSending [of bi_operationID batch]
  by (auto simp: work_inv_def outstanding_def)

lemma work_inv_step:
  assumes inv: "work_inv s" and st: "sys_step s t"
  shows "work_inv t"
  using st
proof cases
  case (call_join cs1 ch item cs2)
  with work_inv_join [OF inv] show ?thesis by simp
next
  case (take_first item q)
  with work_inv_take [OF inv, of item q "[]"] show ?thesis by simp
next
  case (take_next batch item q)
  with work_inv_take [OF inv, of item q batch] show ?thesis by simp
next
  case (window_over batch)
  with work_inv_start [OF inv, of batch] show ?thesis by simp
next
  case (resolve_next r item items removes)
  with inv show ?thesis by (auto simp: work_inv_def outstanding_def)
next
  case (poll_query now bid b')
  with pollBatch_begin_frame [OF poll_query(3)] show ?thesis
    by (intro work_inv_frame [OF inv]) simp_all
next
  case (poll_expired now bid kind items b')
  with pollBatch_begin_frame [OF poll_expired(3)] show ?thesis
    by (intro work_inv_frame [OF inv]) simp_all
next
  case (poll_answer bid now results calls b')
  with pollBatch_apply_frame [OF poll_answer(3)] show ?thesis
    by (intro work_inv_frame [OF inv]) simp_all
next
  case (resume now bid ops b')
  with resume_frame [OF resume(2)] show ?thesis
    by (intro work_inv_frame [OF inv]) simp_all
qed (auto intro!: work_inv_frame [OF inv])

lemma work_inv_init: "sys_init s \<Longrightarrow> work_inv s"
  by (auto simp: sys_init_def work_inv_def outstanding_def NewNodeBatcher_def SetFailureHandler_def)

interpretation work: invariant_system sys_init sys_step work_inv
  by unfold_locales (auto intro: work_inv_init work_inv_step)

end
