(* ===== verification/Batcher_Channels.thy ===== *)
theory Batcher_Channels
  imports Batcher_System
begin

text \<open>
  The result channels of the batcher: a waiter's channel is empty until its one result is sent, so
  no send into a channel of capacity one ever blocks, and no channel gets two results.
\<close>

definition open_chan :: "sys \<Rightarrow> chan \<Rightarrow> string \<Rightarrow> bool" where
  "open_chan s c op \<longleftrightarrow>
     c < nb_nextChan (s_b s) \<and> nb_chans (s_b s) c = [] \<and> s_chanOp s c = op"

definition waiting_inv :: "sys \<Rightarrow> bool" where
  "waiting_inv s \<longleftrightarrow> (\<forall>op ws. nb_pending (s_b s) op = Some ws \<longrightarrow>
     ws \<noteq> [] \<and> distinct ws \<and> (\<forall>c \<in> set ws. open_chan s c op))"

definition checked_inv :: "sys \<Rightarrow> bool" where
  "checked_inv s \<longleftrightarrow> distinct (map fst (s_checked s)) \<and>
     (\<forall>c item. (c, item) \<in> set (s_checked s) \<longrightarrow> open_chan s c (bi_operationID item) \<and>
        c \<notin> set (waiters (s_b s) (bi_operationID item)))"

definition buffers_inv :: "sys \<Rightarrow> bool" where
  "buffers_inv s \<longleftrightarrow> (\<forall>c. length (nb_chans (s_b s) c) \<le> 1) \<and>
     (\<forall>c \<ge> nb_nextChan (s_b s). nb_chans (s_b s) c = [])"

definition chan_inv :: "sys \<Rightarrow> bool" where
  "chan_inv s \<longleftrightarrow> waiting_inv s \<and> checked_inv s \<and> buffers_inv s"

lemma chan_inv_frame:
  assumes "chan_inv s" and "nb_pending (s_b t) = nb_pending (s_b s)"
    and "nb_chans (s_b t) = nb_chans (s_b s)" and "nb_nextChan (s_b t) = nb_nextChan (s_b s)"
    and "s_checked t = s_checked s" and "s_chanOp t = s_chanOp s"
  shows "chan_inv t"
  using assms
  by (simp add: chan_inv_def waiting_inv_def checked_inv_def buffers_inv_def open_chan_def
      waiters_def)

lemma chan_inv_pending:
  "chan_inv s \<Longrightarrow> nb_pending (s_b s) op = Some ws \<Longrightarrow>
   ws \<noteq> [] \<and> distinct ws \<and> (\<forall>c \<in> set ws. open_chan s c op)"
  unfolding chan_inv_def waiting_inv_def by blast

lemma chan_inv_waiters: "chan_inv s \<Longrightarrow> c \<in> set (waiters (s_b s) op) \<Longrightarrow> open_chan s c op"
  using chan_inv_pending by (cases "nb_pending (s_b s) op") auto

lemma chan_inv_distinct_waiters: "chan_inv s \<Longrightarrow> distinct (waiters (s_b s) op)"
  using chan_inv_pending by (cases "nb_pending (s_b s) op") auto

lemma chan_inv_checked:
  "chan_inv s \<Longrightarrow> (c, item) \<in> set (s_checked s) \<Longrightarrow>
   open_chan s c (bi_operationID item) \<and> c \<notin> set (waiters (s_b s) (bi_operationID item))"
  unfolding chan_inv_def checked_inv_def by blast

lemma waiting_inv_update:
  assumes inv: "chan_inv s"
    and p: "nb_pending (s_b t) = (nb_pending (s_b s))(op := wo)"
    and new: "\<And>ws. wo = Some ws \<Longrightarrow> ws \<noteq> [] \<and> distinct ws \<and> (\<forall>c \<in> set ws. open_chan t c op)"
    and old: "\<And>c op'. op' \<noteq> op \<Longrightarrow> c \<in> set (waiters (s_b s) op') \<Longrightarrow> open_chan s c op' \<Longrightarrow> open_chan t c op'"
  shows "waiting_inv t"
  unfolding waiting_inv_def
proof (intro allI impI)
  fix op' ws
  assume h: "nb_pending (s_b t) op' = Some ws"
  show "ws \<noteq> [] \<and> distinct ws \<and> (\<forall>c \<in> set ws. open_chan t c op')"
  proof (cases "op' = op")
    case True
    with h p new show ?thesis by simp
  next
    case False
    with h p have s: "nb_pending (s_b s) op' = Some ws" by simp
    with chan_inv_pending [OF inv s] old [OF False] show ?thesis by simp
  qed
qed

lemma chan_inv_new:
  assumes inv: "chan_inv s"
    and b: "nb_pending b' = nb_pending (s_b s)" "nb_nextChan b' = Suc (nb_nextChan (s_b s))"
      "nb_chans b' = (nb_chans (s_b s))(nb_nextChan (s_b s) := rs)" "length rs \<le> 1"
  shows "chan_inv (s\<lparr>s_b := b', s_chanOp := (s_chanOp s)(nb_nextChan (s_b s) := op)\<rparr>)"
proof -
  have old: "open_chan (s\<lparr>s_b := b', s_chanOp := (s_chanOp s)(nb_nextChan (s_b s) := op)\<rparr>) c op'"
    if "open_chan s c op'" for c op'
    using that b by (auto simp: open_chan_def)
  show ?thesis using inv b old
    by (auto simp: chan_inv_def waiting_inv_def checked_inv_def buffers_inv_def waiters_def)
qed

lemma chan_inv_check:
  assumes inv: "chan_inv s"
  shows "chan_inv (s\<lparr>s_b := snd (makeChan (s_b s)),
       s_checked := s_checked s @ [(nb_nextChan (s_b s), item)],
       s_chanOp := (s_chanOp s)(nb_nextChan (s_b s) := bi_operationID item)\<rparr>)" (is "chan_inv ?t")
proof -
  let ?n = "nb_nextChan (s_b s)"
  let ?u = "s\<lparr>s_b := snd (makeChan (s_b s)), s_chanOp := (s_chanOp s)(?n := bi_operationID item)\<rparr>"
  from inv have emp: "nb_chans (s_b s) ?n = []"
    by (simp add: chan_inv_def buffers_inv_def)
  then have "chan_inv ?u"
    by (intro chan_inv_new [OF inv, where rs = "[]"]) (simp_all add: fun_upd_idem)
  moreover have "?n \<notin> set (waiters (s_b s) op)" for op
    using chan_inv_waiters [OF inv] by (auto simp: open_chan_def)
  moreover have "?n \<notin> fst ` set (s_checked s)"
    using inv by (force simp: chan_inv_def checked_inv_def open_chan_def)
  ultimately show ?thesis using emp
    by (auto simp: chan_inv_def waiting_inv_def checked_inv_def buffers_inv_def open_chan_def
        waiters_def)
qed

lemma chan_inv_join:
  assumes inv: "chan_inv s" and ck: "s_checked s = cs1 @ (ch, item) # cs2"
  shows "chan_inv (s\<lparr>s_b := enqueue_join ch item (s_b s), s_checked := cs1 @ cs2\<rparr>)" (is "chan_inv ?t")
proof -
  let ?op = "bi_operationID item"
  from inv ck have opn: "open_chan s ch ?op" and nw: "ch \<notin> set (waiters (s_b s) ?op)"
    and others: "ch \<notin> fst ` set (cs1 @ cs2)" and dist: "distinct (map fst (cs1 @ cs2))"
    by (auto simp: chan_inv_def checked_inv_def)
  have rest: "open_chan s c (bi_operationID i) \<and> c \<notin> set (waiters (s_b s) (bi_operationID i)) \<and> c \<noteq> ch"
    if "(c, i) \<in> set (cs1 @ cs2)" for c i
  proof -
    from that have "c \<in> fst ` set (cs1 @ cs2)" by (metis fst_conv image_eqI)
    with others have "c \<noteq> ch" by metis
    with chan_inv_checked [OF inv, of c i] ck that show ?thesis by auto
  qed
  have checked: "checked_inv ?t"
    if w: "\<And>op. set (waiters (s_b ?t) op) \<subseteq> insert ch (set (waiters (s_b s) op))"
      and o: "\<And>c op. c \<noteq> ch \<Longrightarrow> open_chan s c op \<Longrightarrow> open_chan ?t c op"
    unfolding checked_inv_def
  proof (intro conjI allI impI)
    show "distinct (map fst (s_checked ?t))" using dist by simp
    fix c i
    assume "(c, i) \<in> set (s_checked ?t)"
    with rest have r: "open_chan s c (bi_operationID i)" "c \<noteq> ch"
      "c \<notin> set (waiters (s_b s) (bi_operationID i))" by auto
    from o [OF r(2,1)] show "open_chan ?t c (bi_operationID i)" .
    from w r(2,3) show "c \<notin> set (waiters (s_b ?t) (bi_operationID i))" by blast
  qed
  show ?thesis
  proof (cases "nb_pending (s_b s) ?op")
    case (Some ws)
    then have t: "?t = s\<lparr>s_b := (s_b s)\<lparr>nb_pending := (nb_pending (s_b s))(?op \<mapsto> ws @ [ch])\<rparr>,
        s_checked := cs1 @ cs2\<rparr>" by (simp add: enqueue_join_dedup)
    have o: "open_chan ?t c op \<longleftrightarrow> open_chan s c op" for c op
      unfolding t by (simp add: open_chan_def)
    have w: "set (waiters (s_b ?t) op) \<subseteq> insert ch (set (waiters (s_b s) op))" for op
      unfolding t using Some by (auto simp: waiters_def)
    from Some nw chan_inv_pending [OF inv Some]
    have "ch \<notin> set ws" "distinct ws" "\<forall>c \<in> set ws. open_chan s c ?op" by simp_all
    moreover have p: "nb_pending (s_b ?t) = (nb_pending (s_b s))(?op := Some (ws @ [ch]))"
      unfolding t by simp
    ultimately have "waiting_inv ?t" using opn
      by (intro waiting_inv_update [OF inv p]) (auto simp: o)
    moreover have "checked_inv ?t" by (rule checked [OF w]) (simp add: o)
    moreover from inv have "buffers_inv ?t" by (simp add: chan_inv_def buffers_inv_def t)
    ultimately show ?thesis by (simp add: chan_inv_def)
  next
    case None
    show ?thesis
    proof (cases "length (nb_queue (s_b s)) < batchItemQueueBuffer")
      case True
      with None have t: "?t = s\<lparr>s_b := (s_b s)\<lparr>nb_pending := (nb_pending (s_b s))(?op \<mapsto> [ch]),
          nb_queue := nb_queue (s_b s) @ [item]\<rparr>, s_checked := cs1 @ cs2\<rparr>"
        by (simp add: enqueue_join_queued)
      have o: "open_chan ?t c op \<longleftrightarrow> open_chan s c op" for c op
        unfolding t by (simp add: open_chan_def)
      have w: "set (waiters (s_b ?t) op) \<subseteq> insert ch (set (waiters (s_b s) op))" for op
        unfolding t by (auto simp: waiters_def)
      have p: "nb_pending (s_b ?t) = (nb_pending (s_b s))(?op := Some [ch])"
        unfolding t by simp
      have "waiting_inv ?t" using opn
        by (intro waiting_inv_update [OF inv p]) (auto simp: o)
      moreover have "checked_inv ?t" by (rule checked [OF w]) (simp add: o)
      moreover from inv have "buffers_inv ?t" by (simp add: chan_inv_def buffers_inv_def t)
      ultimately show ?thesis by (simp add: chan_inv_def)
    next
      case False
      with None have t: "?t = s\<lparr>s_b := sendChan queueFull ch (s_b s), s_checked := cs1 @ cs2\<rparr>"
        by (simp add: enqueue_join_full)
      have nw': "ch \<notin> set (waiters (s_b s) op)" for op
        using chan_inv_waiters [OF inv] opn None by (cases "op = ?op") (auto simp: open_chan_def)
      have o: "open_chan ?t c op \<longleftrightarrow> c \<noteq> ch \<and> open_chan s c op" for c op
        unfolding t by (auto simp: open_chan_def)
      have w: "set (waiters (s_b ?t) op) \<subseteq> insert ch (set (waiters (s_b s) op))" for op
        unfolding t by (auto simp: waiters_def)
      have p: "nb_pending (s_b ?t) = (nb_pending (s_b s))(?op := None)"
        unfolding t using None by (simp add: fun_upd_idem)
      have "waiting_inv ?t" using nw' by (intro waiting_inv_update [OF inv p]) (auto simp: o)
      moreover have "checked_inv ?t" by (rule checked [OF w]) (simp add: o)
      moreover from inv opn have "buffers_inv ?t"
        by (auto simp: chan_inv_def buffers_inv_def t open_chan_def)
      ultimately show ?thesis by (simp add: chan_inv_def)
    qed
  qed
qed

lemma chan_inv_resolve:
  assumes inv: "chan_inv s"
  shows "chan_inv (s\<lparr>s_b := resolvePending op r (s_b s), s_sender := pc\<rparr>)" (is "chan_inv ?t")
proof -
  have ch: "nb_chans (s_b ?t) c = (if c \<in> set (waiters (s_b s) op) then [r] else nb_chans (s_b s) c)" for c
    using chan_inv_waiters [OF inv, of c op]
    by (auto simp: resolvePending_chans [OF chan_inv_distinct_waiters [OF inv]] open_chan_def)
  have sep: "c \<notin> set (waiters (s_b s) op)" if "open_chan s c op'" "op' \<noteq> op" for c op'
    using chan_inv_waiters [OF inv, of c op] that by (auto simp: open_chan_def)
  have keep: "open_chan ?t c op'" if "open_chan s c op'" "c \<notin> set (waiters (s_b s) op)" for c op'
    using that ch [of c] by (simp add: open_chan_def)
  have "waiting_inv ?t" using keep sep
    by (intro waiting_inv_update [OF inv, of ?t op None]) simp_all
  moreover have "checked_inv ?t"
  proof -
    have "open_chan ?t c (bi_operationID item) \<and> c \<notin> set (waiters (s_b ?t) (bi_operationID item))"
      if "(c, item) \<in> set (s_checked s)" for c item
    proof -
      from inv that have o: "open_chan s c (bi_operationID item)"
        and n: "c \<notin> set (waiters (s_b s) (bi_operationID item))"
        by (auto simp: chan_inv_def checked_inv_def)
      from o n sep have "c \<notin> set (waiters (s_b s) op)" by metis
      with o n keep show ?thesis by (simp add: waiters_def)
    qed
    with inv show ?thesis by (simp add: chan_inv_def checked_inv_def)
  qed
  moreover have "buffers_inv ?t" unfolding buffers_inv_def ch
    using inv chan_inv_waiters [OF inv, of _ op]
    by (fastforce simp: chan_inv_def buffers_inv_def open_chan_def)
  ultimately show ?thesis by (simp add: chan_inv_def)
qed

lemma chan_inv_receive:
  assumes inv: "chan_inv s" and ch: "nb_chans (s_b s) ch = r # rs"
  shows "chan_inv (s\<lparr>s_b := (s_b s)\<lparr>nb_chans := (nb_chans (s_b s))(ch := rs)\<rparr>\<rparr>)" (is "chan_inv ?t")
proof -
  from inv have le: "length (nb_chans (s_b s) ch) \<le> 1"
    and hi: "\<forall>c \<ge> nb_nextChan (s_b s). nb_chans (s_b s) c = []"
    by (auto simp: chan_inv_def buffers_inv_def)
  with ch have rs: "rs = []" and lt: "ch < nb_nextChan (s_b s)" by (auto simp: not_le [symmetric])
  have "open_chan ?t c op" if "open_chan s c op" for c op
    using that ch by (auto simp: open_chan_def)
  with inv rs lt show ?thesis
    by (auto simp: chan_inv_def waiting_inv_def checked_inv_def buffers_inv_def waiters_def)
qed

lemma chan_inv_step:
  assumes inv: "chan_inv s" and st: "sys_step s t"
  shows "chan_inv t"
  using st
proof cases
  case (call_inFlight item bid)
  from inv have "nb_chans (s_b s) (nb_nextChan (s_b s)) = []"
    by (simp add: chan_inv_def buffers_inv_def)
  then show ?thesis unfolding call_inFlight(1)
    by (intro chan_inv_new [OF inv, where rs = "[ackResult bid]"]) simp_all
next
  case (call_checked item)
  with chan_inv_check [OF inv] show ?thesis by simp
next
  case (call_join cs1 ch item cs2)
  with chan_inv_join [OF inv call_join(2)] show ?thesis by simp
next
  case (receive ch r rs)
  with chan_inv_receive [OF inv receive(2)] show ?thesis by simp
next
  case (resolve_next r item items removes)
  with chan_inv_resolve [OF inv] show ?thesis by simp
next
  case (poll_query now bid b')
  with pollBatch_begin_frame [OF poll_query(3)] show ?thesis
    by (intro chan_inv_frame [OF inv]) simp_all
next
  case (poll_expired now bid kind items b')
  with pollBatch_begin_frame [OF poll_expired(3)] show ?thesis
    by (intro chan_inv_frame [OF inv]) simp_all
next
  case (poll_answer bid now results calls b')
  with pollBatch_apply_frame [OF poll_answer(3)] show ?thesis
    by (intro chan_inv_frame [OF inv]) simp_all
next
  case (resume now bid ops b')
  with resume_frame [OF resume(2)] show ?thesis
    by (intro chan_inv_frame [OF inv]) simp_all
qed (auto intro!: chan_inv_frame [OF inv])

lemma chan_inv_init: "sys_init s \<Longrightarrow> chan_inv s"
  by (auto simp: sys_init_def chan_inv_def waiting_inv_def checked_inv_def buffers_inv_def
      NewNodeBatcher_def SetFailureHandler_def)

interpretation chans: invariant_system sys_init sys_step chan_inv
  by unfold_locales (auto intro: chan_inv_init chan_inv_step)

end
