(* ===== verification/Batcher_Safety.thy ===== *)
theory Batcher_Safety
  imports Batcher_Channels
begin

text \<open>
  Invariants over the interleaved batcher: the tracked batches are well formed, every operation in
  flight is in a tracked batch, and what the batcher tells its callers, \<^verbatim>\<open>Delete\<close> and the
  failure handler goes back to an answer of the broker.
\<close>

section \<open>Tracked batches and the sender's items\<close>

definition known_kind :: "string \<Rightarrow> bool" where
  "known_kind k \<longleftrightarrow> k = opKindAdd \<or> k = opKindRemove"

lemma known_kind_simps [simp]: "known_kind opKindAdd" "known_kind opKindRemove"
  by (simp_all add: known_kind_def)

definition batch_ok :: "(string \<times> string \<times> string) set \<Rightarrow> string \<Rightarrow> inProgressBatch \<Rightarrow> bool" where
  "batch_ok acked bid bp \<longleftrightarrow> ipb_batchID bp = bid \<and> ipb_items bp \<noteq> [] \<and> known_kind (ipb_kind bp) \<and>
     (\<forall>i \<in> set (ipb_items bp). bi_kind i = ipb_kind bp) \<and>
     ops_of bid (ipb_kind bp) (ipb_items bp) \<subseteq> acked \<and>
     ipb_emptyPolls bp < maxConsecutiveEmptyPolls"

definition batches_inv :: "sys \<Rightarrow> bool" where
  "batches_inv s \<longleftrightarrow>
     (\<forall>bid bp. nb_inProgress (s_b s) bid = Some bp \<longrightarrow> batch_ok (s_acked s) bid bp)"

definition all_kind :: "string \<Rightarrow> batchItem list \<Rightarrow> bool" where
  "all_kind k items \<longleftrightarrow> (\<forall>i \<in> set items. bi_kind i = k)"

fun sender_ok :: "nat \<Rightarrow> senderPc \<Rightarrow> bool" where
  "sender_ok n Idle \<longleftrightarrow> True"
| "sender_ok n (Collecting batch) \<longleftrightarrow>
     batch \<noteq> [] \<and> length batch < n \<and> (\<forall>i \<in> set batch. known_kind (bi_kind i))"
| "sender_ok n (SendingAdds adds removes) \<longleftrightarrow>
     adds \<noteq> [] \<and> length adds + length removes \<le> n \<and> all_kind opKindAdd adds \<and>
     all_kind opKindRemove removes"
| "sender_ok n (SendingRemoves removes) \<longleftrightarrow>
     removes \<noteq> [] \<and> length removes \<le> n \<and> all_kind opKindRemove removes"
| "sender_ok n (Resolving r items removes) \<longleftrightarrow>
     length removes \<le> n \<and> all_kind opKindRemove removes"
| "sender_ok n Stopped \<longleftrightarrow> True"

definition items_inv :: "sys \<Rightarrow> bool" where
  "items_inv s \<longleftrightarrow> 1 < nb_maxBatchSize (s_b s) \<and> sender_ok (nb_maxBatchSize (s_b s)) (s_sender s) \<and>
     (\<forall>i \<in> set (nb_queue (s_b s)). known_kind (bi_kind i)) \<and>
     (\<forall>(c, i) \<in> set (s_checked s). known_kind (bi_kind i)) \<and>
     length (nb_queue (s_b s)) \<le> batchItemQueueBuffer"

lemma sender_ok_afterAdds: "sender_ok n (Resolving r items removes) \<Longrightarrow> sender_ok n (afterAdds removes)"
  by (simp add: afterAdds_def)

lemma sender_ok_startSending:
  assumes "length batch \<le> n" and "\<forall>i \<in> set batch. known_kind (bi_kind i)"
  shows "sender_ok n (startSending batch)"
proof -
  let ?a = "filter (\<lambda>i. bi_kind i \<noteq> opKindRemove) batch"
  let ?r = "filter (\<lambda>i. bi_kind i = opKindRemove) batch"
  have "length ?a + length ?r = length batch"
    by (simp add: sum_length_filter_compl add.commute)
  with assms show ?thesis
    by (auto simp: startSending_def partitionBatch_eq afterAdds_def all_kind_def known_kind_def
        simp del: filter_False)
qed

lemma sender_ok_afterTaking:
  assumes "length batch \<le> n" and "batch \<noteq> []" and "\<forall>i \<in> set batch. known_kind (bi_kind i)"
  shows "sender_ok n (afterTaking n batch)"
  using assms sender_ok_startSending by (simp add: afterTaking_def)

lemma enqueue_join_queue:
  "nb_queue (enqueue_join ch item b) = nb_queue b \<or>
   nb_queue (enqueue_join ch item b) = nb_queue b @ [item] \<and> length (nb_queue b) < batchItemQueueBuffer"
  by (auto simp: enqueue_join_def Let_def split: option.splits)

lemma items_inv_frame:
  assumes "items_inv s" and "nb_queue (s_b t) = nb_queue (s_b s)"
    and "nb_maxBatchSize (s_b t) = nb_maxBatchSize (s_b s)" and "s_checked t = s_checked s"
    and "sender_ok (nb_maxBatchSize (s_b s)) (s_sender t)"
  shows "items_inv t"
  using assms by (simp add: items_inv_def)

lemma items_inv_step:
  assumes inv: "items_inv s" and st: "sys_step s t"
  shows "items_inv t"
  using st
proof cases
  case (call_checked item)
  with inv show ?thesis by (auto simp: items_inv_def known_kind_def)
next
  case (call_join cs1 ch item cs2)
  with inv enqueue_join_queue [of ch item "s_b s"] show ?thesis
    by (auto simp: items_inv_def)
next
  case (take_first item q)
  with inv sender_ok_afterTaking [of "[item]" "nb_maxBatchSize (s_b s)"] show ?thesis
    by (auto simp: items_inv_def)
next
  case (take_next batch item q)
  with inv sender_ok_afterTaking [of "batch @ [item]" "nb_maxBatchSize (s_b s)"] show ?thesis
    by (auto simp: items_inv_def)
next
  case (window_over batch)
  with inv sender_ok_startSending [of batch "nb_maxBatchSize (s_b s)"] show ?thesis
    by (auto simp: items_inv_def)
next
  case (resolve_done r removes)
  with inv sender_ok_afterAdds show ?thesis
    by (intro items_inv_frame [OF inv]) (auto simp: items_inv_def)
next
  case (poll_query now bid b')
  with pollBatch_begin_frame [OF poll_query(3)] inv show ?thesis
    by (intro items_inv_frame [OF inv]) (auto simp: items_inv_def)
next
  case (poll_expired now bid kind items b')
  with pollBatch_begin_frame [OF poll_expired(3)] inv show ?thesis
    by (intro items_inv_frame [OF inv]) (auto simp: items_inv_def)
next
  case (poll_answer bid now results calls b')
  with pollBatch_apply_frame [OF poll_answer(3)] inv show ?thesis
    by (intro items_inv_frame [OF inv]) (auto simp: items_inv_def)
next
  case (resume now bid ops b')
  with resume_frame [OF resume(2)] inv show ?thesis
    by (intro items_inv_frame [OF inv]) (auto simp: items_inv_def)
qed (use inv in \<open>auto simp: items_inv_def all_kind_def\<close>)

lemma batches_inv_frame:
  assumes "batches_inv s" and "nb_inProgress (s_b t) = nb_inProgress (s_b s)"
    and "s_acked s \<subseteq> s_acked t"
  shows "batches_inv t"
  using assms by (fastforce simp: batches_inv_def batch_ok_def)

lemma batches_inv_update:
  assumes inv: "batches_inv s" and p: "nb_inProgress (s_b t) = (nb_inProgress (s_b s))(bid := bo)"
    and acked: "s_acked s \<subseteq> s_acked t"
    and new: "\<And>bp. bo = Some bp \<Longrightarrow> batch_ok (s_acked t) bid bp"
  shows "batches_inv t"
  unfolding batches_inv_def
proof (intro allI impI)
  fix bid' bp
  assume h: "nb_inProgress (s_b t) bid' = Some bp"
  show "batch_ok (s_acked t) bid' bp"
  proof (cases "bid' = bid")
    case True
    with h p new show ?thesis by simp
  next
    case False
    with h p have "nb_inProgress (s_b s) bid' = Some bp" by simp
    with inv have "batch_ok (s_acked s) bid' bp" by (simp add: batches_inv_def)
    with acked show ?thesis by (auto simp: batch_ok_def)
  qed
qed

lemma batches_invD: "batches_inv s \<Longrightarrow> nb_inProgress (s_b s) bid = Some bp \<Longrightarrow> batch_ok (s_acked s) bid bp"
  by (simp add: batches_inv_def)

lemma batches_inv_step:
  assumes inv: "batches_inv s" and items: "items_inv s" and st: "sys_step s t"
  shows "batches_inv t"
  using st
proof cases
  case (adds_acked adds removes bid now)
  with items show ?thesis
    by (intro batches_inv_update [OF inv, of t bid])
      (auto simp: batch_ok_def items_inv_def all_kind_def maxConsecutiveEmptyPolls_def)
next
  case (removes_acked removes bid now)
  with items show ?thesis
    by (intro batches_inv_update [OF inv, of t bid])
      (auto simp: batch_ok_def items_inv_def all_kind_def maxConsecutiveEmptyPolls_def)
next
  case (poll_query now bid b')
  then show ?thesis
    by (intro batches_inv_frame [OF inv]) (auto elim: pollBatch_begin_cases)
next
  case (poll_expired now bid kind items b')
  then show ?thesis
    by (intro batches_inv_update [OF inv, of t bid None]) (auto elim: pollBatch_begin_cases)
next
  case (poll_answer bid now results calls b')
  from poll_answer(3) show ?thesis
  proof (cases rule: pollBatch_apply_cases)
    case gone
    with poll_answer show ?thesis by (intro batches_inv_frame [OF inv]) simp_all
  next
    case (empty_wait bp)
    with poll_answer batches_invD [OF inv empty_wait(1)] show ?thesis
      by (intro batches_inv_update [OF inv, of t bid]) (auto simp: batch_ok_def)
  next
    case (empty_drop bp)
    with poll_answer show ?thesis
      by (intro batches_inv_update [OF inv, of t bid None]) simp_all
  next
    case (answer bp)
    note ans = pollBatch_apply_answer [OF answer poll_answer(3)]
    from batches_invD [OF inv answer(1)] poll_answer ans(1) show ?thesis
      by (intro batches_inv_update [OF inv, of t bid])
        (auto simp: batch_ok_def stays_def ops_of_def maxConsecutiveEmptyPolls_def image_subset_iff
          split: if_splits)
  qed
next
  case (resume now bid ops b')
  note res = ResumeAddBatch_True [OF resume(2)]
  with resume show ?thesis
    by (intro batches_inv_update [OF inv, of t "trimSpace bid"])
      (auto simp: batch_ok_def resumeItems_kind maxConsecutiveEmptyPolls_def)
qed (auto intro!: batches_inv_frame [OF inv])

section \<open>Operations in flight are tracked\<close>

text \<open>
  Every operation in flight is an item of the batch the batcher remembers for it, and that batch is
  tracked: no operation stays suppressed once nothing polls for it.
\<close>

definition flight_ok :: "NodeBatcher \<Rightarrow> string \<Rightarrow> bool" where
  "flight_ok b op \<longleftrightarrow> (\<exists>bid bp. nb_opBatch b op = Some bid \<and> nb_inProgress b bid = Some bp \<and>
     op \<in> bi_operationID ` set (ipb_items bp))"

definition flight_inv :: "sys \<Rightarrow> bool" where
  "flight_inv s \<longleftrightarrow> (\<forall>op \<in> nb_inFlight (s_b s). flight_ok (s_b s) op)"

lemma flight_inv_frame:
  assumes "flight_inv s" and "nb_inProgress (s_b t) = nb_inProgress (s_b s)"
    and "nb_inFlight (s_b t) = nb_inFlight (s_b s)" and "nb_opBatch (s_b t) = nb_opBatch (s_b s)"
  shows "flight_inv t"
  using assms by (simp add: flight_inv_def flight_ok_def)

lemma flight_register:
  assumes inv: "flight_inv s" and fresh: "nb_inProgress (s_b s) bid = None"
    and p: "nb_inProgress b' = (nb_inProgress (s_b s))(bid \<mapsto> bp)"
    and fl: "nb_inFlight b' = bi_operationID ` set (ipb_items bp) \<union> nb_inFlight (s_b s)"
    and ob: "nb_opBatch b' = (\<lambda>op. if op \<in> bi_operationID ` set (ipb_items bp) then Some bid
       else nb_opBatch (s_b s) op)"
  shows "\<forall>op \<in> nb_inFlight b'. flight_ok b' op"
proof
  fix op
  assume op: "op \<in> nb_inFlight b'"
  show "flight_ok b' op"
  proof (cases "op \<in> bi_operationID ` set (ipb_items bp)")
    case True
    with p ob show ?thesis by (auto simp: flight_ok_def)
  next
    case False
    with op fl inv obtain bid' bp' where o: "nb_opBatch (s_b s) op = Some bid'"
      "nb_inProgress (s_b s) bid' = Some bp'" "op \<in> bi_operationID ` set (ipb_items bp')"
      by (auto simp: flight_inv_def flight_ok_def)
    with fresh have "bid' \<noteq> bid" by auto
    with o False p ob show ?thesis by (simp add: flight_ok_def)
  qed
qed

lemma flight_drop:
  assumes inv: "flight_inv s" and bp: "nb_inProgress (s_b s) bid = Some bp"
    and b': "b' = clearInFlightLocked (ipb_items bp)
      ((s_b s)\<lparr>nb_inProgress := (nb_inProgress (s_b s))(bid := None)\<rparr>)"
  shows "\<forall>op \<in> nb_inFlight b'. flight_ok b' op"
proof
  fix op
  assume "op \<in> nb_inFlight b'"
  with b' have op: "op \<in> nb_inFlight (s_b s)" "op \<notin> bi_operationID ` set (ipb_items bp)" by auto
  with inv obtain bid' bp' where o: "nb_opBatch (s_b s) op = Some bid'"
    "nb_inProgress (s_b s) bid' = Some bp'" "op \<in> bi_operationID ` set (ipb_items bp')"
    by (auto simp: flight_inv_def flight_ok_def)
  with op bp have "bid' \<noteq> bid" by auto
  with o op b' show "flight_ok b' op" by (auto simp: flight_ok_def)
qed

lemma flight_answer:
  assumes inv: "flight_inv s" and bp: "nb_inProgress (s_b s) bid = Some bp" and ne: "results \<noteq> []"
    and ap: "pollBatch_apply now bid results (s_b s) = (calls, b')"
  shows "\<forall>op \<in> nb_inFlight b'. flight_ok b' op"
proof
  note ans = pollBatch_apply_answer [OF bp ne ap]
  fix op
  assume "op \<in> nb_inFlight b'"
  with ans(2) have op: "op \<in> nb_inFlight (s_b s)" "op \<notin> bi_operationID ` set (leaves results bp)"
    by auto
  with inv obtain bid' bp' where o: "nb_opBatch (s_b s) op = Some bid'"
    "nb_inProgress (s_b s) bid' = Some bp'" "op \<in> bi_operationID ` set (ipb_items bp')"
    by (auto simp: flight_inv_def flight_ok_def)
  show "flight_ok b' op"
  proof (cases "bid' = bid")
    case True
    with o bp op(2) have st: "op \<in> bi_operationID ` set (stays results bp)"
      by (auto simp: stays_def leaves_def)
    then have "stays results bp \<noteq> []" by auto
    with True o(1) st ans(1,8) show ?thesis by (simp add: flight_ok_def)
  next
    case False
    with o ans(1,8) show ?thesis by (simp add: flight_ok_def)
  qed
qed

lemma flight_inv_step:
  assumes inv: "flight_inv s" and st: "sys_step s t"
  shows "flight_inv t"
  using st
proof cases
  case (adds_acked adds removes bid now)
  have "\<forall>op \<in> nb_inFlight (s_b t). flight_ok (s_b t) op"
    by (rule flight_register [OF inv adds_acked(3)], (simp add: adds_acked(1))+)
  then show ?thesis by (simp add: flight_inv_def)
next
  case (removes_acked removes bid now)
  have "\<forall>op \<in> nb_inFlight (s_b t). flight_ok (s_b t) op"
    by (rule flight_register [OF inv removes_acked(3)], (simp add: removes_acked(1))+)
  then show ?thesis by (simp add: flight_inv_def)
next
  case (poll_query now bid b')
  then show ?thesis
    by (intro flight_inv_frame [OF inv]) (auto elim: pollBatch_begin_cases)
next
  case (poll_expired now bid kind items b')
  from poll_expired(3) obtain bp where "nb_inProgress (s_b s) bid = Some bp"
    "b' = clearInFlightLocked (ipb_items bp)
      ((s_b s)\<lparr>nb_inProgress := (nb_inProgress (s_b s))(bid := None)\<rparr>)"
    by (auto elim: pollBatch_begin_cases)
  from flight_drop [OF inv this] poll_expired show ?thesis by (simp add: flight_inv_def)
next
  case (poll_answer bid now results calls b')
  from poll_answer(3) show ?thesis
  proof (cases rule: pollBatch_apply_cases)
    case gone
    with poll_answer show ?thesis by (intro flight_inv_frame [OF inv]) simp_all
  next
    case (empty_wait bp)
    have "flight_ok b' op" if "flight_ok (s_b s) op" for op
      using that empty_wait(1,4) by (cases "nb_opBatch (s_b s) op = Some bid") (auto simp: flight_ok_def)
    with poll_answer inv empty_wait(4) show ?thesis by (simp add: flight_inv_def)
  next
    case (empty_drop bp)
    from flight_drop [OF inv empty_drop(1,3)] poll_answer show ?thesis by (simp add: flight_inv_def)
  next
    case (answer bp)
    from flight_answer [OF inv answer poll_answer(3)] poll_answer show ?thesis
      by (simp add: flight_inv_def)
  qed
next
  case (resume now bid ops b')
  note res = ResumeAddBatch_True [OF resume(2)]
  have "\<forall>op \<in> nb_inFlight (s_b t). flight_ok (s_b t) op"
    by (rule flight_register [OF inv res(4)], (simp add: resume(1) res(1))+)
  then show ?thesis by (simp add: flight_inv_def)
qed (auto intro!: flight_inv_frame [OF inv])

end
