(* ===== verification/Batcher_History.thy ===== *)
theory Batcher_History
  imports Batcher_Safety
begin

text \<open>
  What the batcher reports goes back to the broker: an acknowledgement delivered to a caller, a
  recorded success, and a call of the failure handler. Then the conjunction of all invariants,
  which every step keeps.
\<close>

definition acked_op :: "sys \<Rightarrow> string \<Rightarrow> string \<Rightarrow> bool" where
  "acked_op s bid op \<longleftrightarrow> (\<exists>kind. (bid, kind, op) \<in> s_acked s)"

definition resolving_acked :: "sys \<Rightarrow> bool" where
  "resolving_acked s \<longleftrightarrow> (\<forall>r items removes. s_sender s = Resolving r items removes \<longrightarrow> br_Err r = None \<longrightarrow>
     (\<forall>i \<in> set items. acked_op s (br_BatchID r) (bi_operationID i)))"

definition ack_inv :: "sys \<Rightarrow> bool" where
  "ack_inv s \<longleftrightarrow>
     (\<forall>op bid. nb_opBatch (s_b s) op = Some bid \<longrightarrow> acked_op s bid op) \<and>
     (\<forall>c r. r \<in> set (nb_chans (s_b s) c) \<longrightarrow> br_Err r = None \<longrightarrow> acked_op s (br_BatchID r) (s_chanOp s c)) \<and>
     resolving_acked s"

definition success_inv :: "sys \<Rightarrow> bool" where
  "success_inv s \<longleftrightarrow> (\<forall>op \<in> dom (nb_succeeded (s_b s)). (op, Succeeded_state) \<in> s_reported s)"

definition calls_inv :: "sys \<Rightarrow> bool" where
  "calls_inv s \<longleftrightarrow> (\<forall>(fn, op, kind, detail) \<in> set (s_calls s).
     (\<exists>bid. (bid, kind, op) \<in> s_acked s) \<and>
     (detail = expiredBatchDetail \<or> (op, Failed_state) \<in> s_reported s))"

lemma ack_inv_frame:
  assumes "ack_inv s" and "nb_opBatch (s_b t) = nb_opBatch (s_b s)"
    and "nb_chans (s_b t) = nb_chans (s_b s)" and "s_chanOp t = s_chanOp s"
    and "s_acked s \<subseteq> s_acked t" and "resolving_acked t"
  shows "ack_inv t"
proof -
  have "acked_op t b' o'" if "acked_op s b' o'" for b' o'
    using that assms(5) by (auto simp: acked_op_def)
  with assms(1,6) show ?thesis unfolding ack_inv_def assms(2,3,4) by blast
qed

lemma resolving_acked_mono:
  assumes "resolving_acked s" and "s_acked s \<subseteq> s_acked t"
    and "\<And>r items removes. s_sender t = Resolving r items removes \<Longrightarrow> br_Err r = None \<Longrightarrow>
      \<exists>items'. s_sender s = Resolving r items' removes \<and> set items \<subseteq> set items'"
  shows "resolving_acked t"
  unfolding resolving_acked_def
proof (intro allI impI ballI)
  fix r items removes i
  assume r: "s_sender t = Resolving r items removes" and e: "br_Err r = None" and i: "i \<in> set items"
  from assms(3) [OF r e] obtain items' where
    "s_sender s = Resolving r items' removes" "set items \<subseteq> set items'" by blast
  with assms(1) e i have "acked_op s (br_BatchID r) (bi_operationID i)"
    by (auto simp: resolving_acked_def)
  with assms(2) show "acked_op t (br_BatchID r) (bi_operationID i)"
    by (auto simp: acked_op_def)
qed

lemma ack_invD:
  assumes "ack_inv s"
  shows "nb_opBatch (s_b s) op = Some bid \<Longrightarrow> acked_op s bid op"
    and "r \<in> set (nb_chans (s_b s) c) \<Longrightarrow> br_Err r = None \<Longrightarrow> acked_op s (br_BatchID r) (s_chanOp s c)"
    and "resolving_acked s"
  using assms by (auto simp: ack_inv_def)

lemma acked_op_ops_of: "i \<in> set items \<Longrightarrow> acked_op (s\<lparr>s_acked := A \<union> ops_of bid kind items\<rparr>) bid (bi_operationID i)"
  by (auto simp: acked_op_def ops_of_def)

lemma ack_register:
  assumes inv: "ack_inv s"
    and ob: "nb_opBatch (s_b t) = (\<lambda>op. if op \<in> bi_operationID ` set items then Some bid
       else nb_opBatch (s_b s) op)"
    and ch: "nb_chans (s_b t) = nb_chans (s_b s)" and co: "s_chanOp t = s_chanOp s"
    and ak: "s_acked t = s_acked s \<union> ops_of bid kind items"
    and re: "resolving_acked t"
  shows "ack_inv t"
proof -
  have mono: "acked_op t b' o'" if "acked_op s b' o'" for b' o'
    using that ak by (auto simp: acked_op_def)
  have new: "acked_op t bid op" if "op \<in> bi_operationID ` set items" for op
    using that ak by (auto simp: acked_op_def ops_of_def)
  show ?thesis unfolding ack_inv_def ob ch co
    using ack_invD [OF inv] mono new re by (auto split: if_splits)
qed

lemma ack_inv_step:
  assumes inv: "ack_inv s" and ci: "chan_inv s" and fl: "flight_inv s" and st: "sys_step s t"
  shows "ack_inv t"
  using st
proof cases
  case (call_inFlight item bid)
  let ?n = "nb_nextChan (s_b s)"
  from ci have emp: "nb_chans (s_b s) ?n = []" by (simp add: chan_inv_def buffers_inv_def)
  from call_inFlight(3) have "bi_operationID item \<in> nb_inFlight (s_b s)"
    and b: "bid = (case nb_opBatch (s_b s) (bi_operationID item) of None \<Rightarrow> [] | Some b \<Rightarrow> b)"
    by (auto simp: enqueue_check_def split: if_splits)
  with fl have "nb_opBatch (s_b s) (bi_operationID item) = Some bid"
    by (auto simp: flight_inv_def flight_ok_def)
  with ack_invD(1) [OF inv] have "acked_op s bid (bi_operationID item)" by blast
  moreover have "acked_op t = acked_op s" by (simp add: call_inFlight(1) acked_op_def fun_eq_iff)
  moreover have "resolving_acked t"
    by (rule resolving_acked_mono [OF ack_invD(3) [OF inv]]) (auto simp: call_inFlight(1))
  ultimately show ?thesis using ack_invD [OF inv] emp
    by (auto simp: ack_inv_def call_inFlight(1))
next
  case (call_checked item)
  have "nb_chans (s_b s) (nb_nextChan (s_b s)) = []"
    using ci by (simp add: chan_inv_def buffers_inv_def)
  moreover have "acked_op t = acked_op s" by (simp add: call_checked(1) acked_op_def fun_eq_iff)
  moreover have "resolving_acked t"
    by (rule resolving_acked_mono [OF ack_invD(3) [OF inv]]) (auto simp: call_checked(1))
  ultimately show ?thesis using ack_invD [OF inv]
    by (auto simp: ack_inv_def call_checked(1))
next
  case (call_join cs1 ch item cs2)
  have "r \<in> set (nb_chans (s_b s) c) \<or> br_Err r \<noteq> None"
    if "r \<in> set (nb_chans (enqueue_join ch item (s_b s)) c)" for r c
    using that queueFull_err
    by (auto simp: enqueue_join_def Let_def queueFull_def split: option.splits if_splits)
  moreover have "acked_op t = acked_op s" by (simp add: call_join(1) acked_op_def fun_eq_iff)
  moreover have "resolving_acked t"
    by (rule resolving_acked_mono [OF ack_invD(3) [OF inv]]) (auto simp: call_join(1))
  ultimately show ?thesis using ack_invD [OF inv]
    unfolding ack_inv_def call_join(1) by fastforce
next
  case (receive ch r rs)
  have "acked_op t = acked_op s" by (simp add: receive(1) acked_op_def fun_eq_iff)
  moreover have "resolving_acked t"
    by (rule resolving_acked_mono [OF ack_invD(3) [OF inv]]) (auto simp: receive(1))
  moreover have "r' \<in> set rs \<Longrightarrow> r' \<in> set (nb_chans (s_b s) ch)" for r'
    using receive(2) by simp
  ultimately show ?thesis using ack_invD [OF inv]
    by (auto simp: ack_inv_def receive(1))
next
  case (adds_acked adds removes bid now)
  then have "resolving_acked t"
    by (auto simp: resolving_acked_def acked_op_def ops_of_def)
  then show ?thesis by (intro ack_register [OF inv, of t adds bid opKindAdd]) (simp_all add: adds_acked(1))
next
  case (removes_acked removes bid now)
  then have "resolving_acked t"
    by (auto simp: resolving_acked_def acked_op_def ops_of_def)
  then show ?thesis
    by (intro ack_register [OF inv, of t removes bid opKindRemove]) (simp_all add: removes_acked(1))
next
  case (resolve_next r item items removes)
  let ?op = "bi_operationID item"
  have ch: "r' \<in> set (nb_chans (s_b s) c) \<or> r' = r \<and> s_chanOp s c = ?op"
    if "r' \<in> set (nb_chans (resolvePending ?op r (s_b s)) c)" for r' c
    using that chan_inv_waiters [OF ci, of c ?op]
    by (auto simp: resolvePending_chans [OF chan_inv_distinct_waiters [OF ci]] open_chan_def
        split: if_splits)
  have ak: "br_Err r = None \<Longrightarrow> acked_op s (br_BatchID r) ?op"
    using ack_invD(3) [OF inv] resolve_next(2) by (auto simp: resolving_acked_def)
  moreover have "acked_op t = acked_op s" by (simp add: resolve_next(1) acked_op_def fun_eq_iff)
  moreover have "resolving_acked t"
    by (rule resolving_acked_mono [OF ack_invD(3) [OF inv]]) (auto simp: resolve_next)
  ultimately show ?thesis using ack_invD [OF inv] ch
    unfolding ack_inv_def resolve_next(1) by fastforce
next
  case (poll_query now bid b')
  then have b': "b' = s_b s" by (auto elim: pollBatch_begin_cases)
  have "resolving_acked t"
    by (rule resolving_acked_mono [OF ack_invD(3) [OF inv]]) (auto simp: poll_query(1))
  then show ?thesis by (intro ack_inv_frame [OF inv]) (simp_all add: poll_query(1) b')
next
  case (poll_expired now bid kind items b')
  have "resolving_acked t"
    by (rule resolving_acked_mono [OF ack_invD(3) [OF inv]]) (auto simp: poll_expired(1))
  moreover from poll_expired(3) obtain bp where "nb_inProgress (s_b s) bid = Some bp"
    "b' = clearInFlightLocked (ipb_items bp)
      ((s_b s)\<lparr>nb_inProgress := (nb_inProgress (s_b s))(bid := None)\<rparr>)"
    by (auto elim: pollBatch_begin_cases)
  moreover have "acked_op t = acked_op s" by (simp add: poll_expired(1) acked_op_def fun_eq_iff)
  ultimately show ?thesis using ack_invD [OF inv]
    by (auto simp: ack_inv_def poll_expired(1) split: if_splits)
next
  case (poll_answer bid now results calls b')
  have ob: "nb_opBatch b' op = Some bid' \<Longrightarrow> nb_opBatch (s_b s) op = Some bid'" for op bid'
    using poll_answer(3)
  proof (cases rule: pollBatch_apply_cases)
    case (answer bp)
    from pollBatch_apply_answer(8) [OF answer poll_answer(3)]
    show "nb_opBatch b' op = Some bid' \<Longrightarrow> nb_opBatch (s_b s) op = Some bid'" by simp
  qed (auto split: if_splits)
  have "resolving_acked t"
    by (rule resolving_acked_mono [OF ack_invD(3) [OF inv]]) (auto simp: poll_answer(1))
  moreover have "acked_op t = acked_op s" by (simp add: poll_answer(1) acked_op_def fun_eq_iff)
  ultimately show ?thesis using ack_invD [OF inv] ob pollBatch_apply_frame [OF poll_answer(3)]
    by (auto simp: ack_inv_def poll_answer(1))
next
  case (resume now bid ops b')
  have "resolving_acked t"
    by (rule resolving_acked_mono [OF ack_invD(3) [OF inv]]) (auto simp: resume(1))
  with ResumeAddBatch_True(1) [OF resume(2)] show ?thesis
    by (intro ack_register [OF inv, of t "resumeItems ops" "trimSpace bid" opKindAdd])
      (simp_all add: resume(1))
qed (use ack_invD(3) [OF inv] in
  \<open>auto intro!: ack_inv_frame [OF inv] simp: resolving_acked_def acked_op_def sendFailure_def afterAdds_def
     afterTaking_def startSending_def Let_def split: prod.splits if_splits\<close>)

section \<open>Successes and failures\<close>

lemma success_inv_step:
  assumes inv: "success_inv s" and st: "sys_step s t"
  shows "success_inv t"
  using st
proof cases
  case (poll_query now bid b')
  with inv pollBatch_begin_frame [OF poll_query(3)] show ?thesis by (simp add: success_inv_def)
next
  case (poll_expired now bid kind items b')
  with inv pollBatch_begin_frame [OF poll_expired(3)] show ?thesis by (simp add: success_inv_def)
next
  case (poll_answer bid now results calls b')
  from poll_answer(3) show ?thesis
  proof (cases rule: pollBatch_apply_cases)
    case (answer bp)
    note ans = pollBatch_apply_answer(3) [OF answer poll_answer(3)]
    have new: "(bi_operationID i, Succeeded_state) \<in> s_reported t"
      if i: "i \<in> set (successesOf results bp)" for i
    proof -
      from i obtain r where r: "resultMap results (bi_operationID i) = Some r" "nr_State r = Succeeded_state"
        by (auto simp: successesOf_def reported_def)
      with resultMap_in [OF r(1)] show ?thesis by (force simp: poll_answer(1))
    qed
    have "op \<in> bi_operationID ` set (successesOf results bp) \<or> op \<in> dom (nb_succeeded (s_b s))"
      if "op \<in> dom (nb_succeeded b')" for op
      using that by (auto simp: ans split: if_splits option.splits)
    with inv new show ?thesis by (force simp: success_inv_def poll_answer(1))
  qed (use inv poll_answer in \<open>auto simp: success_inv_def\<close>)
next
  case (resume now bid ops b')
  with inv resume_frame [OF resume(2)] show ?thesis by (simp add: success_inv_def)
qed (use inv in \<open>auto simp: success_inv_def\<close>)

lemma calls_inv_append:
  assumes "calls_inv s" and "s_calls t = s_calls s @ calls" and "s_acked s \<subseteq> s_acked t"
    and "s_reported s \<subseteq> s_reported t"
    and "\<And>fn op kind detail. (fn, op, kind, detail) \<in> set calls \<Longrightarrow>
      (\<exists>bid. (bid, kind, op) \<in> s_acked t) \<and> (detail = expiredBatchDetail \<or> (op, Failed_state) \<in> s_reported t)"
  shows "calls_inv t"
  using assms unfolding calls_inv_def by (fastforce simp: split_beta)

lemma batch_ok_acked:
  "batch_ok acked bid bp \<Longrightarrow> op \<in> bi_operationID ` set (ipb_items bp) \<Longrightarrow> (bid, ipb_kind bp, op) \<in> acked"
  by (auto simp: batch_ok_def ops_of_def)

lemma calls_inv_step:
  assumes inv: "calls_inv s" and bi: "batches_inv s" and st: "sys_step s t"
  shows "calls_inv t"
  using st
proof cases
  case (poll_expired now bid kind items b')
  from poll_expired(3) obtain bp where bp: "nb_inProgress (s_b s) bid = Some bp"
    "kind = ipb_kind bp" "items = ipb_items bp" by (auto elim: pollBatch_begin_cases)
  from batch_ok_acked [OF batches_invD [OF bi bp(1)]] bp failItems_in show ?thesis
    by (intro calls_inv_append [OF inv, of t]) (fastforce simp: poll_expired(1))+
next
  case (poll_answer bid now results calls b')
  have "\<exists>bid. (bid, kind, op) \<in> s_acked s" "detail = expiredBatchDetail \<or> (op, Failed_state) \<in> s_reported t"
    if c: "(fn, op, kind, detail) \<in> set calls" for fn op kind detail
    using poll_answer(3)
  proof (atomize (full), cases rule: pollBatch_apply_cases)
    case (empty_drop bp)
    with c failItems_in have "op \<in> bi_operationID ` set (ipb_items bp)" "kind = ipb_kind bp"
      "detail = expiredBatchDetail" by blast+
    with batch_ok_acked [OF batches_invD [OF bi empty_drop(1)]]
    show "(\<exists>bid. (bid, kind, op) \<in> s_acked s) \<and> (detail = expiredBatchDetail \<or> (op, Failed_state) \<in> s_reported t)"
      by blast
  next
    case (answer bp)
    from c pollBatch_apply_answer(4) [OF answer poll_answer(3)] obtain i where
      i: "i \<in> set (failuresOf results bp)" "op = bi_operationID i" "kind = ipb_kind bp"
      by (auto split: option.splits)
    then obtain r where r: "resultMap results op = Some r" "nr_State r = Failed_state"
      by (auto simp: failuresOf_def reported_def)
    from resultMap_in [OF r(1)] r(2) have "(op, Failed_state) \<in> s_reported t"
      by (force simp: poll_answer(1))
    moreover from i batch_ok_acked [OF batches_invD [OF bi answer(1)]]
    have "(bid, kind, op) \<in> s_acked s" by (auto simp: failuresOf_def)
    ultimately show "(\<exists>bid. (bid, kind, op) \<in> s_acked s) \<and> (detail = expiredBatchDetail \<or> (op, Failed_state) \<in> s_reported t)"
      by blast
  qed (use c in simp_all)
  then show ?thesis
    by (intro calls_inv_append [OF inv, of t calls] conjI) (simp add: poll_answer(1), simp add: poll_answer(1),
      simp add: poll_answer(1) subset_iff, simp add: poll_answer(1), blast)
qed (use inv in \<open>auto intro!: calls_inv_append [OF inv, where calls = "[]"]\<close>)

section \<open>All invariants together\<close>

definition safe_inv :: "sys \<Rightarrow> bool" where
  "safe_inv s \<longleftrightarrow> work_inv s \<and> chan_inv s \<and> items_inv s \<and> batches_inv s \<and> flight_inv s \<and> ack_inv s \<and>
     success_inv s \<and> calls_inv s"

lemma safe_inv_init: "sys_init s \<Longrightarrow> safe_inv s"
  using work_inv_init chan_inv_init
  by (auto simp: safe_inv_def sys_init_def items_inv_def batches_inv_def flight_inv_def ack_inv_def
      resolving_acked_def success_inv_def calls_inv_def NewNodeBatcher_def SetFailureHandler_def
      defaultMaxBatchSize_def)

lemma safe_inv_step: "safe_inv s \<Longrightarrow> sys_step s t \<Longrightarrow> safe_inv t"
  unfolding safe_inv_def
  by (intro conjI) (blast intro: work_inv_step chan_inv_step items_inv_step batches_inv_step
    flight_inv_step ack_inv_step success_inv_step calls_inv_step)+

interpretation batcher: invariant_system sys_init sys_step safe_inv
  by unfold_locales (auto intro: safe_inv_init safe_inv_step)

end
