(* ===== verification/Batcher_Exec.thy ===== *)
theory Batcher_Exec
  imports Batcher_History
begin

text \<open>
  The transition system of \<open>Batcher_System\<close> as an executable scheduler: an action chooses which
  goroutine moves and what the outside world answers, \<open>exec\<close> makes the move. Every move is a step
  and every step is a move, so a schedule is an execution of the program, and example runs are
  evaluated.
\<close>

datatype action =
    Call batchItem
  | Join nat
  | Receive chan
  | Take
  | Window
  | StopSender
  | BrokerAcks time string
  | BrokerFails gerror
  | Resolve
  | PollBegin time string
  | PollError
  | PollAnswer time "nodeResult list"
  | Resume time string "string list"

fun exec_poll :: "time \<Rightarrow> string \<Rightarrow> sys \<Rightarrow> sys option" where
  "exec_poll now bid s =
     (case pollBatch_begin now bid (s_b s) of
        (PollSkip, b') \<Rightarrow> None
      | (PollQuery, b') \<Rightarrow> Some (s\<lparr>s_b := b', s_poller := PollerWaiting bid\<rparr>)
      | (PollExpired kind items, b') \<Rightarrow>
          Some (s\<lparr>s_b := b', s_calls := s_calls s @ failItems kind items expiredBatchDetail b'\<rparr>))"

fun exec :: "action \<Rightarrow> sys \<Rightarrow> sys option" where
  "exec (Call item) s =
     (if bi_kind item = opKindAdd \<or> bi_kind item = opKindRemove
      then (case enqueue_check (bi_operationID item) (s_b s) of
              Some bid \<Rightarrow> Some (s\<lparr>s_b := sendChan (ackResult bid) (nb_nextChan (s_b s)) (snd (makeChan (s_b s))),
                s_chanOp := (s_chanOp s)(nb_nextChan (s_b s) := bi_operationID item)\<rparr>)
            | None \<Rightarrow> Some (s\<lparr>s_b := snd (makeChan (s_b s)),
                s_checked := s_checked s @ [(nb_nextChan (s_b s), item)],
                s_chanOp := (s_chanOp s)(nb_nextChan (s_b s) := bi_operationID item)\<rparr>))
      else None)"
| "exec (Join k) s =
     (if k < length (s_checked s)
      then (case s_checked s ! k of (ch, item) \<Rightarrow>
              Some (s\<lparr>s_b := enqueue_join ch item (s_b s),
                s_checked := take k (s_checked s) @ drop (Suc k) (s_checked s)\<rparr>))
      else None)"
| "exec (Receive ch) s =
     (case nb_chans (s_b s) ch of
        [] \<Rightarrow> None
      | r # rs \<Rightarrow> Some (s\<lparr>s_b := (s_b s)\<lparr>nb_chans := (nb_chans (s_b s))(ch := rs)\<rparr>\<rparr>))"
| "exec Take s =
     (case nb_queue (s_b s) of
        [] \<Rightarrow> None
      | item # q \<Rightarrow>
          (case s_sender s of
             Idle \<Rightarrow> Some (s\<lparr>s_b := (s_b s)\<lparr>nb_queue := q\<rparr>,
               s_sender := afterTaking (nb_maxBatchSize (s_b s)) [item]\<rparr>)
           | Collecting batch \<Rightarrow> Some (s\<lparr>s_b := (s_b s)\<lparr>nb_queue := q\<rparr>,
               s_sender := afterTaking (nb_maxBatchSize (s_b s)) (batch @ [item])\<rparr>)
           | _ \<Rightarrow> None))"
| "exec Window s =
     (case s_sender s of
        Collecting batch \<Rightarrow> Some (s\<lparr>s_sender := startSending batch\<rparr>)
      | _ \<Rightarrow> None)"
| "exec StopSender s = (case s_sender s of Idle \<Rightarrow> Some (s\<lparr>s_sender := Stopped\<rparr>) | _ \<Rightarrow> None)"
| "exec (BrokerAcks now bid) s =
     (if nb_inProgress (s_b s) bid = None
      then (case s_sender s of
              SendingAdds adds removes \<Rightarrow> Some (s\<lparr>s_b := registerBatch now opKindAdd bid adds (s_b s),
                s_sender := Resolving (ackResult bid) adds removes,
                s_acked := s_acked s \<union> ops_of bid opKindAdd adds\<rparr>)
            | SendingRemoves removes \<Rightarrow> Some (s\<lparr>s_b := registerBatch now opKindRemove bid removes (s_b s),
                s_sender := Resolving (ackResult bid) removes [],
                s_acked := s_acked s \<union> ops_of bid opKindRemove removes\<rparr>)
            | _ \<Rightarrow> None)
      else None)"
| "exec (BrokerFails e) s =
     (case s_sender s of
        SendingAdds adds removes \<Rightarrow>
          Some (s\<lparr>s_sender := Resolving (sendFailure opKindAdd e) adds removes\<rparr>)
      | SendingRemoves removes \<Rightarrow>
          Some (s\<lparr>s_sender := Resolving (sendFailure opKindRemove e) removes []\<rparr>)
      | _ \<Rightarrow> None)"
| "exec Resolve s =
     (case s_sender s of
        Resolving r [] removes \<Rightarrow> Some (s\<lparr>s_sender := afterAdds removes\<rparr>)
      | Resolving r (item # items) removes \<Rightarrow>
          Some (s\<lparr>s_b := resolvePending (bi_operationID item) r (s_b s),
            s_sender := Resolving r items removes\<rparr>)
      | _ \<Rightarrow> None)"
| "exec (PollBegin now bid) s =
     (case s_poller s of PollerIdle \<Rightarrow> exec_poll now bid s | _ \<Rightarrow> None)"
| "exec PollError s =
     (case s_poller s of
        PollerWaiting bid \<Rightarrow> Some (s\<lparr>s_poller := PollerIdle\<rparr>)
      | _ \<Rightarrow> None)"
| "exec (PollAnswer now results) s =
     (case s_poller s of
        PollerWaiting bid \<Rightarrow>
          (case pollBatch_apply now bid results (s_b s) of (calls, b') \<Rightarrow>
             Some (s\<lparr>s_b := b', s_poller := PollerIdle, s_calls := s_calls s @ calls,
               s_reported := s_reported s \<union> (\<lambda>r. (nr_OperationId r, nr_State r)) ` set results\<rparr>))
      | _ \<Rightarrow> None)"
| "exec (Resume now bid ops) s =
     (case ResumeAddBatch now bid ops (s_b s) of
        (True, b') \<Rightarrow> Some (s\<lparr>s_b := b',
          s_acked := s_acked s \<union> ops_of (trimSpace bid) opKindAdd (resumeItems ops)\<rparr>)
      | (False, b') \<Rightarrow> None)"

fun run :: "action list \<Rightarrow> sys \<Rightarrow> sys option" where
  "run [] s = Some s"
| "run (a # as) s = (case exec a s of None \<Rightarrow> None | Some t \<Rightarrow> run as t)"

lemma exec_sound: "exec a s = Some t \<Longrightarrow> sys_step s t"
proof (induction a s rule: exec.induct)
  case (2 k s)
  then obtain ch item where k: "k < length (s_checked s)" "s_checked s ! k = (ch, item)"
    and t: "t = s\<lparr>s_b := enqueue_join ch item (s_b s),
      s_checked := take k (s_checked s) @ drop (Suc k) (s_checked s)\<rparr>"
    by (auto split: if_splits prod.splits)
  from k have "s_checked s = take k (s_checked s) @ (ch, item) # drop (Suc k) (s_checked s)"
    by (metis id_take_nth_drop)
  then show ?case unfolding t by (rule sys_step.call_join)
next
  case (10 now bid s)
  then show ?case
    by (auto split: pollerPc.splits prod.splits pollStart.splits intro: sys_step.intros)
qed (auto split: if_splits option.splits list.splits senderPc.splits pollerPc.splits prod.splits
    bool.splits intro: sys_step.intros)

lemma exec_complete: "sys_step s t \<Longrightarrow> \<exists>a. exec a s = Some t"
proof (induction rule: sys_step.induct)
  case (call_inFlight item s bid)
  then show ?case by (intro exI [of _ "Call item"]) simp
next
  case (call_checked item s)
  then show ?case by (intro exI [of _ "Call item"]) simp
next
  case (call_join s cs1 ch item cs2)
  then show ?case by (intro exI [of _ "Join (length cs1)"]) (simp add: nth_append)
next
  case (receive s ch r rs)
  then show ?case by (intro exI [of _ "Receive ch"]) simp
next
  case (take_first s item q)
  then show ?case by (intro exI [of _ Take]) simp
next
  case (take_next s batch item q)
  then show ?case by (intro exI [of _ Take]) simp
next
  case (window_over s batch)
  then show ?case by (intro exI [of _ Window]) simp
next
  case (sender_stops s)
  then show ?case by (intro exI [of _ StopSender]) simp
next
  case (adds_acked s adds removes bid now)
  then show ?case by (intro exI [of _ "BrokerAcks now bid"]) simp
next
  case (adds_failed s adds removes e)
  then show ?case by (intro exI [of _ "BrokerFails e"]) simp
next
  case (removes_acked s removes bid now)
  then show ?case by (intro exI [of _ "BrokerAcks now bid"]) simp
next
  case (removes_failed s removes e)
  then show ?case by (intro exI [of _ "BrokerFails e"]) simp
next
  case (resolve_next s r item items removes)
  then show ?case by (intro exI [of _ Resolve]) simp
next
  case (resolve_done s r removes)
  then show ?case by (intro exI [of _ Resolve]) simp
next
  case (poll_query s now bid b')
  then show ?case by (intro exI [of _ "PollBegin now bid"]) simp
next
  case (poll_expired s now bid kind items b')
  then show ?case by (intro exI [of _ "PollBegin now bid"]) simp
next
  case (poll_error s bid)
  then show ?case by (intro exI [of _ PollError]) simp
next
  case (poll_answer s bid now results calls b')
  then show ?case by (intro exI [of _ "PollAnswer now results"]) simp
next
  case (resume now bid ops s b')
  then show ?case by (intro exI [of _ "Resume now bid ops"]) simp
qed

lemma run_steps: "run as s = Some t \<Longrightarrow> sys_step\<^sup>*\<^sup>* s t"
proof (induction as arbitrary: s)
  case (Cons a as)
  then obtain u where "exec a s = Some u" "run as u = Some t" by (auto split: option.splits)
  with Cons.IH exec_sound show ?case by (meson converse_rtranclp_into_rtranclp)
qed simp

lemma steps_reach: "sys_step\<^sup>*\<^sup>* s t \<Longrightarrow> reach sys_init sys_step s \<Longrightarrow> reach sys_init sys_step t"
  by (induction rule: rtranclp_induct) (auto intro: reach_step)

section \<open>Example runs\<close>

definition boot :: sys where
  "boot = \<lparr>s_b = SetFailureHandler (Some 7) NewNodeBatcher, s_sender = Idle,
     s_poller = PollerIdle, s_checked = [], s_calls = [], s_acked = {}, s_chanOp = (\<lambda>_. []),
     s_reported = {}\<rparr>"

lemma reach_boot: "reach sys_init sys_step boot"
  by (rule reach_init) (auto simp: sys_init_def boot_def)

definition after :: "action list \<Rightarrow> sys" where
  "after as = (case run as boot of Some t \<Rightarrow> t | None \<Rightarrow> boot)"

lemma reach_after: "reach sys_init sys_step (after as)"
  using steps_reach [OF run_steps reach_boot] reach_boot
  by (auto simp: after_def split: option.splits)

definition anItem :: "string \<Rightarrow> string \<Rightarrow> batchItem" where
  "anItem kind op = \<lparr>bi_operationID = op, bi_kind = kind, bi_req = zeroAddReq,
     bi_removeReq = zeroRemoveReq\<rparr>"

definition aResult :: "string \<Rightarrow> opState \<Rightarrow> nodeResult" where
  "aResult op st = \<lparr>nr_OperationId = op, nr_State = st, nr_ProviderIds = [], nr_Detail = ''d''\<rparr>"

text \<open>One operation queued, sent, acknowledged and polled.\<close>

definition toQueued :: "action list" where
  "toQueued = [Call (anItem opKindAdd ''u''), Join 0]"

definition toAcked :: "action list" where
  "toAcked = toQueued @ [Take, Window, BrokerAcks 0 ''b'']"

definition toPolled :: "opState \<Rightarrow> action list" where
  "toPolled st = toAcked @ [Resolve, Resolve, PollBegin (130 * second) ''b'',
     PollAnswer (131 * second) [aResult ''u'' st]]"

lemmas run_eval = after_def boot_def toQueued_def toAcked_def toPolled_def anItem_def aResult_def
  SetFailureHandler_def NewNodeBatcher_def enqueue_check_def makeChan_def enqueue_join_def
  afterTaking_def startSending_def partitionBatch_def afterAdds_def registerBatch_def
  resolvePending_def sendChan_def pollBatch_begin_def pollBatch_apply_def pollItems_def
  pollItem_def resultMap_def clearInFlightLocked_def pruneSucceededLocked_def failItems_def
  failureHandlerFn_def opKindAdd_def opKindRemove_def second_def defaultMaxBatchSize_def
  defaultInitialDelay_def batchItemQueueBuffer_def maxBatchAge_def succeededRetention_def
  maxConsecutiveEmptyPolls_def ops_of_def ackResult_def

lemma run_append: "run (as @ bs) s = (case run as s of None \<Rightarrow> None | Some t \<Rightarrow> run bs t)"
  by (induction as arbitrary: s) (auto split: option.splits)

lemma after_polled:
  "s_calls (after (toPolled Failed_state)) = [(7, ''u'', opKindAdd, ''d'')]"
  by (simp add: run_eval)

end
