(* ===== verification/Batcher_Properties.thy ===== *)
theory Batcher_Properties
  imports Batcher_Exec
begin

text \<open>
  The properties of the batcher: first those of every reachable state of the interleaved system,
  then those of the single operations.
\<close>

lemma reach_safe: "reach sys_init sys_step s \<Longrightarrow> safe_inv s"
  by (rule batcher.reach_inv)

section \<open>Every reachable state\<close>

lemma count_distinct: "distinct xs \<Longrightarrow> count_list xs x = (if x \<in> set xs then 1 else 0)"
  by (induction xs) auto





text \<open>
  C5: A retry is suppressed only while its operation is tracked: in every reachable state, an
  operation marked in flight is an item of the batch the batcher remembers for it, that batch is in
  progress under that ID, and the broker had acknowledged the operation in that batch. So the answer
  the caller gets at once names a batch the poller still polls.
\<close>
theorem in_flight_is_tracked:
  assumes "reach sys_init sys_step s" and "enqueue_check op (s_b s) = Some bid"
  shows "\<exists>bp. nb_inProgress (s_b s) bid = Some bp \<and> ipb_batchID bp = bid \<and>
    op \<in> bi_operationID ` set (ipb_items bp) \<and> (bid, ipb_kind bp, op) \<in> s_acked s"
proof -
  from reach_safe [OF assms(1)] have fi: "flight_inv s" and bi: "batches_inv s"
    by (auto simp: safe_inv_def)
  from assms(2) fi obtain bp where bp: "nb_inProgress (s_b s) bid = Some bp"
    "op \<in> bi_operationID ` set (ipb_items bp)"
    by (auto simp: enqueue_check_def flight_inv_def flight_ok_def split: if_splits)
  from batches_invD [OF bi bp(1)] batch_ok_acked [OF batches_invD [OF bi bp(1)] bp(2)] bp
  show ?thesis by (auto simp: batch_ok_def)
qed

theorem in_flight_is_tracked_witness:
  "\<exists>bp. nb_inProgress (s_b (after toAcked)) ''b'' = Some bp \<and> ''u'' \<in> bi_operationID ` set (ipb_items bp)"
proof -
  have "enqueue_check ''u'' (s_b (after toAcked)) = Some ''b''" by (simp add: run_eval)
  from in_flight_is_tracked [OF reach_after this] show ?thesis by blast
qed

text \<open>
  C6: What a caller receives is true: a result without an error on a channel names a batch in
  which the broker acknowledged (or a resume registered) exactly the operation the channel was made
  for, for the channels of new callers, of joined retries and of retries of operations in flight.
\<close>
theorem acknowledgement_sound:
  assumes "reach sys_init sys_step s" and "r \<in> set (nb_chans (s_b s) c)" and "br_Err r = None"
  shows "\<exists>kind. (br_BatchID r, kind, s_chanOp s c) \<in> s_acked s"
  using reach_safe [OF assms(1)] ack_invD(2) [of s r c] assms(2,3)
  by (auto simp: safe_inv_def acked_op_def)

theorem acknowledgement_sound_witness:
  "\<exists>kind. (''b'', kind, ''u'') \<in> s_acked (after (toAcked @ [Resolve]))"
proof -
  have "ackResult ''b'' \<in> set (nb_chans (s_b (after (toAcked @ [Resolve]))) 0)"
    "s_chanOp (after (toAcked @ [Resolve])) 0 = ''u''"
    by (simp_all add: run_eval)
  with acknowledgement_sound [OF reach_after, of "ackResult ''b''" "toAcked @ [Resolve]" 0]
  show ?thesis by simp
qed

text \<open>
  C7: \<open>Succeeded\<close> never lies: it answers true only for an operation a poll answer of the broker
  reported as succeeded, so a node is not taken for provisioned on a mere acknowledgement.
\<close>
theorem succeeded_sound:
  assumes "reach sys_init sys_step s" and "Succeeded op (s_b s)"
  shows "(op, Succeeded_state) \<in> s_reported s"
  using reach_safe [OF assms(1)] assms(2) by (auto simp: safe_inv_def success_inv_def Succeeded_def)

theorem succeeded_sound_witness:
  "(''u'', Succeeded_state) \<in> s_reported (after (toPolled Succeeded_state))"
  by (rule succeeded_sound [OF reach_after]) (simp add: run_eval Succeeded_def)

text \<open>
  The failure handler, which deletes node claims, is called only with cause: every call is
  for an operation the broker had acknowledged with that kind, and either the broker reported that
  operation as failed or the call says the batch expired at the broker.
\<close>
theorem failure_calls_justified:
  assumes "reach sys_init sys_step s" and "(fn, op, kind, detail) \<in> set (s_calls s)"
  shows "(\<exists>bid. (bid, kind, op) \<in> s_acked s) \<and>
    (detail = expiredBatchDetail \<or> (op, Failed_state) \<in> s_reported s)"
  using reach_safe [OF assms(1)] assms(2) by (auto simp: safe_inv_def calls_inv_def)

theorem failure_calls_justified_witness:
  "\<exists>bid. (bid, opKindAdd, ''u'') \<in> s_acked (after (toPolled Failed_state))"
proof -
  have "(7, ''u'', opKindAdd, ''d'') \<in> set (s_calls (after (toPolled Failed_state)))"
    by (simp add: run_eval)
  from failure_calls_justified [OF reach_after this] show ?thesis by blast
qed

text \<open>
  The batches are well formed: what the sender hands to the broker never exceeds the maximum
  batch size, the adds and the removes are never mixed, and every batch in progress is non-empty,
  of one kind, keyed by its own ID, and dropped before its third empty poll is recorded.
\<close>
theorem batches_well_formed:
  assumes "reach sys_init sys_step s"
  shows "(\<forall>adds removes. s_sender s = SendingAdds adds removes \<longrightarrow>
      adds \<noteq> [] \<and> length adds + length removes \<le> nb_maxBatchSize (s_b s) \<and>
      (\<forall>i \<in> set adds. bi_kind i = opKindAdd) \<and> (\<forall>i \<in> set removes. bi_kind i = opKindRemove)) \<and>
    (\<forall>bid bp. nb_inProgress (s_b s) bid = Some bp \<longrightarrow> ipb_batchID bp = bid \<and> ipb_items bp \<noteq> [] \<and>
      (\<forall>i \<in> set (ipb_items bp). bi_kind i = ipb_kind bp) \<and>
      ipb_emptyPolls bp < maxConsecutiveEmptyPolls) \<and>
    length (nb_queue (s_b s)) \<le> batchItemQueueBuffer"
  using reach_safe [OF assms]
  by (auto simp: safe_inv_def items_inv_def batches_inv_def batch_ok_def all_kind_def)

theorem batches_well_formed_witness:
  "map_option ipb_batchID (nb_inProgress (s_b (after toAcked)) ''b'') = Some ''b'' \<and>
   (\<exists>i. s_sender (after (toQueued @ [Take, Window])) = SendingAdds [i] [] \<and> bi_kind i = opKindAdd)"
proof -
  obtain bp where bp: "nb_inProgress (s_b (after toAcked)) ''b'' = Some bp" by (simp add: run_eval)
  moreover from batches_well_formed [OF reach_after [of toAcked]] bp have "ipb_batchID bp = ''b''" by blast
  moreover have s: "s_sender (after (toQueued @ [Take, Window])) = SendingAdds [anItem opKindAdd ''u''] []"
    by (simp add: run_eval)
  ultimately show ?thesis by (simp add: anItem_def)
qed

end
