(* ===== verification/Batcher_Progress.thy ===== *)
theory Batcher_Progress
  imports Batcher_Exec
begin

text \<open>
  The sender goroutine gets every waiter its answer, and the uninterrupted operations of
  \<open>Batcher\<close> are runs of the interleaved system.
\<close>

section \<open>The sender drains\<close>

text \<open>
  One move of the sender goroutine alone, with a broker that refuses every batch: how much it still
  has to do.
\<close>

fun senderWork :: "senderPc \<Rightarrow> nat" where
  "senderWork Idle = 0"
| "senderWork (Collecting batch) = 1 + 8 * length batch"
| "senderWork (SendingAdds adds removes) = 6 * length adds + 6 * length removes"
| "senderWork (SendingRemoves removes) = 5 * length removes"
| "senderWork (Resolving r items removes) = 1 + length items + 6 * length removes"
| "senderWork Stopped = 0"

definition work :: "sys \<Rightarrow> nat" where
  "work s = 10 * length (nb_queue (s_b s)) + senderWork (s_sender s)"

definition senderMove :: "gerror \<Rightarrow> sys \<Rightarrow> action" where
  "senderMove e s =
     (case s_sender s of
        Idle \<Rightarrow> Take
      | Collecting batch \<Rightarrow> Window
      | SendingAdds adds removes \<Rightarrow> BrokerFails e
      | SendingRemoves removes \<Rightarrow> BrokerFails e
      | _ \<Rightarrow> Resolve)"

lemma work_startSending: "batch \<noteq> [] \<Longrightarrow> senderWork (startSending batch) < 1 + 8 * length batch"
proof -
  assume "batch \<noteq> []"
  moreover have "length (filter (\<lambda>i. bi_kind i \<noteq> opKindRemove) batch)
      + length (filter (\<lambda>i. bi_kind i = opKindRemove) batch) = length batch"
    by (simp add: sum_length_filter_compl add.commute)
  ultimately show ?thesis
    by (cases "filter (\<lambda>i. bi_kind i \<noteq> opKindRemove) batch = []";
        cases "filter (\<lambda>i. bi_kind i = opKindRemove) batch = []")
      (simp_all add: startSending_def partitionBatch_eq afterAdds_def del: filter_empty_conv)
qed

lemma work_afterAdds: "senderWork (afterAdds removes) < 1 + 6 * length removes"
  by (simp add: afterAdds_def)

lemma sender_moves:
  assumes inv: "items_inv s" and live: "s_sender s \<noteq> Stopped" and busy: "work s \<noteq> 0"
  shows "\<exists>t. exec (senderMove e s) s = Some t \<and> work t < work s \<and> s_sender t \<noteq> Stopped"
proof (cases "s_sender s")
  case Idle
  with busy obtain item q where q: "nb_queue (s_b s) = item # q"
    by (cases "nb_queue (s_b s)") (auto simp: work_def)
  from Idle inv q show ?thesis
    using work_startSending [of "[item]"]
    by (auto simp: work_def senderMove_def afterTaking_def items_inv_def)
next
  case (Collecting batch)
  with inv have "batch \<noteq> []" by (simp add: items_inv_def)
  from work_startSending [OF this] Collecting show ?thesis
    by (auto simp: work_def senderMove_def startSending_def afterAdds_def Let_def split: prod.splits)
next
  case (SendingAdds adds removes)
  with inv have "adds \<noteq> []" by (simp add: items_inv_def)
  with SendingAdds show ?thesis by (cases adds) (simp_all add: work_def senderMove_def)
next
  case (SendingRemoves removes)
  with inv have "removes \<noteq> []" by (simp add: items_inv_def)
  with SendingRemoves show ?thesis by (cases removes) (simp_all add: work_def senderMove_def)
next
  case (Resolving r items removes)
  with work_afterAdds [of removes] show ?thesis
    by (cases items) (auto simp: work_def senderMove_def afterAdds_def)
qed (use live in simp)

lemma sender_drains_run:
  "safe_inv s \<Longrightarrow> s_sender s \<noteq> Stopped \<Longrightarrow>
   \<exists>as t. run as s = Some t \<and> length as \<le> work s \<and> nb_queue (s_b t) = [] \<and> s_sender t = Idle"
proof (induction "work s" arbitrary: s rule: less_induct)
  case less
  show ?case
  proof (cases "work s = 0")
    case True
    then have "s_sender s = Idle \<and> nb_queue (s_b s) = []"
      using less.prems by (cases "s_sender s") (auto simp: work_def safe_inv_def items_inv_def)
    then show ?thesis by (intro exI [of _ "[]"] exI [of _ s]) simp
  next
    case False
    obtain u where u: "exec (senderMove ContextDone s) s = Some u" "work u < work s" "s_sender u \<noteq> Stopped"
      using sender_moves [of s ContextDone] less.prems False by (auto simp: safe_inv_def)
    from batcher.inv_step [OF less.prems(1) exec_sound [OF u(1)]] have "safe_inv u" .
    from less.hyps [OF u(2) this u(3)] obtain as t where
      "run as u = Some t" "length as \<le> work u" "nb_queue (s_b t) = []" "s_sender t = Idle" by blast
    with u show ?thesis by (intro exI [of _ "senderMove ContextDone s # as"] exI [of _ t]) simp
  qed
qed



section \<open>Uninterrupted operations are runs\<close>

lemma run_enqueue:
  assumes k: "bi_kind item = opKindAdd \<or> bi_kind item = opKindRemove" and c: "s_checked s = []"
  shows "\<exists>as t. run as s = Some t \<and> s_b t = snd (enqueueItem item (s_b s)) \<and> length as \<le> 2 \<and>
    s_checked t = []"
proof (cases "enqueue_check (bi_operationID item) (s_b s)")
  case None
  then have n: "bi_operationID item \<notin> nb_inFlight (s_b s)" by (auto simp: enqueue_check_def)
  show ?thesis using k c None
    by (intro exI [of _ "[Call item, Join 0]"]) (simp add: enqueueItem_not_inFlight [OF n])
next
  case (Some bid)
  then have n: "bi_operationID item \<in> nb_inFlight (s_b s)"
    and b: "bid = (case nb_opBatch (s_b s) (bi_operationID item) of None \<Rightarrow> [] | Some b \<Rightarrow> b)"
    by (auto simp: enqueue_check_def split: if_splits)
  show ?thesis using k c Some
    by (intro exI [of _ "[Call item]"]) (simp add: enqueueItem_inFlight [OF n] b [symmetric])
qed

lemma run_resolve:
  "s_sender s = Resolving r items removes \<Longrightarrow>
   \<exists>t. run (replicate (Suc (length items)) Resolve) s = Some t \<and>
     t = s\<lparr>s_b := fold (\<lambda>i. resolvePending (bi_operationID i) r) items (s_b s),
       s_sender := afterAdds removes\<rparr>"
proof (induction items arbitrary: s)
  case Nil
  then show ?case by simp
next
  case (Cons i items)
  let ?s = "s\<lparr>s_b := resolvePending (bi_operationID i) r (s_b s), s_sender := Resolving r items removes\<rparr>"
  from Cons.IH [of ?s] Cons.prems show ?case by simp
qed

text \<open>What a broker's answer to a send makes the environment of the interleaved system do.\<close>

fun answerMove :: "time \<Rightarrow> string result \<Rightarrow> action" where
  "answerMove now (Inl e) = BrokerFails e"
| "answerMove now (Inr bid) = BrokerAcks now bid"

definition fresh_answer :: "string result \<Rightarrow> NodeBatcher \<Rightarrow> bool" where
  "fresh_answer a b \<longleftrightarrow> (\<forall>bid. a = Inr bid \<longrightarrow> nb_inProgress b bid = None)"

lemma run_sendAdds:
  assumes s: "s_sender s = SendingAdds adds removes"
    and a: "bb_SendBatch client (map toAddItem adds) w = (a, w')" and f: "fresh_answer a (s_b s)"
  shows "\<exists>as t. run as s = Some t \<and> s_sender t = afterAdds removes \<and>
    s_b t = snd (sendAddBatch client now adds (w, s_b s)) \<and> fst (sendAddBatch client now adds (w, s_b s)) = w'"
proof (cases a)
  case (Inl e)
  let ?s = "s\<lparr>s_sender := Resolving (sendFailure opKindAdd e) adds removes\<rparr>"
  from run_resolve [of ?s "sendFailure opKindAdd e" adds removes] Inl s a show ?thesis
    by (intro exI [of _ "BrokerFails e # replicate (Suc (length adds)) Resolve"])
      (auto simp: sendAddBatch_def failBatchSend_def)
next
  case (Inr bid)
  let ?s = "s\<lparr>s_b := registerBatch now opKindAdd bid adds (s_b s),
    s_sender := Resolving (ackResult bid) adds removes, s_acked := s_acked s \<union> ops_of bid opKindAdd adds\<rparr>"
  from run_resolve [of ?s "ackResult bid" adds removes] Inr s a f show ?thesis
    by (intro exI [of _ "BrokerAcks now bid # replicate (Suc (length adds)) Resolve"])
      (auto simp: sendAddBatch_def registerAndAck_def fresh_answer_def)
qed

lemma run_sendRemoves:
  assumes s: "s_sender s = SendingRemoves removes"
    and a: "bb_SendBatchRemove client (map toRemoveItem removes) w = (a, w')"
    and f: "fresh_answer a (s_b s)"
  shows "\<exists>as t. run as s = Some t \<and> s_sender t = Idle \<and>
    s_b t = snd (sendRemoveBatch client now removes (w, s_b s))"
proof (cases a)
  case (Inl e)
  let ?s = "s\<lparr>s_sender := Resolving (sendFailure opKindRemove e) removes []\<rparr>"
  from run_resolve [of ?s "sendFailure opKindRemove e" removes "[]"] Inl s a show ?thesis
    by (intro exI [of _ "BrokerFails e # replicate (Suc (length removes)) Resolve"])
      (auto simp: sendRemoveBatch_def failBatchSend_def afterAdds_def)
next
  case (Inr bid)
  let ?s = "s\<lparr>s_b := registerBatch now opKindRemove bid removes (s_b s),
    s_sender := Resolving (ackResult bid) removes [],
    s_acked := s_acked s \<union> ops_of bid opKindRemove removes\<rparr>"
  from run_resolve [of ?s "ackResult bid" removes "[]"] Inr s a f show ?thesis
    by (intro exI [of _ "BrokerAcks now bid # replicate (Suc (length removes)) Resolve"])
      (auto simp: sendRemoveBatch_def registerAndAck_def fresh_answer_def afterAdds_def)
qed

lemma run_trans: "run as s = Some t \<Longrightarrow> run bs t = Some u \<Longrightarrow> run (as @ bs) s = Some u"
  by (simp add: run_append)

text \<open>The broker returns no ID that is in progress at that moment, in the two calls of a send.\<close>

definition fresh_sends :: "'w batchBroker \<Rightarrow> time \<Rightarrow> batchItem list \<Rightarrow> 'w \<Rightarrow> NodeBatcher \<Rightarrow> bool" where
  "fresh_sends client now batch w b \<longleftrightarrow>
     (let (adds, removes) = partitionBatch batch;
          (w1, b1) = (if adds \<noteq> [] then sendAddBatch client now adds (w, b) else (w, b))
      in (adds \<noteq> [] \<longrightarrow> fresh_answer (fst (bb_SendBatch client (map toAddItem adds) w)) b) \<and>
         (removes \<noteq> [] \<longrightarrow> fresh_answer (fst (bb_SendBatchRemove client (map toRemoveItem removes) w1)) b1))"

lemma run_sendBatch:
  assumes s: "s_sender s = startSending batch" and f: "fresh_sends client now batch w (s_b s)"
  shows "\<exists>as t. run as s = Some t \<and> s_sender t = Idle \<and>
    s_b t = snd (sendBatch client now now' batch (w, s_b s))"
proof -
  obtain adds removes where p: "partitionBatch batch = (adds, removes)" by fastforce
  obtain w1 b1 where s1: "(if adds \<noteq> [] then sendAddBatch client now adds (w, s_b s) else (w, s_b s)) = (w1, b1)"
    by fastforce
  have fst_part: "\<exists>as t. run as s = Some t \<and> s_sender t = afterAdds removes \<and> s_b t = b1"
  proof (cases "adds = []")
    case True
    with s p s1 show ?thesis by (intro exI [of _ "[]"]) (simp add: startSending_def)
  next
    case False
    obtain a w' where a: "bb_SendBatch client (map toAddItem adds) w = (a, w')" by fastforce
    from False s p have "s_sender s = SendingAdds adds removes" by (simp add: startSending_def)
    from run_sendAdds [OF this a, of now] f p False a s1 show ?thesis by (auto simp: fresh_sends_def)
  qed
  then obtain as t where t: "run as s = Some t" "s_sender t = afterAdds removes" "s_b t = b1" by blast
  show ?thesis
  proof (cases "removes = []")
    case True
    with t p s1 show ?thesis by (intro exI [of _ as] exI [of _ t]) (simp add: afterAdds_def sendBatch_def)
  next
    case False
    obtain a w' where a: "bb_SendBatchRemove client (map toRemoveItem removes) w1 = (a, w')" by fastforce
    from f p s1 False a have fr: "fresh_answer a (s_b t)"
      by (simp add: fresh_sends_def t(3) split: if_splits)
    from False t(2) have "s_sender t = SendingRemoves removes" by (simp add: afterAdds_def)
    from run_sendRemoves [OF this a fr, of now'] obtain bs u where
      "run bs t = Some u" "s_sender u = Idle" "s_b u = snd (sendRemoveBatch client now' removes (w1, s_b t))"
      by blast
    with run_trans [OF t(1)] t(3) p s1 False show ?thesis
      by (intro exI [of _ "as @ bs"] exI [of _ u]) (simp add: sendBatch_def)
  qed
qed

text \<open>
  C11: The sequential text of the code is one schedule of the interleaved system: when no other
  goroutine moves in between, \<open>enqueueItem\<close> of an add or a remove and \<open>sendBatch\<close> of the batch the
  sender took are runs of it with the same final batcher state, if the broker hands out no batch ID
  that is in progress. So everything proved of the reachable states holds along the code as written.
\<close>
theorem sequential_code_is_a_schedule:
  "((bi_kind item = opKindAdd \<or> bi_kind item = opKindRemove) \<and> s_checked s = [] \<longrightarrow>
      (\<exists>as t. run as s = Some t \<and> s_b t = snd (enqueueItem item (s_b s)))) \<and>
   (s_sender s = startSending batch \<and> fresh_sends client now batch w (s_b s) \<longrightarrow>
      (\<exists>as t. run as s = Some t \<and> s_sender t = Idle \<and>
         s_b t = snd (sendBatch client now now' batch (w, s_b s))))"
proof (intro conjI impI; elim conjE)
  assume "bi_kind item = opKindAdd \<or> bi_kind item = opKindRemove" "s_checked s = []"
  from run_enqueue [OF this] show "\<exists>as t. run as s = Some t \<and> s_b t = snd (enqueueItem item (s_b s))"
    by blast
qed (rule run_sendBatch)

definition oneBroker :: "unit batchBroker" where
  "oneBroker = \<lparr>bb_SendBatch = (\<lambda>_ w. (Inr ''b'', w)), bb_SendBatchRemove = (\<lambda>_ w. (Inr ''c'', w)),
     bb_PollBatchStatus = (\<lambda>_ w. (Inr [], w)), bb_CancelOperations = (\<lambda>_ w. (Inr [], w))\<rparr>"

definition mixedBatch :: "batchItem list" where
  "mixedBatch = [anItem opKindAdd ''u'', anItem opKindRemove ''v'']"

theorem sequential_code_is_a_schedule_witness:
  "\<exists>as t. run as (boot\<lparr>s_sender := startSending mixedBatch\<rparr>) = Some t \<and>
     nb_opBatch (s_b t) ''u'' = Some ''b'' \<and> nb_opBatch (s_b t) ''v'' = Some ''c''"
proof -
  let ?s = "boot\<lparr>s_sender := startSending mixedBatch\<rparr>"
  have f: "fresh_sends oneBroker 0 mixedBatch () (s_b ?s)"
    by (simp add: fresh_sends_def mixedBatch_def oneBroker_def fresh_answer_def sendAddBatch_def run_eval registerAndAck_def)
  have r: "nb_opBatch (snd (sendBatch oneBroker 0 0 mixedBatch ((), s_b ?s))) ''u'' = Some ''b''"
    "nb_opBatch (snd (sendBatch oneBroker 0 0 mixedBatch ((), s_b ?s))) ''v'' = Some ''c''"
    by (simp_all add: sendBatch_def mixedBatch_def sendAddBatch_def sendRemoveBatch_def oneBroker_def registerAndAck_def
        run_eval)
  from sequential_code_is_a_schedule [of undefined ?s mixedBatch oneBroker 0 "()" 0] f r
  show ?thesis by fastforce
qed

end
