(* ===== verification/Batcher_Operations.thy ===== *)
theory Batcher_Operations
  imports Batcher_Exec
begin

text \<open>
  The properties of the single operations of the batcher: enqueueing, collecting, the poll loop, the
  poll answer, expiry; and the two schedules that show where the code departs from its comments.
\<close>

section \<open>Enqueueing\<close>

text \<open>
  \<open>enqueueItem\<close> has exactly four outcomes, on a channel of its own. In flight: the caller gets
  the batch ID at once and nothing is queued. Already awaited: the caller joins the waiters and
  nothing is queued. First and room in the queue: the item is queued with the caller as the only
  waiter. First and the queue full: the caller gets the queue-full error and the map entry is rolled
  back, so the operation stays free for the next attempt.
\<close>
theorem enqueue_outcomes:
  fixes item :: batchItem
  defines "op \<equiv> bi_operationID item"
  shows "fst (enqueueItem item b) = nb_nextChan b \<and>
    (let b' = snd (enqueueItem item b); ch = nb_nextChan b in
     nb_nextChan b' = Suc ch \<and>
     (if op \<in> nb_inFlight b
      then nb_chans b' ch = nb_chans b ch @ [ackResult (case nb_opBatch b op of None \<Rightarrow> [] | Some bid \<Rightarrow> bid)] \<and>
        nb_queue b' = nb_queue b \<and> nb_pending b' = nb_pending b
      else if nb_pending b op \<noteq> None
      then nb_chans b' = nb_chans b \<and> nb_queue b' = nb_queue b \<and>
        nb_pending b' = (nb_pending b)(op \<mapsto> waiters b op @ [ch])
      else if length (nb_queue b) < batchItemQueueBuffer
      then nb_chans b' = nb_chans b \<and> nb_queue b' = nb_queue b @ [item] \<and>
        nb_pending b' = (nb_pending b)(op \<mapsto> [ch])
      else nb_chans b' ch = nb_chans b ch @ [queueFull] \<and> nb_queue b' = nb_queue b \<and>
        nb_pending b' = nb_pending b))"
proof (cases "bi_operationID item \<in> nb_inFlight b")
  case True
  then show ?thesis by (simp add: enqueueItem_inFlight op_def Let_def)
next
  case nf: False
  let ?b = "snd (makeChan b)"
  show ?thesis
  proof (cases "nb_pending b (bi_operationID item)")
    case None
    then have "nb_pending ?b (bi_operationID item) = None" by simp
    with nf None enqueue_join_queued [OF this] enqueue_join_full [OF this] show ?thesis
      by (cases "length (nb_queue b) < batchItemQueueBuffer")
        (auto simp: enqueueItem_not_inFlight op_def Let_def makeChan_def)
  next
    case (Some ws)
    then have "nb_pending ?b (bi_operationID item) = Some ws" by simp
    with nf Some enqueue_join_dedup [OF this] show ?thesis
      by (auto simp: enqueueItem_not_inFlight op_def Let_def makeChan_def)
  qed
qed

section \<open>Collecting\<close>

fun arrivals :: "collectEvent list \<Rightarrow> batchItem list" where
  "arrivals [] = []"
| "arrivals (Arrived i # evs) = i # arrivals evs"
| "arrivals (_ # evs) = arrivals evs"

lemma collectMore_prefix:
  "collectMore n batch evs = (r, got) \<Longrightarrow> length batch < n \<Longrightarrow>
   length got \<le> n \<and> (\<exists>k. got = batch @ take k (arrivals evs)) \<and> (r = None \<or> r = Some got)"
proof (induction n batch evs rule: collectMore.induct)
  case (5 n batch item evs)
  show ?case
  proof (cases "n \<le> length (batch @ [item])")
    case True
    with 5 show ?thesis by (auto intro!: exI [of _ 1])
  next
    case False
    with 5 obtain k where "got = (batch @ [item]) @ take k (arrivals evs)"
      "length got \<le> n" "r = None \<or> r = Some got" by auto
    then show ?thesis by (auto intro!: exI [of _ "Suc k"])
  qed
qed (auto intro!: exI [of _ 0])

text \<open>
  \<open>collectBatch\<close> never holds more than the maximum batch size, and what it holds when it
  returns, or has so far, is a prefix of the items that arrived, in order: none is dropped,
  duplicated or reordered, whatever order the context's end, the timer, the closing of the queue
  and the arrivals come in.
\<close>
theorem collect_in_order:
  assumes "0 < maxSize" and "collectBatch maxSize evs = (r, batch)"
  shows "length batch \<le> maxSize \<and> batch = take (length batch) (arrivals evs) \<and>
    (r = None \<or> r = Some batch)"
  using assms
proof (induction maxSize evs rule: collectBatch.induct)
  case (5 n item evs)
  show ?case
  proof (cases "n \<le> 1")
    case True
    with 5 show ?thesis by auto
  next
    case False
    with 5 collectMore_prefix [of n "[item]" evs r batch] obtain k where
      "batch = item # take k (arrivals evs)" "length batch \<le> n" "r = None \<or> r = Some batch" by auto
    then show ?thesis by (auto simp: min_def)
  qed
qed auto

theorem collect_in_order_witness:
  "length (snd (collectBatch 2 [TimerFired, Arrived (anItem opKindAdd ''u''), Arrived (anItem opKindAdd ''v''), Arrived (anItem opKindAdd ''w'')])) \<le> 2"
  (is "length (snd (collectBatch 2 ?evs)) \<le> 2")
  using collect_in_order [of 2 ?evs "fst (collectBatch 2 ?evs)" "snd (collectBatch 2 ?evs)"] by simp

section \<open>Polling\<close>

text \<open>
  C9: The poll loop may reuse the batch's own slice: although \<open>remaining\<close> overwrites the
  cells of the array the loop is reading, it computes exactly the filter. What remains is the
  unresolved items in order, \<open>allDone\<close> holds just when there are none, the failures are those
  reported failed, in order with their details, the successes are recorded with the time of the
  answer, and exactly the resolved operations leave the in-flight set.
\<close>
theorem poll_loop_is_filter:
  "let st = pollItems rm now items b in
   take (pl_len st) (pl_arr st) = filter (unresolved rm) items \<and>
   (pl_allDone st \<longleftrightarrow> filter (unresolved rm) items = []) \<and>
   pl_failed st = map (failureOf rm) (filter (reported Failed_state rm) items) \<and>
   pl_succeeded st = (\<lambda>op. if op \<in> bi_operationID ` set (filter (reported Succeeded_state rm) items)
     then Some now else nb_succeeded b op) \<and>
   pl_inFlight st = nb_inFlight b - bi_operationID ` set (filter (\<lambda>x. \<not> unresolved rm x) items)"
  using pollItems_spec [of rm now items b] unfolding pollLoopSpec_def Let_def by blast

text \<open>
  The effect of a non-empty poll answer on a tracked batch: the batch keeps just its
  unresolved items, with its empty-poll count back at zero, or is dropped when none remains; the
  operations the answer resolved leave the in-flight set; each reported success is recorded, older
  records are kept exactly while they are within the retention; and the failure handler, if there is
  one, is called once for each item reported failed, in order, with the batch's kind and the detail
  the broker gave.
\<close>
theorem poll_answer_effect:
  assumes "nb_inProgress b bid = Some bp" and "results \<noteq> []"
    and "pollBatch_apply now bid results b = (calls, b')"
  shows "nb_inProgress b' bid = (if stays results bp = [] then None
       else Some (bp\<lparr>ipb_emptyPolls := 0, ipb_items := stays results bp\<rparr>)) \<and>
    (\<forall>bid'. bid' = bid \<or> nb_inProgress b' bid' = nb_inProgress b bid') \<and>
    nb_inFlight b' = nb_inFlight b - bi_operationID ` set (leaves results bp) \<and>
    nb_succeeded b' = (\<lambda>op. if op \<in> bi_operationID ` set (successesOf results bp) then Some now
      else (case nb_succeeded b op of None \<Rightarrow> None
            | Some at \<Rightarrow> if now - at > succeededRetention then None else Some at)) \<and>
    calls = (case nb_failureHandler b of None \<Rightarrow> []
      | Some fn \<Rightarrow> map (\<lambda>i. (fn, bi_operationID i, ipb_kind bp,
          nr_Detail (the (resultMap results (bi_operationID i))))) (failuresOf results bp))"
  using pollBatch_apply_answer(1-4) [OF assms] by simp

definition aBatch :: inProgressBatch where
  "aBatch = \<lparr>ipb_batchID = ''b'', ipb_kind = opKindAdd, ipb_items = [anItem opKindAdd ''u'', anItem opKindAdd ''v''],
     ipb_sentAt = 0, ipb_pollAfter = 0, ipb_emptyPolls = 0\<rparr>"

definition aBatcher :: NodeBatcher where
  "aBatcher = NewNodeBatcher\<lparr>nb_inProgress := [''b'' \<mapsto> aBatch], nb_inFlight := {''u'', ''v''},
     nb_failureHandler := Some 7\<rparr>"

theorem poll_answer_effect_witness:
  "nb_inFlight (snd (pollBatch_apply 5 ''b'' [aResult ''u'' Failed_state] aBatcher)) = {''v''} \<and>
   fst (pollBatch_apply 5 ''b'' [aResult ''u'' Failed_state] aBatcher) = [(7, ''u'', opKindAdd, ''d'')]"
proof -
  have bp: "nb_inProgress aBatcher ''b'' = Some aBatch" by (simp add: aBatcher_def)
  have "failuresOf [aResult ''u'' Failed_state] aBatch = [anItem opKindAdd ''u'']"
    "leaves [aResult ''u'' Failed_state] aBatch = [anItem opKindAdd ''u'']"
    "nb_inFlight aBatcher = {''u'', ''v''}" "nb_failureHandler aBatcher = Some 7"
    "bi_operationID (anItem opKindAdd ''u'') = ''u''" "ipb_kind aBatch = opKindAdd"
    "nr_Detail (the (resultMap [aResult ''u'' Failed_state] ''u'')) = ''d''"
    by (simp_all add: failuresOf_def leaves_def unresolved_def reported_def resultMap_def aBatch_def
        anItem_def aResult_def aBatcher_def)
  with poll_answer_effect [OF bp, of "[aResult ''u'' Failed_state]" 5
      "fst (pollBatch_apply 5 ''b'' [aResult ''u'' Failed_state] aBatcher)"
      "snd (pollBatch_apply 5 ''b'' [aResult ''u'' Failed_state] aBatcher)"]
  show ?thesis by simp
qed

lemma apply_empty:
  assumes "nb_inProgress b bid = Some bp"
  shows "Suc (ipb_emptyPolls bp) < maxConsecutiveEmptyPolls \<Longrightarrow>
      pollBatch_apply now bid [] b = ([], b\<lparr>nb_inProgress := (nb_inProgress b)(bid \<mapsto>
        bp\<lparr>ipb_emptyPolls := Suc (ipb_emptyPolls bp)\<rparr>)\<rparr>)"
    and "maxConsecutiveEmptyPolls \<le> Suc (ipb_emptyPolls bp) \<Longrightarrow>
      pollBatch_apply now bid [] b = (failItems (ipb_kind bp) (ipb_items bp) expiredBatchDetail b,
        clearInFlightLocked (ipb_items bp) (b\<lparr>nb_inProgress := (nb_inProgress b)(bid := None)\<rparr>))"
  using assms by (simp_all add: pollBatch_apply_def Let_def failItems_def failureHandlerFn_def)

text \<open>
  A batch the broker forgot, or one too old, is given up, and only then: two empty answers in
  a row change nothing but the count; the third drops the batch, frees every one of its operations
  for a retry and reports every item as expired. A batch older than the maximum age is dropped the
  same way at its next poll, without asking the broker; and before its initial delay it is left
  alone.
\<close>
theorem batch_expiry:
  assumes bp: "nb_inProgress b bid = Some bp" and e: "ipb_emptyPolls bp = 0"
    and p1: "pollBatch_apply t1 bid [] b = (c1, b1)" and p2: "pollBatch_apply t2 bid [] b1 = (c2, b2)"
    and p3: "pollBatch_apply t3 bid [] b2 = (c3, b3)"
  shows "c1 = [] \<and> c2 = [] \<and> nb_inFlight b2 = nb_inFlight b \<and>
      map_option ipb_items (nb_inProgress b2 bid) = Some (ipb_items bp) \<and>
      c3 = failItems (ipb_kind bp) (ipb_items bp) expiredBatchDetail b \<and>
      nb_inProgress b3 = (nb_inProgress b)(bid := None) \<and>
      nb_inFlight b3 = nb_inFlight b - bi_operationID ` set (ipb_items bp) \<and>
    (now \<ge> ipb_pollAfter bp \<and> now - ipb_sentAt bp > maxBatchAge \<longrightarrow>
      pollBatch client now now' bid (w, b) =
        (failItems (ipb_kind bp) (ipb_items bp) expiredBatchDetail b, w,
         clearInFlightLocked (ipb_items bp) (b\<lparr>nb_inProgress := (nb_inProgress b)(bid := None)\<rparr>))) \<and>
    (now < ipb_pollAfter bp \<longrightarrow> pollBatch client now now' bid (w, b) = ([], w, b))"
proof -
  have m: "maxConsecutiveEmptyPolls = 3" by (simp add: maxConsecutiveEmptyPolls_def)
  from p1 apply_empty(1) [OF bp, of t1] e m have 1: "c1 = []"
    "b1 = b\<lparr>nb_inProgress := (nb_inProgress b)(bid \<mapsto> bp\<lparr>ipb_emptyPolls := 1\<rparr>)\<rparr>" by auto
  then have bp1: "nb_inProgress b1 bid = Some (bp\<lparr>ipb_emptyPolls := 1\<rparr>)" by simp
  from p2 apply_empty(1) [OF bp1, of t2] m 1 have 2: "c2 = []"
    "b2 = b\<lparr>nb_inProgress := (nb_inProgress b)(bid \<mapsto> bp\<lparr>ipb_emptyPolls := 2\<rparr>)\<rparr>"
    by (auto simp: numeral_2_eq_2)
  then have bp2: "nb_inProgress b2 bid = Some (bp\<lparr>ipb_emptyPolls := 2\<rparr>)" by simp
  from p3 apply_empty(2) [OF bp2, of t3] m have
    "c3 = failItems (ipb_kind bp) (ipb_items bp) expiredBatchDetail b2"
    "b3 = clearInFlightLocked (ipb_items bp) (b2\<lparr>nb_inProgress := (nb_inProgress b2)(bid := None)\<rparr>)" by auto
  with 1 2 have "c1 = [] \<and> c2 = [] \<and> nb_inFlight b2 = nb_inFlight b \<and>
      map_option ipb_items (nb_inProgress b2 bid) = Some (ipb_items bp) \<and>
      c3 = failItems (ipb_kind bp) (ipb_items bp) expiredBatchDetail b \<and>
      nb_inProgress b3 = (nb_inProgress b)(bid := None) \<and>
      nb_inFlight b3 = nb_inFlight b - bi_operationID ` set (ipb_items bp)"
    by (auto simp: failItems_def failureHandlerFn_def)
  moreover have "now \<ge> ipb_pollAfter bp \<Longrightarrow> now - ipb_sentAt bp > maxBatchAge \<Longrightarrow>
      pollBatch client now now' bid (w, b) =
        (failItems (ipb_kind bp) (ipb_items bp) expiredBatchDetail b, w,
         clearInFlightLocked (ipb_items bp) (b\<lparr>nb_inProgress := (nb_inProgress b)(bid := None)\<rparr>))"
    using bp by (simp add: pollBatch_def pollBatch_begin_def failItems_def failureHandlerFn_def
        clearInFlightLocked_def)
  moreover have "now < ipb_pollAfter bp \<Longrightarrow> pollBatch client now now' bid (w, b) = ([], w, b)"
    using bp by (simp add: pollBatch_def pollBatch_begin_def)
  ultimately show ?thesis by blast
qed

theorem batch_expiry_witness:
  "nb_inFlight (snd (pollBatch_apply 3 ''b'' [] (snd (pollBatch_apply 2 ''b'' [] (snd (pollBatch_apply 1 ''b'' [] aBatcher)))))) = {}"
proof -
  have bp: "nb_inProgress aBatcher ''b'' = Some aBatch" "ipb_emptyPolls aBatch = 0"
    "nb_inFlight aBatcher - bi_operationID ` set (ipb_items aBatch) = {}"
    by (auto simp: aBatcher_def aBatch_def anItem_def)
  obtain c1 b1 where p1: "pollBatch_apply 1 ''b'' [] aBatcher = (c1, b1)" by fastforce
  obtain c2 b2 where p2: "pollBatch_apply 2 ''b'' [] b1 = (c2, b2)" by fastforce
  obtain c3 b3 where p3: "pollBatch_apply 3 ''b'' [] b2 = (c3, b3)" by fastforce
  from batch_expiry [OF bp(1,2) p1 p2 p3] bp(3) have "nb_inFlight b3 = {}" by metis
  then show ?thesis by (simp add: p1 p2 p3)
qed

section \<open>Schedules the comments exclude\<close>

text \<open>
  In-flight suppression has a gap: \<open>enqueueItem\<close> looks at the in-flight set under one lock and
  joins the waiters under another. A caller that passed the first check while the batch was being
  sent joins after the waiters were resolved, finds no entry and queues the operation again: in a
  reachable state the sender hands the broker a batch with an operation that is in flight, in a
  batch that is still tracked.
\<close>
theorem in_flight_operation_sent_again:
  "\<exists>s. reach sys_init sys_step s \<and> s_sender s = SendingAdds [anItem opKindAdd ''u''] [] \<and>
     enqueue_check ''u'' (s_b s) = Some ''b''"
proof (intro exI conjI)
  let ?as = "[Call (anItem opKindAdd ''u''), Join 0, Take, Window, Call (anItem opKindAdd ''u''),
    BrokerAcks 0 ''b'', Resolve, Resolve, Join 0, Take, Window]"
  show "reach sys_init sys_step (after ?as)" by (rule reach_after)
  show "s_sender (after ?as) = SendingAdds [anItem opKindAdd ''u''] []" by (simp add: run_eval)
  show "enqueue_check ''u'' (s_b (after ?as)) = Some ''b''" by (simp add: run_eval)
qed

text \<open>
  The map from operations to batches is not kept in step with the in-flight set: the poll
  loop removes a succeeded or failed operation from the set only, so the entry stays after the
  batch is gone, until the same operation expires in another batch.
\<close>
theorem opBatch_outlives_inFlight:
  "\<exists>s. reach sys_init sys_step s \<and> ''u'' \<notin> nb_inFlight (s_b s) \<and>
     nb_opBatch (s_b s) ''u'' = Some ''b'' \<and> nb_inProgress (s_b s) ''b'' = None"
proof (intro exI conjI)
  let ?s = "after (toPolled Failed_state)"
  show "reach sys_init sys_step ?s" by (rule reach_after)
  show "''u'' \<notin> nb_inFlight (s_b ?s)" by (simp add: run_eval)
  show "nb_opBatch (s_b ?s) ''u'' = Some ''b''" by (simp add: run_eval)
  show "nb_inProgress (s_b ?s) ''b'' = None" by (simp add: run_eval)
qed

end
