(* ===== verification/Batcher_Service.thy ===== *)
theory Batcher_Service
  imports Batcher_Exec
begin

text \<open>
  What the batcher promises its callers, as a machine without goroutines, queue, windows, locks or
  clocks, and the proof that the interleaved batcher of \<open>Batcher_System\<close> implements it.

  A call of \<^verbatim>\<open>Enqueue\<close> or \<^verbatim>\<open>EnqueueRemove\<close> waits, is answered once, and has its answer
  received. The broker accepts a batch of operations somebody waits for, or a resume brings one
  back; from then on the operations are in flight with that batch until the broker reports on them
  or the batch expires. A call for an operation in flight is answered at once.
\<close>

section \<open>The machine\<close>

datatype call = Waiting string | Answered string BatchResult | Received string

record service =
  sv_call :: "chan \<rightharpoonup> call"
  sv_flight :: "string \<rightharpoonup> string"
  sv_batches :: "string \<rightharpoonup> string \<times> string set"
  sv_done :: "string set"
  sv_accepted :: "(string \<times> string \<times> string) set"
  sv_handler :: "nat option"
  sv_told :: "handlerCall list"

definition svc_init :: "service \<Rightarrow> bool" where
  "svc_init v \<longleftrightarrow> (\<exists>fn. v = \<lparr>sv_call = Map.empty, sv_flight = Map.empty, sv_batches = Map.empty,
     sv_done = {}, sv_accepted = {}, sv_handler = fn, sv_told = []\<rparr>)"

text \<open>What becomes of the state when a batch is accepted, and when operations are settled.\<close>

definition svc_accept :: "string \<Rightarrow> string \<Rightarrow> string set \<Rightarrow> service \<Rightarrow> service" where
  "svc_accept bid kind ops v = v\<lparr>
     sv_flight := (\<lambda>op. if op \<in> ops then Some bid else sv_flight v op),
     sv_batches := (sv_batches v)(bid \<mapsto> (kind, ops)),
     sv_accepted := sv_accepted v \<union> (\<lambda>op. (bid, kind, op)) ` ops\<rparr>"

definition svc_settle :: "string \<Rightarrow> string \<Rightarrow> string set \<Rightarrow> string set \<Rightarrow> handlerCall list \<Rightarrow> service \<Rightarrow> service" where
  "svc_settle bid kind rest gone told v = v\<lparr>
     sv_flight := (\<lambda>op. if op \<in> gone then None else sv_flight v op),
     sv_batches := (sv_batches v)(bid := (if rest = {} then None else Some (kind, rest))),
     sv_told := sv_told v @ told\<rparr>"

text \<open>The handler is called for the operations of \<open>F\<close>, and for no other, if there is one.\<close>

definition tells :: "nat option \<Rightarrow> string \<Rightarrow> string set \<Rightarrow> handlerCall list \<Rightarrow> bool" where
  "tells h kind F told \<longleftrightarrow>
     (case h of
        None \<Rightarrow> told = []
      | Some fn \<Rightarrow> (\<lambda>(f, op, k, d). (f, op, k)) ` set told = (\<lambda>op. (fn, op, kind)) ` F)"

inductive svc_step :: "service \<Rightarrow> service \<Rightarrow> bool" where
  ask:
    "sv_call v c = None \<Longrightarrow> svc_step v (v\<lparr>sv_call := (sv_call v)(c \<mapsto> Waiting op)\<rparr>)"
| ask_in_flight:
    "\<lbrakk>sv_call v c = None; sv_flight v op = Some bid\<rbrakk> \<Longrightarrow>
     svc_step v (v\<lparr>sv_call := (sv_call v)(c \<mapsto> Answered op (ackResult bid))\<rparr>)"
| answer:
    "\<lbrakk>\<forall>c \<in> C. sv_call v c = Some (Waiting op);
      br_Err r \<noteq> None \<or> (\<exists>kind. (br_BatchID r, kind, op) \<in> sv_accepted v)\<rbrakk> \<Longrightarrow>
     svc_step v (v\<lparr>sv_call := (\<lambda>c. if c \<in> C then Some (Answered op r) else sv_call v c)\<rparr>)"
| receive:
    "sv_call v c = Some (Answered op r) \<Longrightarrow>
     svc_step v (v\<lparr>sv_call := (sv_call v)(c \<mapsto> Received op)\<rparr>)"
| accept:
    "\<lbrakk>sv_batches v bid = None; kind = opKindAdd \<or> kind = opKindRemove;
      \<forall>op \<in> ops. \<exists>c. sv_call v c = Some (Waiting op)\<rbrakk> \<Longrightarrow>
     svc_step v (svc_accept bid kind ops v)"
| resume:
    "\<lbrakk>sv_batches v bid = None; bid \<noteq> []; ops \<noteq> {}; [] \<notin> ops\<rbrakk> \<Longrightarrow>
     svc_step v (svc_accept bid opKindAdd ops v)"
| report:
    "\<lbrakk>sv_batches v bid = Some (kind, ops); S \<subseteq> ops; F \<subseteq> ops; S \<inter> F = {};
      tells (sv_handler v) kind F told; S \<subseteq> D; D \<subseteq> S \<union> sv_done v\<rbrakk> \<Longrightarrow>
     svc_step v (svc_settle bid kind (ops - S - F) (S \<union> F) told v\<lparr>sv_done := D\<rparr>)"
| expire:
    "\<lbrakk>sv_batches v bid = Some (kind, ops); tells (sv_handler v) kind ops told;
      \<forall>(fn, op, k, detail) \<in> set told. detail = expiredBatchDetail\<rbrakk> \<Longrightarrow>
     svc_step v (svc_settle bid kind {} ops told v)"

section \<open>The abstraction\<close>

definition waits :: "sys \<Rightarrow> chan \<Rightarrow> bool" where
  "waits s c \<longleftrightarrow> c \<in> fst ` set (s_checked s) \<or> c \<in> set (waiters (s_b s) (s_chanOp s c))"

definition callOf :: "sys \<Rightarrow> chan \<Rightarrow> call option" where
  "callOf s c =
     (if c < nb_nextChan (s_b s)
      then Some (case nb_chans (s_b s) c of
             [] \<Rightarrow> if waits s c then Waiting (s_chanOp s c) else Received (s_chanOp s c)
           | r # _ \<Rightarrow> Answered (s_chanOp s c) r)
      else None)"

definition opsOf :: "inProgressBatch \<Rightarrow> string set" where
  "opsOf bp = bi_operationID ` set (ipb_items bp)"

definition serviceOf :: "sys \<Rightarrow> service" where
  "serviceOf s = \<lparr>
     sv_call = callOf s,
     sv_flight = (\<lambda>op. enqueue_check op (s_b s)),
     sv_batches = (\<lambda>bid. map_option (\<lambda>bp. (ipb_kind bp, opsOf bp)) (nb_inProgress (s_b s) bid)),
     sv_done = dom (nb_succeeded (s_b s)),
     sv_accepted = s_acked s,
     sv_handler = failureHandlerFn (s_b s),
     sv_told = s_calls s\<rparr>"

text \<open>A step that changes the calls only; it is invisible when it leaves them alone too.\<close>

lemma serviceOf_calls:
  assumes "nb_inFlight (s_b t) = nb_inFlight (s_b s)" "nb_opBatch (s_b t) = nb_opBatch (s_b s)"
    "nb_inProgress (s_b t) = nb_inProgress (s_b s)" "nb_succeeded (s_b t) = nb_succeeded (s_b s)"
    "s_acked t = s_acked s" "nb_failureHandler (s_b t) = nb_failureHandler (s_b s)"
    "s_calls t = s_calls s"
  shows "serviceOf t = (serviceOf s)\<lparr>sv_call := callOf t\<rparr>"
  unfolding serviceOf_def enqueue_check_def failureHandlerFn_def assms by simp

lemma serviceOf_sel [simp]:
  "sv_call (serviceOf s) = callOf s" "sv_flight (serviceOf s) op = enqueue_check op (s_b s)"
  "sv_batches (serviceOf s) bid = map_option (\<lambda>bp. (ipb_kind bp, opsOf bp)) (nb_inProgress (s_b s) bid)"
  "sv_done (serviceOf s) = dom (nb_succeeded (s_b s))" "sv_accepted (serviceOf s) = s_acked s"
  "sv_handler (serviceOf s) = nb_failureHandler (s_b s)" "sv_told (serviceOf s) = s_calls s"
  by (simp_all add: serviceOf_def failureHandlerFn_def)

lemma serviceOf_same: "callOf t = callOf s \<Longrightarrow> serviceOf t = (serviceOf s)\<lparr>sv_call := callOf t\<rparr> \<Longrightarrow>
    serviceOf t = serviceOf s"
  by (simp add: serviceOf_def)

lemma callOf_cong:
  assumes "nb_nextChan (s_b t) = nb_nextChan (s_b s)" "nb_chans (s_b t) = nb_chans (s_b s)"
    "nb_pending (s_b t) = nb_pending (s_b s)" "s_checked t = s_checked s" "s_chanOp t = s_chanOp s"
  shows "callOf t = callOf s"
  unfolding callOf_def [abs_def] waits_def waiters_def assms ..

lemma callOf_same:
  assumes "nb_nextChan (s_b t) = nb_nextChan (s_b s)" "nb_chans (s_b t) = nb_chans (s_b s)"
    "waits t = waits s" "s_chanOp t = s_chanOp s"
  shows "callOf t = callOf s"
  unfolding callOf_def [abs_def] assms ..

lemma callOf_open:
  "open_chan s c op \<Longrightarrow> callOf s c = Some (if waits s c then Waiting op else Received op)"
  by (simp add: callOf_def open_chan_def)

lemma waits_waiters:
  assumes "chan_inv s" "c \<in> set (waiters (s_b s) op)"
  shows "callOf s c = Some (Waiting op)"
  using chan_inv_waiters [OF assms] assms(2) callOf_open [of s c op]
  by (auto simp: waits_def open_chan_def)

lemma waits_checked:
  assumes "chan_inv s" "(c, item) \<in> set (s_checked s)"
  shows "callOf s c = Some (Waiting (bi_operationID item))"
  using chan_inv_checked [OF assms] assms(2) callOf_open [of s c "bi_operationID item"]
  by (force simp: waits_def open_chan_def)

lemma enqueue_check_iff:
  "flight_inv s \<Longrightarrow> enqueue_check op (s_b s) = (if op \<in> nb_inFlight (s_b s) then nb_opBatch (s_b s) op else None)"
  by (auto simp: enqueue_check_def flight_inv_def flight_ok_def)

text \<open>A new channel; the other calls keep their state.\<close>

lemma callOf_new:
  assumes inv: "chan_inv s"
    and t: "nb_nextChan (s_b t) = Suc (nb_nextChan (s_b s))"
      "nb_chans (s_b t) = (nb_chans (s_b s))(nb_nextChan (s_b s) := rs)"
      "nb_pending (s_b t) = nb_pending (s_b s)" "s_chanOp t = (s_chanOp s)(nb_nextChan (s_b s) := op)"
      "fst ` set (s_checked t) - {nb_nextChan (s_b s)} = fst ` set (s_checked s)"
    and new: "(case rs of [] \<Rightarrow> if waits t (nb_nextChan (s_b s)) then Waiting op else Received op
       | r # _ \<Rightarrow> Answered op r) = k"
  shows "callOf s (nb_nextChan (s_b s)) = None"
    and "callOf t = (callOf s)(nb_nextChan (s_b s) \<mapsto> k)"
proof -
  let ?n = "nb_nextChan (s_b s)"
  show "callOf s ?n = None" by (simp add: callOf_def)
  show "callOf t = (callOf s)(?n \<mapsto> k)"
  proof
    fix c
    show "callOf t c = ((callOf s)(?n \<mapsto> k)) c"
    proof (cases "c = ?n")
      case True
      with t new show ?thesis by (auto simp: callOf_def split: list.splits)
    next
      case False
      with t(5) have "c \<in> fst ` set (s_checked t) \<longleftrightarrow> c \<in> fst ` set (s_checked s)" by blast
      with False t have "waits t c \<longleftrightarrow> waits s c" by (simp add: waits_def waiters_def)
      with False t show ?thesis by (simp add: callOf_def less_Suc_eq split: list.splits)
    qed
  qed
qed

text \<open>A result sent to channels that wait.\<close>

lemma callOf_send:
  assumes t: "nb_nextChan (s_b t) = nb_nextChan (s_b s)" "s_chanOp t = s_chanOp s"
      "nb_chans (s_b t) = (\<lambda>c. if c \<in> C then [r] else nb_chans (s_b s) c)"
    and C: "\<And>c. c \<in> C \<Longrightarrow> open_chan s c op"
    and w: "\<And>c. c \<notin> C \<Longrightarrow> waits t c \<longleftrightarrow> waits s c"
  shows "callOf t = (\<lambda>c. if c \<in> C then Some (Answered op r) else callOf s c)"
proof
  fix c
  show "callOf t c = (if c \<in> C then Some (Answered op r) else callOf s c)"
  proof (cases "c \<in> C")
    case True
    with C [OF True] t show ?thesis by (simp add: callOf_def open_chan_def)
  next
    case False
    with t w [OF False] show ?thesis by (simp add: callOf_def split: list.splits)
  qed
qed

section \<open>Every step is a step of the machine or invisible\<close>

lemma svc_call_inFlight:
  assumes inv: "safe_inv s" and ec: "enqueue_check (bi_operationID item) (s_b s) = Some bid"
    and t: "t = s\<lparr>s_b := sendChan (ackResult bid) (nb_nextChan (s_b s)) (snd (makeChan (s_b s))),
       s_chanOp := (s_chanOp s)(nb_nextChan (s_b s) := bi_operationID item)\<rparr>"
  shows "svc_step (serviceOf s) (serviceOf t)"
proof -
  let ?n = "nb_nextChan (s_b s)" and ?op = "bi_operationID item"
  from inv have ci: "chan_inv s" by (simp add: safe_inv_def)
  then have emp: "nb_chans (s_b s) ?n = []" by (simp add: chan_inv_def buffers_inv_def)
  have chk: "?n \<notin> fst ` set (s_checked s)"
    using ci by (force simp: chan_inv_def checked_inv_def open_chan_def)
  note new = callOf_new [OF ci, of t "[ackResult bid]" ?op "Answered ?op (ackResult bid)"]
  have call: "callOf t = (callOf s)(?n \<mapsto> Answered ?op (ackResult bid))" and free: "callOf s ?n = None"
    by (rule new; use chk emp in \<open>simp add: t\<close>)+
  have "serviceOf t = (serviceOf s)\<lparr>sv_call := (sv_call (serviceOf s))(?n \<mapsto> Answered ?op (ackResult bid))\<rparr>"
    by (subst serviceOf_calls [of t s]) (simp_all add: call, simp_all add: t)
  with free ec show ?thesis
    using svc_step.ask_in_flight [of "serviceOf s" ?n ?op bid] by simp
qed

lemma svc_call_checked:
  assumes inv: "safe_inv s"
    and t: "t = s\<lparr>s_b := snd (makeChan (s_b s)),
       s_checked := s_checked s @ [(nb_nextChan (s_b s), item)],
       s_chanOp := (s_chanOp s)(nb_nextChan (s_b s) := bi_operationID item)\<rparr>"
  shows "svc_step (serviceOf s) (serviceOf t)"
proof -
  let ?n = "nb_nextChan (s_b s)" and ?op = "bi_operationID item"
  from inv have ci: "chan_inv s" by (simp add: safe_inv_def)
  then have emp: "nb_chans (s_b s) ?n = []" by (simp add: chan_inv_def buffers_inv_def)
  have chk: "?n \<notin> fst ` set (s_checked s)"
    using ci by (force simp: chan_inv_def checked_inv_def open_chan_def)
  note new = callOf_new [OF ci, of t "[]" ?op "Waiting ?op"]
  have call: "callOf t = (callOf s)(?n \<mapsto> Waiting ?op)" and free: "callOf s ?n = None"
    by (rule new; use chk emp in \<open>simp add: t waits_def fun_upd_idem\<close>)+
  have "serviceOf t = (serviceOf s)\<lparr>sv_call := (sv_call (serviceOf s))(?n \<mapsto> Waiting ?op)\<rparr>"
    by (subst serviceOf_calls [of t s]) (simp_all add: call, simp_all add: t)
  with free show ?thesis using svc_step.ask [of "serviceOf s" ?n ?op] by simp
qed

lemma svc_join:
  assumes inv: "safe_inv s" and ck: "s_checked s = cs1 @ (ch, item) # cs2"
    and t: "t = s\<lparr>s_b := enqueue_join ch item (s_b s), s_checked := cs1 @ cs2\<rparr>"
  shows "serviceOf t = serviceOf s \<or> svc_step (serviceOf s) (serviceOf t)"
proof -
  let ?op = "bi_operationID item"
  from inv have ci: "chan_inv s" by (simp add: safe_inv_def)
  from ci ck have opn: "open_chan s ch ?op" and once: "ch \<notin> fst ` set (cs1 @ cs2)"
    by (auto simp: chan_inv_def checked_inv_def)
  from ck have others: "fst ` set (s_checked s) = insert ch (fst ` set (cs1 @ cs2))" by auto
  have calls: "serviceOf t = (serviceOf s)\<lparr>sv_call := callOf t\<rparr>"
    by (rule serviceOf_calls) (simp_all add: t)
  show ?thesis
  proof (cases "nb_pending (s_b s) ?op = None \<and> \<not> length (nb_queue (s_b s)) < batchItemQueueBuffer")
    case True
    then have tb: "t = s\<lparr>s_b := sendChan queueFull ch (s_b s), s_checked := cs1 @ cs2\<rparr>"
      by (simp add: t enqueue_join_full)
    from opn have emp: "nb_chans (s_b s) ch = []" by (simp add: open_chan_def)
    have "callOf t = (\<lambda>c. if c \<in> {ch} then Some (Answered ?op queueFull) else callOf s c)"
    proof (rule callOf_send)
      show "nb_chans (s_b t) = (\<lambda>c. if c \<in> {ch} then [queueFull] else nb_chans (s_b s) c)"
        by (simp add: tb emp fun_eq_iff)
      show "waits t c \<longleftrightarrow> waits s c" if "c \<notin> {ch}" for c
        using that others by (simp add: waits_def tb waiters_def)
    qed (use opn in \<open>simp_all add: tb\<close>)
    moreover have "callOf s ch = Some (Waiting ?op)"
      using ck by (intro waits_checked [OF ci]) simp
    ultimately show ?thesis
      using svc_step.answer [of "{ch}" "serviceOf s" ?op queueFull] calls by (simp cong: if_cong)
  next
    case False
    then obtain ws where pend: "nb_pending (s_b t) = (nb_pending (s_b s))(?op \<mapsto> ws @ [ch])"
      and ws: "ws = waiters (s_b s) ?op" and same: "nb_chans (s_b t) = nb_chans (s_b s)"
      by (cases "nb_pending (s_b s) ?op") (auto simp: t enqueue_join_dedup enqueue_join_queued)
    have "waits t c = waits s c" for c
    proof (cases "c = ch")
      case True
      then show ?thesis using others opn pend by (simp add: waits_def open_chan_def waiters_def t)
    next
      case c: False
      then show ?thesis using others pend ws by (auto simp: waits_def waiters_def t)
    qed
    then have "waits t = waits s" by blast
    then have "callOf t = callOf s" using same by (intro callOf_same) (auto simp: t)
    with calls serviceOf_same show ?thesis by metis
  qed
qed

lemma svc_resolve:
  assumes inv: "safe_inv s" and sd: "s_sender s = Resolving r (item # items) removes"
    and t: "t = s\<lparr>s_b := resolvePending (bi_operationID item) r (s_b s), s_sender := pc\<rparr>"
  shows "svc_step (serviceOf s) (serviceOf t)"
proof -
  let ?op = "bi_operationID item"
  let ?C = "set (waiters (s_b s) ?op)"
  from inv have ci: "chan_inv s" and ai: "ack_inv s" by (simp_all add: safe_inv_def)
  have opn: "open_chan s c ?op" if "c \<in> ?C" for c using chan_inv_waiters [OF ci that] .
  have "callOf t = (\<lambda>c. if c \<in> ?C then Some (Answered ?op r) else callOf s c)"
  proof (rule callOf_send)
    show "nb_chans (s_b t) = (\<lambda>c. if c \<in> ?C then [r] else nb_chans (s_b s) c)"
      using opn by (auto simp: t resolvePending_chans [OF chan_inv_distinct_waiters [OF ci]]
        open_chan_def fun_eq_iff)
    show "waits t c \<longleftrightarrow> waits s c" if "c \<notin> ?C" for c
      using that by (auto simp: waits_def t waiters_def)
  qed (use opn in \<open>simp_all add: t\<close>)
  moreover have "serviceOf t = (serviceOf s)\<lparr>sv_call := callOf t\<rparr>"
    by (rule serviceOf_calls) (simp_all add: t)
  moreover have "br_Err r \<noteq> None \<or> (\<exists>kind. (br_BatchID r, kind, ?op) \<in> s_acked s)"
    using ack_invD(3) [OF ai] sd by (auto simp: resolving_acked_def acked_op_def)
  ultimately show ?thesis
    using svc_step.answer [of ?C "serviceOf s" ?op r] waits_waiters [OF ci]
    by (simp cong: if_cong)
qed

lemma svc_receive:
  assumes inv: "safe_inv s" and ch: "nb_chans (s_b s) c = r # rs"
    and t: "t = s\<lparr>s_b := (s_b s)\<lparr>nb_chans := (nb_chans (s_b s))(c := rs)\<rparr>\<rparr>"
  shows "svc_step (serviceOf s) (serviceOf t)"
proof -
  let ?op = "s_chanOp s c"
  from inv have ci: "chan_inv s" by (simp add: safe_inv_def)
  then have le: "length (nb_chans (s_b s) c) \<le> 1"
    and hi: "nb_nextChan (s_b s) \<le> c \<Longrightarrow> nb_chans (s_b s) c = []"
    by (auto simp: chan_inv_def buffers_inv_def)
  from le ch have rs: "rs = []" by simp
  from hi ch have c: "c < nb_nextChan (s_b s)" by (cases "c < nb_nextChan (s_b s)") auto
  have nw: "\<not> waits s c"
    using chan_inv_waiters [OF ci, of c ?op] chan_inv_checked [OF ci] ch
    by (auto simp: waits_def open_chan_def)
  have "waits t = waits s" by (simp add: waits_def [abs_def] waiters_def t)
  then have "callOf t = (callOf s)(c \<mapsto> Received ?op)"
    using nw c by (auto simp: callOf_def fun_eq_iff t rs split: list.splits)
  moreover have "serviceOf t = (serviceOf s)\<lparr>sv_call := callOf t\<rparr>"
    by (rule serviceOf_calls) (simp_all add: t)
  moreover have "callOf s c = Some (Answered ?op r)" using c ch by (simp add: callOf_def)
  ultimately show ?thesis using svc_step.receive [of "serviceOf s" c ?op r] by simp
qed

text \<open>A batch is registered by the sender or by a resume.\<close>

lemma serviceOf_register:
  assumes c: "callOf t = callOf s" and fr: "nb_inProgress (s_b s) bid = None"
    and p: "nb_inProgress (s_b t) = (nb_inProgress (s_b s))(bid \<mapsto> bp)" "ipb_kind bp = kind"
    and f: "nb_inFlight (s_b t) = opsOf bp \<union> nb_inFlight (s_b s)"
      "nb_opBatch (s_b t) = (\<lambda>op. if op \<in> opsOf bp then Some bid else nb_opBatch (s_b s) op)"
    and r: "nb_succeeded (s_b t) = nb_succeeded (s_b s)" "s_calls t = s_calls s"
      "nb_failureHandler (s_b t) = nb_failureHandler (s_b s)"
      "s_acked t = s_acked s \<union> ops_of bid kind (ipb_items bp)"
  shows "serviceOf t = svc_accept bid kind (opsOf bp) (serviceOf s)"
proof -
  have "(\<lambda>op. enqueue_check op (s_b t)) =
      (\<lambda>op. if op \<in> opsOf bp then Some bid else enqueue_check op (s_b s))"
    by (auto simp: enqueue_check_def f fun_eq_iff)
  moreover have "(\<lambda>b. map_option (\<lambda>bp. (ipb_kind bp, opsOf bp)) (nb_inProgress (s_b t) b)) =
      (\<lambda>b. map_option (\<lambda>bp. (ipb_kind bp, opsOf bp)) (nb_inProgress (s_b s) b))(bid \<mapsto> (kind, opsOf bp))"
    by (auto simp: p fun_eq_iff)
  moreover have "ops_of bid kind (ipb_items bp) = (\<lambda>op. (bid, kind, op)) ` opsOf bp"
    by (simp add: ops_of_def opsOf_def image_image)
  ultimately show ?thesis
    unfolding svc_accept_def serviceOf_def by (simp add: c r failureHandlerFn_def cong: if_cong)
qed

lemma outstanding_waited:
  assumes inv: "safe_inv s" and op: "op \<in> set (outstanding s)"
  shows "\<exists>c. callOf s c = Some (Waiting op)"
proof -
  from inv have ci: "chan_inv s" and wi: "work_inv s" by (simp_all add: safe_inv_def)
  from wi op obtain ws where ws: "nb_pending (s_b s) op = Some ws" by (auto simp: work_inv_def)
  with chan_inv_pending [OF ci ws] obtain c where "c \<in> set (waiters (s_b s) op)"
    by (cases ws) auto
  from waits_waiters [OF ci this] show ?thesis by blast
qed

lemma svc_register:
  assumes inv: "safe_inv s" and fr: "nb_inProgress (s_b s) bid = None"
    and k: "kind = opKindAdd \<or> kind = opKindRemove"
    and held: "bi_operationID ` set items \<subseteq> set (outstanding s)"
    and t: "t = s\<lparr>s_b := registerBatch now kind bid items (s_b s), s_sender := pc,
       s_acked := s_acked s \<union> ops_of bid kind items\<rparr>"
  shows "svc_step (serviceOf s) (serviceOf t)"
proof -
  have c: "callOf t = callOf s" by (rule callOf_cong) (simp_all add: t)
  define bp where "bp = the (nb_inProgress (s_b t) bid)"
  have bp: "ipb_items bp = items" "ipb_kind bp = kind" by (simp_all add: bp_def t)
  have "serviceOf t = svc_accept bid kind (opsOf bp) (serviceOf s)"
    by (rule serviceOf_register [OF c fr]) (simp_all add: t opsOf_def bp, simp add: bp_def t)
  moreover have "\<forall>op \<in> opsOf bp. \<exists>c. callOf s c = Some (Waiting op)"
    using outstanding_waited [OF inv] held by (auto simp: opsOf_def bp)
  ultimately show ?thesis
    using svc_step.accept [of "serviceOf s" bid kind "opsOf bp"] fr k by simp
qed

lemma svc_resume:
  assumes inv: "safe_inv s" and res: "ResumeAddBatch now bid ops (s_b s) = (True, b')"
    and t: "t = s\<lparr>s_b := b', s_acked := s_acked s \<union> ops_of (trimSpace bid) opKindAdd (resumeItems ops)\<rparr>"
  shows "svc_step (serviceOf s) (serviceOf t)"
proof -
  note b' = ResumeAddBatch_True [OF res]
  have c: "callOf t = callOf s" by (rule callOf_cong) (simp_all add: t b')
  define bp where "bp = the (nb_inProgress (s_b t) (trimSpace bid))"
  have bp: "ipb_items bp = resumeItems ops" "ipb_kind bp = opKindAdd" by (simp_all add: bp_def t b')
  have "serviceOf t = svc_accept (trimSpace bid) opKindAdd (opsOf bp) (serviceOf s)"
    by (rule serviceOf_register [OF c b'(4)]) (simp_all add: t opsOf_def bp b', simp add: bp_def t b')
  moreover have "opsOf bp \<noteq> {}" using b'(3) by (simp add: opsOf_def bp)
  moreover have "[] \<notin> opsOf bp" by (simp add: opsOf_def bp resumeItems_ops)
  ultimately show ?thesis
    using svc_step.resume [of "serviceOf s" "trimSpace bid" "opsOf bp"] b'(2,4) by simp
qed

text \<open>The poller settles operations of a tracked batch.\<close>

lemma serviceOf_settle:
  assumes c: "callOf t = callOf s"
    and p: "nb_inProgress (s_b t) = (nb_inProgress (s_b s))(bid := rest)"
      "map_option (\<lambda>bp. (ipb_kind bp, opsOf bp)) rest = (if R = {} then None else Some (kind, R))"
    and f: "nb_inFlight (s_b t) = nb_inFlight (s_b s) - G"
      "\<And>op. op \<notin> G \<Longrightarrow> nb_opBatch (s_b t) op = nb_opBatch (s_b s) op"
    and r: "s_calls t = s_calls s @ told" "nb_failureHandler (s_b t) = nb_failureHandler (s_b s)"
      "s_acked t = s_acked s"
  shows "serviceOf t = svc_settle bid kind R G told (serviceOf s)\<lparr>sv_done := dom (nb_succeeded (s_b t))\<rparr>"
proof -
  have "(\<lambda>op. enqueue_check op (s_b t)) = (\<lambda>op. if op \<in> G then None else enqueue_check op (s_b s))"
    by (auto simp: enqueue_check_def f fun_eq_iff)
  moreover have "(\<lambda>b. map_option (\<lambda>bp. (ipb_kind bp, opsOf bp)) (nb_inProgress (s_b t) b)) =
      (\<lambda>b. map_option (\<lambda>bp. (ipb_kind bp, opsOf bp)) (nb_inProgress (s_b s) b))
        (bid := (if R = {} then None else Some (kind, R)))"
    by (auto simp: p fun_eq_iff)
  ultimately show ?thesis
    unfolding svc_settle_def serviceOf_def by (simp add: c r failureHandlerFn_def cong: if_cong)
qed

lemma failItems_tells:
  "tells (failureHandlerFn b) kind (bi_operationID ` set items) (failItems kind items detail b)"
  by (auto simp: tells_def failItems_def image_image split: option.splits)

lemma svc_drop:
  assumes inv: "safe_inv s" and bp: "nb_inProgress (s_b s) bid = Some bp"
    and b': "b' = clearInFlightLocked (ipb_items bp)
      ((s_b s)\<lparr>nb_inProgress := (nb_inProgress (s_b s))(bid := None)\<rparr>)"
    and t: "s_b t = b'" "s_checked t = s_checked s" "s_chanOp t = s_chanOp s" "s_acked t = s_acked s"
      "s_calls t = s_calls s @ failItems (ipb_kind bp) (ipb_items bp) expiredBatchDetail b'"
  shows "svc_step (serviceOf s) (serviceOf t)"
proof -
  let ?told = "failItems (ipb_kind bp) (ipb_items bp) expiredBatchDetail b'"
  have c: "callOf t = callOf s" by (rule callOf_cong) (simp_all add: t b')
  have "serviceOf t = svc_settle bid (ipb_kind bp) {} (opsOf bp) ?told (serviceOf s)
      \<lparr>sv_done := dom (nb_succeeded (s_b t))\<rparr>"
    by (rule serviceOf_settle [OF c, where rest = None]) (simp_all add: t b' opsOf_def)
  moreover have "svc_settle bid (ipb_kind bp) {} (opsOf bp) ?told (serviceOf s)
      \<lparr>sv_done := dom (nb_succeeded (s_b t))\<rparr> = svc_settle bid (ipb_kind bp) {} (opsOf bp) ?told (serviceOf s)"
    by (simp add: svc_settle_def t b')
  moreover have "tells (nb_failureHandler (s_b s)) (ipb_kind bp) (opsOf bp) ?told"
    using failItems_tells [of b' "ipb_kind bp" "ipb_items bp"]
    by (simp add: opsOf_def failureHandlerFn_def b')
  moreover have "\<forall>(fn, op, k, detail) \<in> set ?told. detail = expiredBatchDetail"
    using failItems_in by fastforce
  ultimately show ?thesis
    using svc_step.expire [of "serviceOf s" bid "ipb_kind bp" "opsOf bp" ?told] bp by simp
qed

lemma settled_ops:
  fixes results bp
  defines "S \<equiv> bi_operationID ` set (successesOf results bp)"
    and "F \<equiv> bi_operationID ` set (failuresOf results bp)"
  shows "S \<inter> F = {}" "S \<subseteq> opsOf bp" "F \<subseteq> opsOf bp"
    "bi_operationID ` set (leaves results bp) = S \<union> F"
    "bi_operationID ` set (stays results bp) = opsOf bp - S - F"
  unfolding S_def F_def
  by (auto simp: successesOf_def failuresOf_def leaves_def stays_def unresolved_def reported_def
      opsOf_def)

lemma svc_answer:
  assumes inv: "safe_inv s" and bp: "nb_inProgress (s_b s) bid = Some bp" and ne: "results \<noteq> []"
    and ap: "pollBatch_apply now bid results (s_b s) = (calls, b')"
    and t: "s_b t = b'" "s_checked t = s_checked s" "s_chanOp t = s_chanOp s" "s_acked t = s_acked s"
      "s_calls t = s_calls s @ calls"
  shows "svc_step (serviceOf s) (serviceOf t)"
proof -
  note ans = pollBatch_apply_answer [OF bp ne ap]
  let ?S = "bi_operationID ` set (successesOf results bp)"
  let ?F = "bi_operationID ` set (failuresOf results bp)"
  note ops = settled_ops [of results bp]
  have c: "callOf t = callOf s" by (rule callOf_cong) (simp_all add: t ans)
  have emp: "stays results bp = [] \<longleftrightarrow> opsOf bp - ?S - ?F = {}"
    unfolding ops(5) [symmetric] by simp
  have rest: "map_option (\<lambda>bp. (ipb_kind bp, opsOf bp))
      (if stays results bp = [] then None
       else Some (bp\<lparr>ipb_emptyPolls := 0, ipb_items := stays results bp\<rparr>)) =
      (if opsOf bp - ?S - ?F = {} then None else Some (ipb_kind bp, opsOf bp - ?S - ?F))"
    using emp ops(5) by (simp add: opsOf_def)
  have "serviceOf t = svc_settle bid (ipb_kind bp) (opsOf bp - ?S - ?F) (?S \<union> ?F) calls (serviceOf s)
      \<lparr>sv_done := dom (nb_succeeded (s_b t))\<rparr>"
    by (rule serviceOf_settle [OF c _ rest]) (simp_all add: t ans ops(4))
  moreover have "tells (nb_failureHandler (s_b s)) (ipb_kind bp) ?F calls"
    by (auto simp: tells_def ans(4) image_image split: option.splits)
  moreover have "?S \<subseteq> dom (nb_succeeded b')" "dom (nb_succeeded b') \<subseteq> ?S \<union> dom (nb_succeeded (s_b s))"
    by (auto simp: ans(3) split: if_splits option.splits)
  ultimately show ?thesis
    using svc_step.report [of "serviceOf s" bid "ipb_kind bp" "opsOf bp" ?S ?F calls "dom (nb_succeeded b')"]
      ops bp t(1) by simp
qed

lemma serviceOf_step:
  assumes inv: "safe_inv s" and st: "sys_step s t"
  shows "serviceOf t = serviceOf s \<or> svc_step (serviceOf s) (serviceOf t)"
proof -
  have hidden: "serviceOf t = serviceOf s"
    if "nb_nextChan (s_b t) = nb_nextChan (s_b s)" "nb_chans (s_b t) = nb_chans (s_b s)"
      "nb_pending (s_b t) = nb_pending (s_b s)" "s_checked t = s_checked s" "s_chanOp t = s_chanOp s"
      "nb_inFlight (s_b t) = nb_inFlight (s_b s)" "nb_opBatch (s_b t) = nb_opBatch (s_b s)"
      "nb_inProgress (s_b t) = nb_inProgress (s_b s)" "nb_succeeded (s_b t) = nb_succeeded (s_b s)"
      "s_acked t = s_acked s" "nb_failureHandler (s_b t) = nb_failureHandler (s_b s)"
      "s_calls t = s_calls s"
    by (rule serviceOf_same [OF callOf_cong serviceOf_calls]) (fact that)+
  from st show ?thesis
  proof cases
    case (call_inFlight item bid)
    with svc_call_inFlight [OF inv] show ?thesis by blast
  next
    case (call_checked item)
    with svc_call_checked [OF inv] show ?thesis by blast
  next
    case (call_join cs1 ch item cs2)
    with svc_join [OF inv] show ?thesis by blast
  next
    case (receive ch r rs)
    with svc_receive [OF inv] show ?thesis by blast
  next
    case (adds_acked adds removes bid now)
    then show ?thesis using svc_register [OF inv adds_acked(3), where kind = opKindAdd and items = adds and t = t and now = now]
      by (auto simp: outstanding_def)
  next
    case (removes_acked removes bid now)
    then show ?thesis using svc_register [OF inv removes_acked(3), where kind = opKindRemove and items = removes and t = t and now = now]
      by (auto simp: outstanding_def)
  next
    case (resolve_next r item items removes)
    with svc_resolve [OF inv] show ?thesis by blast
  next
    case (poll_query now bid b')
    then have "b' = s_b s" by (auto elim: pollBatch_begin_cases)
    with poll_query show ?thesis by (intro disjI1 hidden) simp_all
  next
    case (poll_expired now bid kind items b')
    from poll_expired(3) obtain bp where "nb_inProgress (s_b s) bid = Some bp"
      "b' = clearInFlightLocked (ipb_items bp)
        ((s_b s)\<lparr>nb_inProgress := (nb_inProgress (s_b s))(bid := None)\<rparr>)"
      "kind = ipb_kind bp" "items = ipb_items bp"
      by (auto elim: pollBatch_begin_cases)
    with poll_expired(1) svc_drop [OF inv] show ?thesis by simp
  next
    case (poll_answer bid now results calls b')
    from poll_answer(3) show ?thesis
    proof (cases rule: pollBatch_apply_cases)
      case gone
      with poll_answer show ?thesis by (intro disjI1 hidden) simp_all
    next
      case (empty_wait bp)
      have c: "callOf t = callOf s" by (rule callOf_cong) (simp_all add: poll_answer(1) empty_wait)
      have "(\<lambda>b. map_option (\<lambda>bp. (ipb_kind bp, opsOf bp)) (nb_inProgress (s_b t) b)) =
          (\<lambda>b. map_option (\<lambda>bp. (ipb_kind bp, opsOf bp)) (nb_inProgress (s_b s) b))"
        using empty_wait(1,4) by (auto simp: poll_answer(1) opsOf_def fun_eq_iff)
      then have "serviceOf t = serviceOf s" unfolding serviceOf_def c
        by (simp add: poll_answer(1) empty_wait(3,4) enqueue_check_def failureHandlerFn_def cong: if_cong)
      then show ?thesis ..
    next
      case (empty_drop bp)
      with svc_drop [OF inv empty_drop(1,3), of t] show ?thesis by (simp add: poll_answer(1))
    next
      case (answer bp)
      from svc_answer [OF inv answer poll_answer(3), of t] show ?thesis by (simp add: poll_answer(1))
    qed
  next
    case (resume now bid ops b')
    with svc_resume [OF inv] show ?thesis by blast
  qed (intro disjI1 hidden; simp)+
qed

lemma serviceOf_init: "sys_init s \<Longrightarrow> svc_init (serviceOf s)"
  by (auto simp: sys_init_def svc_init_def serviceOf_def callOf_def fun_eq_iff NewNodeBatcher_def
      SetFailureHandler_def enqueue_check_def failureHandlerFn_def)

interpretation service: refinement sys_init sys_step safe_inv svc_init svc_step serviceOf
  by unfold_locales (auto intro: serviceOf_init simp: serviceOf_step)

section \<open>The life of a call\<close>

text \<open>The handler stays the one registered at the start, and is the only one called.\<close>

lemma svc_step_handler:
  assumes "svc_step v w" and "\<forall>x \<in> set (sv_told v). Some (fst x) = sv_handler v"
  shows "sv_handler w = sv_handler v \<and> (\<forall>x \<in> set (sv_told w). Some (fst x) = sv_handler w)"
proof -
  have tells: "Some (fst x) = sv_handler v" if t: "tells (sv_handler v) kind F told" and x: "x \<in> set told" for kind F told x
  proof -
    obtain f op k d where eq: "x = (f, op, k, d)" by (metis prod.exhaust)
    from t x obtain fn where fn: "sv_handler v = Some fn"
      and im: "(\<lambda>(f, op, k, d). (f, op, k)) ` set told = (\<lambda>op. (fn, op, kind)) ` F"
      by (cases "sv_handler v") (auto simp: tells_def)
    from x eq have "(f, op, k) \<in> (\<lambda>(f, op, k, d). (f, op, k)) ` set told" by (rule_tac image_eqI [of _ _ x]) simp_all
    with im fn eq show ?thesis by auto
  qed
  from assms(1) show ?thesis
  proof cases
    case (report bid kind ops S F told D)
    have "\<forall>x \<in> set told. Some (fst x) = sv_handler v" using tells [OF report(6)] by blast
    with assms(2) show ?thesis by (simp add: report(1) svc_settle_def ball_Un)
  next
    case (expire bid kind ops told)
    have "\<forall>x \<in> set told. Some (fst x) = sv_handler v" using tells [OF expire(3)] by blast
    with assms(2) show ?thesis by (simp add: expire(1) svc_settle_def ball_Un)
  qed (use assms(2) in \<open>simp_all add: svc_accept_def\<close>)
qed

lemma svc_steps_handler:
  assumes "svc_step\<^sup>*\<^sup>* v w" and "\<forall>x \<in> set (sv_told v). Some (fst x) = sv_handler v"
  shows "sv_handler w = sv_handler v \<and> (\<forall>x \<in> set (sv_told w). Some (fst x) = sv_handler w)"
  using assms
proof induction
  case (step w z)
  from step.IH [OF step.prems] have "\<forall>x \<in> set (sv_told w). Some (fst x) = sv_handler w" by blast
  from svc_step_handler [OF step.hyps(2) this] step.IH [OF step.prems] show ?case by simp
qed simp

fun callOp :: "call \<Rightarrow> string" where
  "callOp (Waiting op) = op"
| "callOp (Answered op r) = op"
| "callOp (Received op) = op"

fun callLater :: "call \<Rightarrow> call \<Rightarrow> bool" where
  "callLater (Waiting op) k \<longleftrightarrow> callOp k = op"
| "callLater (Answered op r) k \<longleftrightarrow> k = Answered op r \<or> k = Received op"
| "callLater (Received op) k \<longleftrightarrow> k = Received op"

lemma callLater_refl [simp]: "callLater k k"
  by (cases k) auto

lemma callLater_trans: "callLater k l \<Longrightarrow> callLater l m \<Longrightarrow> callLater k m"
  by (cases k; cases l; cases m) auto

lemma svc_call_later:
  assumes "svc_step v w" and "sv_call v c = Some k"
  shows "\<exists>l. sv_call w c = Some l \<and> callLater k l"
  using assms by (induction rule: svc_step.induct) (auto simp: svc_accept_def svc_settle_def)

lemma svc_steps_later:
  assumes "svc_step\<^sup>*\<^sup>* v w" and "sv_call v c = Some k"
  shows "\<exists>l. sv_call w c = Some l \<and> callLater k l"
  using assms(1)
proof (induction rule: rtranclp_induct)
  case base
  with assms(2) show ?case by simp
next
  case (step w x)
  then show ?case using svc_call_later callLater_trans by meson
qed

text \<open>
  C1: The batcher implements its contract: with its goroutines interleaved in any way at the
  granularity of the locks, and whatever the broker answers and the clock reads, every step is one
  step of the service machine on the abstracted states or changes nothing a caller, the failure
  handler or \<^verbatim>\<open>Delete\<close> can see, and every reachable state abstracts to a reachable state
  of the machine. In the machine a call is answered with an acknowledgement only for an operation
  accepted under that batch, the broker is asked only for operations somebody waits for, a call for
  an operation in flight is answered at once with its batch, and the handler is called for exactly
  the operations a report fails or an expiry drops.
\<close>
theorem batcher_refines_service:
  assumes "reach sys_init sys_step s" and "sys_step s t"
  shows "reach svc_init svc_step (serviceOf s) \<and>
    (serviceOf t = serviceOf s \<or> svc_step (serviceOf s) (serviceOf t))"
  using service.reach_abs [OF assms(1)] service.abs_step [OF batcher.reach_inv [OF assms(1)] assms(2)]
  by blast

theorem batcher_refines_service_witness:
  "svc_step (serviceOf (after toAcked)) (serviceOf (after (toAcked @ [Resolve])))"
proof -
  have "exec Resolve (after toAcked) = Some (after (toAcked @ [Resolve]))" by (simp add: run_eval)
  from batcher_refines_service [OF reach_after exec_sound [OF this]]
  have "serviceOf (after (toAcked @ [Resolve])) = serviceOf (after toAcked) \<or>
    svc_step (serviceOf (after toAcked)) (serviceOf (after (toAcked @ [Resolve])))" by blast
  moreover have "callOf (after toAcked) 0 = Some (Waiting ''u'')"
    "callOf (after (toAcked @ [Resolve])) 0 = Some (Answered ''u'' (ackResult ''b''))"
    by (simp_all add: callOf_def waits_def waiters_def run_eval)
  then have "serviceOf (after (toAcked @ [Resolve])) \<noteq> serviceOf (after toAcked)"
    by (auto dest: arg_cong [of _ _ sv_call])
  ultimately show ?thesis by blast
qed

text \<open>
  C4: The life of a call: once a channel is handed out for an operation it stays with that
  operation through every further step of the system, it goes from waiting to answered to received
  and never back, and an answer given is not replaced: what the caller reads is the first and only
  result sent.
\<close>
theorem call_answered_once:
  assumes "reach sys_init sys_step s" and "sys_step\<^sup>*\<^sup>* s t" and "callOf s c = Some k"
  shows "\<exists>l. callOf t c = Some l \<and> callLater k l"
  using svc_steps_later [OF service.steps_abs [OF assms(2) batcher.reach_inv [OF assms(1)]], of c k]
    assms(3) by simp

theorem call_answered_once_witness:
  "\<exists>l. callOf (after (toQueued @ [Take])) 0 = Some l \<and> callOp l = ''u''"
proof -
  have "exec Take (after toQueued) = Some (after (toQueued @ [Take]))"
    by (simp add: run_eval)
  from exec_sound [OF this] have st: "sys_step\<^sup>*\<^sup>* (after toQueued) (after (toQueued @ [Take]))" by blast
  have "callOf (after toQueued) 0 = Some (Waiting ''u'')"
    by (simp add: callOf_def waits_def waiters_def run_eval)
  from call_answered_once [OF reach_after st this] show ?thesis by simp
qed

end
