(* ===== verification/Batcher_Aliasing.thy ===== *)
theory Batcher_Aliasing
  imports Batcher_Operations
begin

text \<open>
  \<^verbatim>\<open>registerAndAck\<close> gives the slice of the batch to the poller (\<^verbatim>\<open>items: batch\<close>) and walks
  it afterwards without the lock, while \<^verbatim>\<open>pollBatch\<close> compacts the items of a tracked batch in
  place. The other theories treat the two as separate lists. Here they share one backing array: the
  loop reads its cells when it reaches them, and a poll may come between any two iterations.
\<close>

section \<open>The loop over the shared array\<close>

text \<open>\<open>ackCells\<close> is the loop of \<^verbatim>\<open>registerAndAck\<close> over some indices of the array as it is.\<close>

definition ackCells :: "BatchResult \<Rightarrow> batchItem list \<Rightarrow> nat list \<Rightarrow> NodeBatcher \<Rightarrow> NodeBatcher" where
  "ackCells r arr is b = fold (\<lambda>i. resolvePending (bi_operationID (arr ! i)) r) is b"

text \<open>The backing array after a poll that got an answer: \<^verbatim>\<open>pollBatch\<close> wrote to it.\<close>

definition arrayAfterPoll :: "time \<Rightarrow> nodeResult list \<Rightarrow> batchItem list \<Rightarrow> NodeBatcher \<Rightarrow> batchItem list" where
  "arrayAfterPoll now results arr b =
     (if results = [] then arr else pl_arr (pollItems (resultMap results) now arr b))"

text \<open>\<^verbatim>\<open>registerAndAck\<close> with the second section of \<^verbatim>\<open>pollBatch\<close> before its iteration \<open>k\<close>.\<close>

definition registerAndAck_polled ::
  "time \<Rightarrow> string \<Rightarrow> string \<Rightarrow> batchItem list \<Rightarrow> nat \<Rightarrow> time \<Rightarrow> nodeResult list \<Rightarrow> NodeBatcher \<Rightarrow>
   handlerCall list \<times> NodeBatcher" where
  "registerAndAck_polled now kind batchID batch k now' results b =
     (let b1 = ackCells (ackResult batchID) batch [0..<k] (registerBatch now kind batchID batch b);
          arr = arrayAfterPoll now' results batch b1
      in case pollBatch_apply now' batchID results b1 of
           (calls, b2) \<Rightarrow> (calls, ackCells (ackResult batchID) arr [k..<length batch] b2))"

section \<open>What the loop sees\<close>

lemma pollItem_arr:
  assumes "pl_len st \<le> k" and "k < length (pl_arr st)" and "pl_arr st = w @ drop (pl_len st) items"
    and "length w = pl_len st"
  shows "\<exists>w'. pl_arr (pollItem rm now k st) = w' @ drop (pl_len (pollItem rm now k st)) items \<and>
    length w' = pl_len (pollItem rm now k st)"
proof (cases "pl_len (pollItem rm now k st) = pl_len st")
  case True
  then have "pl_arr (pollItem rm now k st) = pl_arr st"
    by (auto simp: pollItem_def Let_def split: option.splits opState.splits)
  with True assms(3,4) show ?thesis by metis
next
  case False
  let ?n = "pl_len st" and ?x = "pl_arr st ! k"
  from False have p: "pl_arr (pollItem rm now k st) = (pl_arr st)[?n := ?x]" "pl_len (pollItem rm now k st) = Suc ?n"
    by (auto simp: pollItem_def Let_def split: option.splits opState.splits)
  from assms have "?n < length items" by simp
  then have "drop ?n items = items ! ?n # drop (Suc ?n) items" by (rule Cons_nth_drop_Suc [symmetric])
  with assms(3,4) have "(pl_arr st)[?n := ?x] = (w @ [?x]) @ drop (Suc ?n) items"
    by (simp add: list_update_append)
  with p assms(4) show ?thesis by (intro exI [of _ "w @ [?x]"]) simp
qed

lemma pollItems_tail:
  fixes b :: NodeBatcher
  shows "k \<le> length items \<Longrightarrow>
   (let st = fold (pollItem rm now) [0..<k]
      \<lparr>pl_arr = items, pl_len = 0, pl_allDone = True, pl_failed = [],
       pl_succeeded = nb_succeeded b, pl_inFlight = nb_inFlight b\<rparr>
    in \<exists>w. pl_arr st = w @ drop (pl_len st) items \<and> length w = pl_len st)"
proof (induction k)
  case 0
  show ?case by simp
next
  case (Suc k)
  let ?st = "fold (pollItem rm now) [0..<k]
      \<lparr>pl_arr = items, pl_len = 0, pl_allDone = True, pl_failed = [],
       pl_succeeded = nb_succeeded b, pl_inFlight = nb_inFlight b\<rparr>"
  from Suc obtain w where w: "pl_arr ?st = w @ drop (pl_len ?st) items" "length w = pl_len ?st"
    by (auto simp: Let_def)
  from loopInv_fold [of k items rm now b] Suc.prems
  have "pl_len ?st \<le> k" "k < length (pl_arr ?st)" by (simp_all add: loopInv_def)
  from pollItem_arr [OF this w] show ?case by (simp add: Let_def)
qed

text \<open>The kept items at the front; behind them the cells are as they were.\<close>

lemma pollItems_arr:
  "pl_arr (pollItems rm now items b) =
     filter (unresolved rm) items @ drop (length (filter (unresolved rm) items)) items"
proof -
  obtain w where w: "pl_arr (pollItems rm now items b) = w @ drop (pl_len (pollItems rm now items b)) items"
    "length w = pl_len (pollItems rm now items b)"
    using pollItems_tail [of "length items" items rm now b] by (auto simp: pollItems_def Let_def)
  have s: "take (pl_len (pollItems rm now items b)) (pl_arr (pollItems rm now items b)) = filter (unresolved rm) items"
    "pl_len (pollItems rm now items b) = length (filter (unresolved rm) items)"
    using pollItems_spec [of rm now items b] unfolding pollLoopSpec_def by blast+
  with w have "w = filter (unresolved rm) items" by simp
  with w s show ?thesis by simp
qed

definition cellsAfter :: "nodeResult list \<Rightarrow> batchItem list \<Rightarrow> batchItem list" where
  "cellsAfter results batch =
     (if results = [] then batch
      else (let kept = filter (unresolved (resultMap results)) batch in kept @ drop (length kept) batch))"

lemma arrayAfterPoll_eq: "arrayAfterPoll now results batch b = cellsAfter results batch"
  by (simp add: arrayAfterPoll_def cellsAfter_def pollItems_arr Let_def)

lemma length_cellsAfter [simp]: "length (cellsAfter results batch) = length batch"
  by (simp add: cellsAfter_def Let_def)

lemma ackCells_items:
  "i \<le> j \<Longrightarrow> j \<le> length arr \<Longrightarrow>
   ackCells r arr [i..<j] b = fold (\<lambda>item. resolvePending (bi_operationID item) r) (take (j - i) (drop i arr)) b"
proof -
  assume "i \<le> j" "j \<le> length arr"
  then have "map ((!) arr) [i..<j] = take (j - i) (drop i arr)"
    by (intro nth_equalityI) simp_all
  moreover have "ackCells r arr is b = fold (\<lambda>item. resolvePending (bi_operationID item) r) (map ((!) arr) is) b"
    for "is" by (simp add: ackCells_def fold_map comp_def)
  ultimately show ?thesis by simp
qed

lemma ack_pending:
  "nb_pending (fold (\<lambda>item. resolvePending (bi_operationID item) r) items b) op =
     (if op \<in> bi_operationID ` set items then None else nb_pending b op)"
  by (rule fold_resolve_pending)

text \<open>
  C10: The slice shared by the sender and the poller is harmless once the sender's loop is through,
  and only then: when the poll comes after the last iteration, the program does what
  \<open>registerAndAck\<close> followed by the poll does on separate lists; when it comes before iteration \<open>k\<close>, the
  callers that are answered are those of the first \<open>k\<close> items and of the cells from \<open>k\<close> on as the
  compaction left them, and no others. Nothing but the initial delay before the first poll keeps the
  loop ahead of it.
\<close>
theorem shared_slice:
  assumes "k \<le> length batch"
  shows "(k = length batch \<longrightarrow> registerAndAck_polled now kind bid batch k now' results b =
      pollBatch_apply now' bid results (registerAndAck now kind bid batch b)) \<and>
    (nb_pending (snd (registerAndAck_polled now kind bid batch k now' results b)) op =
      (if op \<in> bi_operationID ` set (take k batch @ drop k (cellsAfter results batch)) then None
       else nb_pending b op))"
proof -
  let ?r = "ackResult bid"
  let ?b1 = "ackCells ?r batch [0..<k] (registerBatch now kind bid batch b)"
  obtain calls b2 where p: "pollBatch_apply now' bid results ?b1 = (calls, b2)" by fastforce
  have b1: "?b1 = fold (\<lambda>item. resolvePending (bi_operationID item) ?r) (take k batch) (registerBatch now kind bid batch b)"
    using ackCells_items [of 0 k batch] assms by simp
  have res: "registerAndAck_polled now kind bid batch k now' results b =
      (calls, ackCells ?r (cellsAfter results batch) [k..<length batch] b2)"
    by (simp add: registerAndAck_polled_def Let_def p arrayAfterPoll_eq)
  have "nb_pending (ackCells ?r (cellsAfter results batch) [k..<length batch] b2) op =
      (if op \<in> bi_operationID ` set (drop k (cellsAfter results batch)) then None else nb_pending ?b1 op)"
    using ackCells_items [of k "length batch" "cellsAfter results batch"] assms pollBatch_apply_frame [OF p]
    by (simp add: ack_pending)
  then have "nb_pending (snd (registerAndAck_polled now kind bid batch k now' results b)) op =
      (if op \<in> bi_operationID ` set (take k batch @ drop k (cellsAfter results batch)) then None
       else nb_pending b op)"
    by (auto simp: res b1 ack_pending)
  moreover have "registerAndAck_polled now kind bid batch k now' results b =
      pollBatch_apply now' bid results (registerAndAck now kind bid batch b)" if "k = length batch"
    using that p unfolding res b1 by (simp add: registerAndAck_def ackCells_def)
  ultimately show ?thesis by blast
qed

text \<open>
  Two operations, and a poll that finds the first succeeded before the loop starts: both iterations
  read the second item. The first operation keeps its waiter, is neither queued nor in flight, and a
  retry of it only joins the waiters, so neither is ever answered.
\<close>

definition twoItems :: "batchItem list" where
  "twoItems = [resumeItem ''u1'', resumeItem ''u2'']"

definition twoWaiting :: NodeBatcher where
  "twoWaiting = NewNodeBatcher\<lparr>nb_pending := [''u1'' \<mapsto> [0], ''u2'' \<mapsto> [1]], nb_nextChan := 2\<rparr>"

definition firstDone :: "nodeResult list" where
  "firstDone = [\<lparr>nr_OperationId = ''u1'', nr_State = Succeeded_state, nr_ProviderIds = [], nr_Detail = []\<rparr>]"

lemma firstDone_cells:
  "cellsAfter firstDone twoItems = [resumeItem ''u2'', resumeItem ''u2'']"
  by (simp add: cellsAfter_def firstDone_def twoItems_def resultMap_def unresolved_def reported_def
      resumeItem_def Let_def)

theorem shared_slice_witness:
  "nb_pending (snd (registerAndAck_polled 0 opKindAdd ''b1'' twoItems 0 (121 * second) firstDone twoWaiting)) ''u1''
     = Some [0] \<and>
   nb_pending (snd (registerAndAck_polled 0 opKindAdd ''b1'' twoItems 0 (121 * second) firstDone twoWaiting)) ''u2''
     = None"
proof -
  have k: "0 \<le> length twoItems" by simp
  from conjunct2 [OF shared_slice [OF k]] show ?thesis
    by (simp add: firstDone_cells) (simp add: twoWaiting_def resumeItem_def)
qed

theorem lost_waiter_retry_joins:
  assumes "nb_pending b op = Some ws" and "op \<notin> nb_inFlight b"
  shows "snd (Enqueue op req b) = (snd (makeChan b))\<lparr>nb_pending := (nb_pending b)(op \<mapsto> ws @ [nb_nextChan b])\<rparr>"
  using assms by (simp add: Enqueue_def enqueueItem_not_inFlight enqueue_join_dedup)

end
