(* ===== verification/Deep_Copy.thy ===== *)
theory Deep_Copy
  imports Prelude
begin

text \<open>
  The generated copies of the API types, \<^verbatim>\<open>pkg/apis/v1alpha1/zz_generated.deepcopy.go\<close>, and
  the types of \<^verbatim>\<open>rafaynodeclass.go\<close> as they lie in memory. Everywhere else in this development a
  value is a value; here a slice is an address with an offset and a length, so that a shallow copy
  would share its array with the original, and the copies are shown not to.

  The locale \<open>deep_copier\<close> is the contract of a \<^verbatim>\<open>DeepCopyInto\<close>; it is interpreted for every
  generated copy. The copies of \<^verbatim>\<open>ObjectMeta\<close>, \<^verbatim>\<open>ListMeta\<close> and of a condition are library code:
  parameters of the definitions, assumed to satisfy the contract.
\<close>

section \<open>Memory\<close>

type_synonym addr = nat

text \<open>A slice: nothing for \<^verbatim>\<open>nil\<close>, else the backing array, the offset and the length.\<close>

type_synonym slice = "(addr \<times> nat \<times> nat) option"

record 'e heap =
  mem :: "addr \<Rightarrow> 'e list"
  nxt :: addr

definition alloc :: "'e list \<Rightarrow> 'e heap \<Rightarrow> addr \<times> 'e heap" where
  "alloc xs h = (nxt h, h\<lparr>mem := (mem h)(nxt h := xs), nxt := Suc (nxt h)\<rparr>)"

definition store :: "addr \<Rightarrow> nat \<Rightarrow> 'e \<Rightarrow> 'e heap \<Rightarrow> 'e heap" where
  "store a i x h = h\<lparr>mem := (mem h)(a := (mem h a)[i := x])\<rparr>"

text \<open>The elements of a slice, whether it lies in its array, and the addresses it reaches.\<close>

fun cells :: "'e heap \<Rightarrow> slice \<Rightarrow> 'e list" where
  "cells h None = []"
| "cells h (Some (a, off, len)) = take len (drop off (mem h a))"

fun inBounds :: "'e heap \<Rightarrow> slice \<Rightarrow> bool" where
  "inBounds h None \<longleftrightarrow> True"
| "inBounds h (Some (a, off, len)) \<longleftrightarrow> off + len \<le> length (mem h a)"

fun sliceFoot :: "('e heap \<Rightarrow> 'e \<Rightarrow> addr set) \<Rightarrow> 'e heap \<Rightarrow> slice \<Rightarrow> addr set" where
  "sliceFoot foot h None = {}"
| "sliceFoot foot h (Some (a, off, len)) = insert a (\<Union>x \<in> set (cells h (Some (a, off, len))). foot h x)"

fun sliceView :: "('e heap \<Rightarrow> 'e \<Rightarrow> 'v) \<Rightarrow> 'e heap \<Rightarrow> slice \<Rightarrow> 'v list option" where
  "sliceView view h None = None"
| "sliceView view h s = Some (map (view h) (cells h s))"

definition sliceOk :: "('e heap \<Rightarrow> 'e \<Rightarrow> bool) \<Rightarrow> 'e heap \<Rightarrow> slice \<Rightarrow> bool" where
  "sliceOk ok h s \<longleftrightarrow> inBounds h s \<and> (\<forall>x \<in> set (cells h s). ok h x)"

text \<open>
  The idiom of the generated code: \<^verbatim>\<open>*out = make([]T, len(*in))\<close>, then each element is copied
  into its place by the element type's \<^verbatim>\<open>DeepCopyInto\<close> (for \<^verbatim>\<open>copy\<close>, by assignment).
\<close>

definition copyElem :: "('e \<Rightarrow> 'e heap \<Rightarrow> 'e \<times> 'e heap) \<Rightarrow> addr \<Rightarrow> nat \<Rightarrow> addr \<Rightarrow> nat \<Rightarrow> 'e heap \<Rightarrow> 'e heap" where
  "copyElem copy a off b i h = (case copy (mem h a ! (off + i)) h of (x, h') \<Rightarrow> store b i x h')"

definition copySlice :: "'e \<Rightarrow> ('e \<Rightarrow> 'e heap \<Rightarrow> 'e \<times> 'e heap) \<Rightarrow> slice \<Rightarrow> 'e heap \<Rightarrow> slice \<times> 'e heap" where
  "copySlice zero copy s h =
     (case s of
        None \<Rightarrow> (None, h)
      | Some (a, off, len) \<Rightarrow>
          (case alloc (replicate len zero) h of
             (b, h1) \<Rightarrow> (Some (b, 0, len), fold (copyElem copy a off b) [0..<len] h1)))"

section \<open>The contract of a deep copy\<close>

text \<open>
  \<open>old\<close> is unchanged and only new addresses are used: what the copy reaches was not allocated before.
\<close>

definition grows :: "'e heap \<Rightarrow> 'e heap \<Rightarrow> bool" where
  "grows h h' \<longleftrightarrow> nxt h \<le> nxt h' \<and> (\<forall>a < nxt h. mem h' a = mem h a)"

lemma grows_refl [simp]: "grows h h"
  by (simp add: grows_def)

lemma grows_trans: "grows h h1 \<Longrightarrow> grows h1 h2 \<Longrightarrow> grows h h2"
  by (auto simp: grows_def)

locale deep_copier =
  fixes copy :: "'a \<Rightarrow> 'e heap \<Rightarrow> 'a \<times> 'e heap" and view :: "'e heap \<Rightarrow> 'a \<Rightarrow> 'v"
    and foot :: "'e heap \<Rightarrow> 'a \<Rightarrow> addr set" and ok :: "'e heap \<Rightarrow> 'a \<Rightarrow> bool"
  assumes frame: "\<forall>a \<in> foot h x. mem h' a = mem h a \<Longrightarrow>
      view h' x = view h x \<and> foot h' x = foot h x \<and> ok h' x = ok h x"
    and copied: "copy x h = (x', h') \<Longrightarrow> ok h x \<Longrightarrow> foot h x \<subseteq> {..<nxt h} \<Longrightarrow>
      grows h h' \<and> view h' x' = view h x \<and> ok h' x' \<and> foot h' x' \<subseteq> {nxt h..<nxt h'}"
begin

lemma kept:
  assumes "grows h h'" and "foot h x \<subseteq> {..<nxt h}"
  shows "view h' x = view h x" and "foot h' x = foot h x" and "ok h' x = ok h x"
  using frame [of h x h'] assms by (auto simp: grows_def)

lemma store_outside:
  assumes "a \<notin> foot h x"
  shows "view (store a i y h) x = view h x" and "foot (store a i y h) x = foot h x"
    and "ok (store a i y h) x = ok h x"
  using frame [of h x "store a i y h"] assms by (auto simp: store_def)

text \<open>Writes through the original do not reach the copy, and writes through the copy not the original.\<close>

lemma isolated:
  assumes "copy x h = (x', h')" and "ok h x" and "foot h x \<subseteq> {..<nxt h}"
  shows "view h' x' = view h x \<and> view h' x = view h x \<and>
    (\<forall>g. (\<forall>a \<ge> nxt h. mem g a = mem h' a) \<longrightarrow> view g x' = view h x) \<and>
    (\<forall>g. (\<forall>a < nxt h. mem g a = mem h' a) \<longrightarrow> view g x = view h x)"
proof -
  note c = copied [OF assms]
  have "foot h' x \<subseteq> {..<nxt h}" "view h' x = view h x" using kept [of h h' x] c assms(3) by auto
  then have "view g x = view h x" if "\<forall>a < nxt h. mem g a = mem h' a" for g
    using frame [of h' x g] that by auto
  moreover have "view g x' = view h x" if "\<forall>a \<ge> nxt h. mem g a = mem h' a" for g
  proof -
    from c have "\<forall>a \<in> foot h' x'. nxt h \<le> a" by auto
    with frame [of h' x' g] that c show ?thesis by simp
  qed
  ultimately show ?thesis using c \<open>view h' x = view h x\<close> by blast
qed

end

text \<open>Copies of the elements of an array: the contract passes to the slices over them.\<close>

locale elem_copier = deep_copier copy view foot ok
  for copy :: "'e \<Rightarrow> 'e heap \<Rightarrow> 'e \<times> 'e heap" and view :: "'e heap \<Rightarrow> 'e \<Rightarrow> 'v"
    and foot :: "'e heap \<Rightarrow> 'e \<Rightarrow> addr set" and ok :: "'e heap \<Rightarrow> 'e \<Rightarrow> bool"
begin

text \<open>After \<open>k\<close> iterations of the loop that copies \<open>src\<close> into the new array \<open>nxt h0\<close>.\<close>

definition copiedUpTo :: "'e heap \<Rightarrow> 'e list \<Rightarrow> nat \<Rightarrow> 'e heap \<Rightarrow> bool" where
  "copiedUpTo h0 src k h \<longleftrightarrow> grows h0 h \<and> nxt h0 < nxt h \<and> length (mem h (nxt h0)) = length src \<and>
     (\<forall>i < k. view h (mem h (nxt h0) ! i) = view h0 (src ! i) \<and> ok h (mem h (nxt h0) ! i) \<and>
        foot h (mem h (nxt h0) ! i) \<subseteq> {Suc (nxt h0)..<nxt h})"

lemma copied_step:
  assumes inv: "copiedUpTo h0 src k h" and k: "k < length src"
    and src: "ok h0 (src ! k)" "foot h0 (src ! k) \<subseteq> {..<nxt h0}"
    and cp: "copy (src ! k) h = (x, h1)"
  shows "copiedUpTo h0 src (Suc k) (store (nxt h0) k x h1)"
proof -
  let ?b = "nxt h0" and ?h2 = "store (nxt h0) k x h1"
  from inv have g0: "grows h0 h" and b: "?b < nxt h" and len: "length (mem h ?b) = length src"
    by (auto simp: copiedUpTo_def)
  note old = kept [OF g0 src(2)]
  have "foot h (src ! k) \<subseteq> {..<nxt h}" using old(2) src(2) g0 by (auto simp: grows_def)
  from copied [OF cp _ this] src(1) old(3) have c: "grows h h1" "view h1 x = view h (src ! k)" "ok h1 x"
    "foot h1 x \<subseteq> {nxt h..<nxt h1}" by auto
  have arr: "mem h1 ?b = mem h ?b" using c(1) b by (simp add: grows_def)
  have h2: "nxt ?h2 = nxt h1" "mem ?h2 ?b = (mem h ?b)[k := x]" by (simp_all add: store_def arr)
  have grow: "grows h0 ?h2" using grows_trans [OF g0 c(1)] by (simp add: grows_def store_def)
  have new: "view ?h2 x = view h0 (src ! k) \<and> ok ?h2 x \<and> foot ?h2 x \<subseteq> {Suc ?b..<nxt ?h2}"
  proof -
    have "?b \<notin> foot h1 x" using c(4) b by auto
    from store_outside [OF this] c old(1) b h2(1) show ?thesis by auto
  qed
  have before: "view ?h2 z = view h z \<and> ok ?h2 z = ok h z \<and> foot ?h2 z = foot h z"
    if "foot h z \<subseteq> {Suc ?b..<nxt h}" for z
  proof -
    have "foot h z \<subseteq> {..<nxt h}" using that by auto
    note k1 = kept [OF c(1) this]
    have "?b \<notin> foot h1 z" using that k1(2) by auto
    from store_outside [OF this] k1 show ?thesis by simp
  qed
  have "view ?h2 (mem ?h2 ?b ! i) = view h0 (src ! i) \<and> ok ?h2 (mem ?h2 ?b ! i) \<and>
      foot ?h2 (mem ?h2 ?b ! i) \<subseteq> {Suc ?b..<nxt ?h2}" if "i < Suc k" for i
  proof (cases "i = k")
    case True
    with new k len h2 show ?thesis by simp
  next
    case False
    with that inv have i: "view h (mem h ?b ! i) = view h0 (src ! i)" "ok h (mem h ?b ! i)"
      "foot h (mem h ?b ! i) \<subseteq> {Suc ?b..<nxt h}" by (auto simp: copiedUpTo_def)
    have e: "mem ?h2 ?b ! i = mem h ?b ! i" using False h2 by simp
    from before [OF i(3)] i h2(1) c(1) show ?thesis unfolding e by (auto simp: grows_def)
  qed
  moreover have "?b < nxt ?h2" using b c(1) h2(1) by (simp add: grows_def)
  moreover have "length (mem ?h2 ?b) = length src" using len h2(2) by simp
  ultimately show ?thesis using grow unfolding copiedUpTo_def by blast
qed

lemma copied_all:
  assumes a: "off + len \<le> length (mem h0 a)" "a < nxt h0"
    and src: "\<forall>x \<in> set (cells h0 (Some (a, off, len))). ok h0 x \<and> foot h0 x \<subseteq> {..<nxt h0}"
    and h1: "alloc (replicate len zero) h0 = (b, h1)"
  shows "k \<le> len \<Longrightarrow> copiedUpTo h0 (cells h0 (Some (a, off, len))) k (fold (copyElem copy a off b) [0..<k] h1)"
proof (induction k)
  case 0
  show ?case using a h1 by (auto simp: copiedUpTo_def alloc_def grows_def)
next
  case (Suc k)
  let ?src = "cells h0 (Some (a, off, len))"
  let ?h = "fold (copyElem copy a off b) [0..<k] h1"
  from Suc have inv: "copiedUpTo h0 ?src k ?h" and k: "k < len" by auto
  have b: "b = nxt h0" using h1 by (simp add: alloc_def)
  have ks: "k < length ?src" using k a by simp
  have "mem ?h a = mem h0 a" using inv a(2) by (simp add: copiedUpTo_def grows_def)
  then have e: "mem ?h a ! (off + k) = ?src ! k" using k a by simp
  obtain x h2 where cp: "copy (?src ! k) ?h = (x, h2)" by fastforce
  have "fold (copyElem copy a off b) [0..<Suc k] h1 = store (nxt h0) k x h2"
    using cp e by (simp add: copyElem_def b)
  moreover have "ok h0 (?src ! k)" "foot h0 (?src ! k) \<subseteq> {..<nxt h0}" using src ks nth_mem by blast+
  ultimately show ?case using copied_step [OF inv ks _ _ cp] by simp
qed

lemma cells_frame:
  assumes "\<forall>a \<in> sliceFoot foot h s. mem h' a = mem h a"
  shows "cells h' s = cells h s" and "inBounds h' s = inBounds h s"
    and "x \<in> set (cells h s) \<Longrightarrow> view h' x = view h x \<and> foot h' x = foot h x \<and> ok h' x = ok h x"
proof -
  show c: "cells h' s = cells h s" "inBounds h' s = inBounds h s"
    using assms by (cases s; force)+
  assume "x \<in> set (cells h s)"
  then show "view h' x = view h x \<and> foot h' x = foot h x \<and> ok h' x = ok h x"
    using assms by (intro frame) (cases s; force)
qed

lemma slice_frame:
  assumes "\<forall>a \<in> sliceFoot foot h s. mem h' a = mem h a"
  shows "sliceView view h' s = sliceView view h s \<and> sliceFoot foot h' s = sliceFoot foot h s \<and>
    sliceOk ok h' s = sliceOk ok h s"
proof -
  note c = cells_frame [OF assms]
  have "sliceView view h' s = sliceView view h s" using c by (cases s) auto
  moreover have "sliceFoot foot h' s = sliceFoot foot h s" using c by (cases s) auto
  moreover have "sliceOk ok h' s = sliceOk ok h s" unfolding sliceOk_def using c by auto
  ultimately show ?thesis by blast
qed

lemma slice_copied:
  assumes cp: "copySlice zero copy s h = (s', h')" and okS: "sliceOk ok h s"
    and foot: "sliceFoot foot h s \<subseteq> {..<nxt h}"
  shows "grows h h' \<and> sliceView view h' s' = sliceView view h s \<and> sliceOk ok h' s' \<and>
    sliceFoot foot h' s' \<subseteq> {nxt h..<nxt h'}"
proof (cases s)
  case None
  with cp show ?thesis by (simp add: copySlice_def sliceOk_def)
next
  case (Some t)
  then obtain a off len where s: "s = Some (a, off, len)" by (cases t) auto
  let ?src = "cells h (Some (a, off, len))"
  obtain b h1 where al: "alloc (replicate len zero) h = (b, h1)" by fastforce
  then have b: "b = nxt h" by (simp add: alloc_def)
  from okS s have bd: "off + len \<le> length (mem h a)" and el: "\<forall>x \<in> set ?src. ok h x"
    by (simp_all add: sliceOk_def)
  from foot s have a: "a < nxt h" and fe: "\<forall>x \<in> set ?src. foot h x \<subseteq> {..<nxt h}" by auto
  from cp s al have r: "s' = Some (b, 0, len)" "h' = fold (copyElem copy a off b) [0..<len] h1"
    by (simp_all add: copySlice_def)
  have "copiedUpTo h ?src len h'"
    unfolding r using copied_all [OF bd a _ al] el fe by blast
  then have inv: "grows h h'" "b < nxt h'" "length (mem h' b) = len"
    "\<And>i. i < len \<Longrightarrow> view h' (mem h' b ! i) = view h (?src ! i) \<and> ok h' (mem h' b ! i) \<and>
       foot h' (mem h' b ! i) \<subseteq> {Suc b..<nxt h'}"
    using bd by (auto simp: copiedUpTo_def b)
  have c: "cells h' s' = mem h' b" using inv(3) by (simp add: r)
  have "map (view h') (mem h' b) = map (view h) ?src"
    using inv(3,4) bd by (intro nth_equalityI) simp_all
  then have "sliceView view h' s' = sliceView view h s" using c by (simp add: s r del: cells.simps)
  moreover have "\<forall>x \<in> set (mem h' b). ok h' x \<and> foot h' x \<subseteq> {Suc b..<nxt h'}"
    using inv(3,4) by (metis in_set_conv_nth)
  moreover from this have "sliceOk ok h' s'" using c inv(3) by (simp add: sliceOk_def r del: cells.simps)
  ultimately show ?thesis using inv(1,2) c b by (fastforce simp: r simp del: cells.simps)
qed

lemma slice_copier: "deep_copier (copySlice zero copy) (sliceView view) (sliceFoot foot) (sliceOk ok)"
  by (rule deep_copier.intro, erule slice_frame, erule slice_copied)

end

section \<open>Putting copies together\<close>

text \<open>Two parts one after the other, a struct around a part, and an array cell around a struct.\<close>

definition pairCopy ::
  "('a \<Rightarrow> 'e heap \<Rightarrow> 'a \<times> 'e heap) \<Rightarrow> ('b \<Rightarrow> 'e heap \<Rightarrow> 'b \<times> 'e heap) \<Rightarrow> 'a \<times> 'b \<Rightarrow> 'e heap \<Rightarrow> ('a \<times> 'b) \<times> 'e heap" where
  "pairCopy c1 c2 p h =
     (case c1 (fst p) h of (x, h1) \<Rightarrow> (case c2 (snd p) h1 of (y, h2) \<Rightarrow> ((x, y), h2)))"

lemma pair_copier:
  fixes c1 :: "'a \<Rightarrow> 'e heap \<Rightarrow> 'a \<times> 'e heap" and c2 :: "'b \<Rightarrow> 'e heap \<Rightarrow> 'b \<times> 'e heap"
  assumes "deep_copier c1 v1 f1 o1" and "deep_copier c2 v2 f2 o2"
  shows "deep_copier (pairCopy c1 c2) (\<lambda>h p. (v1 h (fst p), v2 h (snd p)))
    (\<lambda>h p. f1 h (fst p) \<union> f2 h (snd p)) (\<lambda>h p. o1 h (fst p) \<and> o2 h (snd p))"
proof (rule deep_copier.intro)
  fix h h' :: "'e heap" and p
  assume "\<forall>a \<in> f1 h (fst p) \<union> f2 h (snd p). mem h' a = mem h a"
  then show "(v1 h' (fst p), v2 h' (snd p)) = (v1 h (fst p), v2 h (snd p)) \<and>
      f1 h' (fst p) \<union> f2 h' (snd p) = f1 h (fst p) \<union> f2 h (snd p) \<and>
      (o1 h' (fst p) \<and> o2 h' (snd p)) = (o1 h (fst p) \<and> o2 h (snd p))"
    using deep_copier.frame [OF assms(1), of h "fst p" h'] deep_copier.frame [OF assms(2), of h "snd p" h']
    by simp
next
  fix h h' :: "'e heap" and p p'
  assume c: "pairCopy c1 c2 p h = (p', h')" and o: "o1 h (fst p) \<and> o2 h (snd p)"
    and f: "f1 h (fst p) \<union> f2 h (snd p) \<subseteq> {..<nxt h}"
  obtain x h1 where 1: "c1 (fst p) h = (x, h1)" by fastforce
  obtain y h2 where 2: "c2 (snd p) h1 = (y, h2)" by fastforce
  from c 1 2 have r: "p' = (x, y)" "h' = h2" by (simp_all add: pairCopy_def)
  from deep_copier.copied [OF assms(1) 1] o f have x: "grows h h1" "v1 h1 x = v1 h (fst p)" "o1 h1 x"
    "f1 h1 x \<subseteq> {nxt h..<nxt h1}" by auto
  have "f2 h (snd p) \<subseteq> {..<nxt h}" using f by simp
  note k2 = deep_copier.kept [OF assms(2) x(1) this]
  have le: "nxt h \<le> nxt h1" using x(1) by (simp add: grows_def)
  have "f2 h1 (snd p) \<subseteq> {..<nxt h1}" using k2(2) f le by auto
  from deep_copier.copied [OF assms(2) 2 _ this] o k2 have y: "grows h1 h2" "v2 h2 y = v2 h (snd p)" "o2 h2 y"
    "f2 h2 y \<subseteq> {nxt h1..<nxt h2}" by auto
  have le2: "nxt h1 \<le> nxt h2" using y(1) by (simp add: grows_def)
  have "f1 h1 x \<subseteq> {..<nxt h1}" using x(4) by auto
  note k1 = deep_copier.kept [OF assms(1) y(1) this]
  have "f1 h2 x \<union> f2 h2 y \<subseteq> {nxt h..<nxt h2}" using k1(2) x(4) y(4) le le2 by auto
  then show "grows h h' \<and> (v1 h' (fst p'), v2 h' (snd p')) = (v1 h (fst p), v2 h (snd p)) \<and>
      (o1 h' (fst p') \<and> o2 h' (snd p')) \<and> f1 h' (fst p') \<union> f2 h' (snd p') \<subseteq> {nxt h..<nxt h'}"
    using grows_trans [OF x(1) y(1)] k1 x y by (simp add: r)
qed

lemma struct_copier:
  fixes c :: "'a \<Rightarrow> 'e heap \<Rightarrow> 'a \<times> 'e heap" and into :: "'s \<Rightarrow> 'e heap \<Rightarrow> 's \<times> 'e heap"
  assumes "deep_copier c v f okay"
    and into: "\<And>x h. into x h = (case c (get x) h of (y, h') \<Rightarrow> (put x y, h'))"
    and get: "\<And>x y. get (put x y) = y" and rest: "\<And>x y. rest (put x y) = rest x"
  shows "deep_copier into (\<lambda>h x. (rest x, v h (get x))) (\<lambda>h x. f h (get x)) (\<lambda>h x. okay h (get x))"
proof (rule deep_copier.intro)
  fix h h' :: "'e heap" and x
  assume "\<forall>a \<in> f h (get x). mem h' a = mem h a"
  from deep_copier.frame [OF assms(1) this]
  show "(rest x, v h' (get x)) = (rest x, v h (get x)) \<and> f h' (get x) = f h (get x) \<and>
      okay h' (get x) = okay h (get x)" by simp
next
  fix h h' :: "'e heap" and x x'
  assume i: "into x h = (x', h')" and o: "okay h (get x)" and f: "f h (get x) \<subseteq> {..<nxt h}"
  obtain y h1 where c: "c (get x) h = (y, h1)" by fastforce
  have "into x h = (put x y, h1)" unfolding into c by simp
  with i have r: "x' = put x y" "h' = h1" by simp_all
  from deep_copier.copied [OF assms(1) c o f]
  show "grows h h' \<and> (rest x', v h' (get x')) = (rest x, v h (get x)) \<and> okay h' (get x') \<and>
      f h' (get x') \<subseteq> {nxt h..<nxt h'}" by (simp only: r get rest simp_thms)
qed

lemma cell_copier:
  fixes c :: "'a \<Rightarrow> 'e heap \<Rightarrow> 'a \<times> 'e heap" and cellCopy :: "'s \<Rightarrow> 'e heap \<Rightarrow> 's \<times> 'e heap"
  assumes "deep_copier c v f okay"
    and cell: "\<And>x h. cellCopy x h = (case prj x of None \<Rightarrow> (x, h) | Some y \<Rightarrow> (case c y h of (y', h') \<Rightarrow> (mk y', h')))"
    and prj: "\<And>y. prj (mk y) = Some y"
  shows "deep_copier cellCopy (\<lambda>h x. map_option (v h) (prj x))
    (\<lambda>h x. case prj x of None \<Rightarrow> {} | Some y \<Rightarrow> f h y) (\<lambda>h x. case prj x of None \<Rightarrow> True | Some y \<Rightarrow> okay h y)"
proof (rule deep_copier.intro)
  fix h h' :: "'e heap" and x
  assume same: "\<forall>a \<in> (case prj x of None \<Rightarrow> {} | Some y \<Rightarrow> f h y). mem h' a = mem h a"
  show "map_option (v h') (prj x) = map_option (v h) (prj x) \<and>
      (case prj x of None \<Rightarrow> {} | Some y \<Rightarrow> f h' y) = (case prj x of None \<Rightarrow> {} | Some y \<Rightarrow> f h y) \<and>
      (case prj x of None \<Rightarrow> True | Some y \<Rightarrow> okay h' y) = (case prj x of None \<Rightarrow> True | Some y \<Rightarrow> okay h y)"
  proof (cases "prj x")
    case (Some y)
    with same have "\<forall>a \<in> f h y. mem h' a = mem h a" by simp
    from deep_copier.frame [OF assms(1) this] Some show ?thesis by simp
  qed simp
next
  fix h h' :: "'e heap" and x x'
  assume i: "cellCopy x h = (x', h')" and o: "case prj x of None \<Rightarrow> True | Some y \<Rightarrow> okay h y"
    and f: "(case prj x of None \<Rightarrow> {} | Some y \<Rightarrow> f h y) \<subseteq> {..<nxt h}"
  show "grows h h' \<and> map_option (v h') (prj x') = map_option (v h) (prj x) \<and>
      (case prj x' of None \<Rightarrow> True | Some y \<Rightarrow> okay h' y) \<and>
      (case prj x' of None \<Rightarrow> {} | Some y \<Rightarrow> f h' y) \<subseteq> {nxt h..<nxt h'}"
  proof (cases "prj x")
    case None
    with i show ?thesis by (simp add: cell)
  next
    case (Some y)
    obtain y' h1 where c: "c y h = (y', h1)" by fastforce
    from deep_copier.copied [OF assms(1) c] o f i c Some show ?thesis by (auto simp: cell prj)
  qed
qed

section \<open>The API types in memory\<close>

record instanceType =
  im_Name :: string
  im_CPU :: string
  im_Memory :: string
  im_GPU :: string
  im_Zone :: string
  im_Architectures :: slice
  im_OperatingSystems :: slice

record nodeClassSpec =
  sp_InstanceTypes :: slice

record nodeClassStatus =
  su_Conditions :: slice

text \<open>\<open>'m\<close> is \<^verbatim>\<open>ObjectMeta\<close>; the kind and API version are \<^verbatim>\<open>TypeMeta\<close>.\<close>

record 'm nodeClass =
  nm_Kind :: string
  nm_APIVersion :: string
  nm_Meta :: 'm
  nm_Spec :: nodeClassSpec
  nm_Status :: nodeClassStatus

record 'l nodeClassList =
  nl_Kind :: string
  nl_APIVersion :: string
  nl_Meta :: 'l
  nl_Items :: slice

text \<open>
  What an array holds: strings, instance types, conditions, NodeClasses, or whatever library types
  refer to.
\<close>

datatype ('m, 'c, 'x) cell =
    StrCell string
  | TypeCell instanceType
  | CondCell 'c
  | ClassCell "'m nodeClass"
  | OtherCell 'x

text \<open>
  The library's \<^verbatim>\<open>DeepCopyInto\<close> for the metadata, the list's metadata and a condition, and the
  zero values of its types.
\<close>

record ('m, 'l, 'c, 'x) libCopies =
  lc_Meta :: "'m \<Rightarrow> ('m, 'c, 'x) cell heap \<Rightarrow> 'm \<times> ('m, 'c, 'x) cell heap"
  lc_List :: "'l \<Rightarrow> ('m, 'c, 'x) cell heap \<Rightarrow> 'l \<times> ('m, 'c, 'x) cell heap"
  lc_Cond :: "'c \<Rightarrow> ('m, 'c, 'x) cell heap \<Rightarrow> 'c \<times> ('m, 'c, 'x) cell heap"
  lc_zeroMeta :: 'm
  lc_zeroCond :: 'c

section \<open>The generated copies\<close>

definition copyString :: "('m, 'c, 'x) cell \<Rightarrow> ('m, 'c, 'x) cell heap \<Rightarrow> ('m, 'c, 'x) cell \<times> ('m, 'c, 'x) cell heap" where
  "copyString x h = (x, h)"

definition InstanceTypeSpec_DeepCopyInto ::
  "instanceType \<Rightarrow> ('m, 'c, 'x) cell heap \<Rightarrow> instanceType \<times> ('m, 'c, 'x) cell heap" where
  "InstanceTypeSpec_DeepCopyInto x h =
     (case copySlice (StrCell []) copyString (im_Architectures x) h of
        (archs, h1) \<Rightarrow>
          (case copySlice (StrCell []) copyString (im_OperatingSystems x) h1 of
             (oss, h2) \<Rightarrow> (x\<lparr>im_Architectures := archs, im_OperatingSystems := oss\<rparr>, h2)))"

definition zeroType :: instanceType where
  "zeroType = \<lparr>im_Name = [], im_CPU = [], im_Memory = [], im_GPU = [], im_Zone = [],
     im_Architectures = None, im_OperatingSystems = None\<rparr>"

text \<open>An element of a slice, by the copy of its type.\<close>

fun copyTypeCell :: "('m, 'c, 'x) cell \<Rightarrow> ('m, 'c, 'x) cell heap \<Rightarrow> ('m, 'c, 'x) cell \<times> ('m, 'c, 'x) cell heap" where
  "copyTypeCell (TypeCell x) h = (case InstanceTypeSpec_DeepCopyInto x h of (y, h') \<Rightarrow> (TypeCell y, h'))"
| "copyTypeCell x h = (x, h)"

definition RafayNodeClassSpec_DeepCopyInto ::
  "nodeClassSpec \<Rightarrow> ('m, 'c, 'x) cell heap \<Rightarrow> nodeClassSpec \<times> ('m, 'c, 'x) cell heap" where
  "RafayNodeClassSpec_DeepCopyInto x h =
     (case copySlice (TypeCell zeroType) copyTypeCell (sp_InstanceTypes x) h of
        (its, h') \<Rightarrow> (x\<lparr>sp_InstanceTypes := its\<rparr>, h'))"

fun copyCondCell ::
  "('m, 'l, 'c, 'x) libCopies \<Rightarrow> ('m, 'c, 'x) cell \<Rightarrow> ('m, 'c, 'x) cell heap \<Rightarrow> ('m, 'c, 'x) cell \<times> ('m, 'c, 'x) cell heap" where
  "copyCondCell lib (CondCell x) h = (case lc_Cond lib x h of (y, h') \<Rightarrow> (CondCell y, h'))"
| "copyCondCell lib x h = (x, h)"

definition RafayNodeClassStatus_DeepCopyInto ::
  "('m, 'l, 'c, 'x) libCopies \<Rightarrow> nodeClassStatus \<Rightarrow> ('m, 'c, 'x) cell heap \<Rightarrow> nodeClassStatus \<times> ('m, 'c, 'x) cell heap" where
  "RafayNodeClassStatus_DeepCopyInto lib x h =
     (case copySlice (CondCell (lc_zeroCond lib)) (copyCondCell lib) (su_Conditions x) h of
        (cs, h') \<Rightarrow> (x\<lparr>su_Conditions := cs\<rparr>, h'))"

definition RafayNodeClass_DeepCopyInto ::
  "('m, 'l, 'c, 'x) libCopies \<Rightarrow> 'm nodeClass \<Rightarrow> ('m, 'c, 'x) cell heap \<Rightarrow> 'm nodeClass \<times> ('m, 'c, 'x) cell heap" where
  "RafayNodeClass_DeepCopyInto lib x h =
     (case lc_Meta lib (nm_Meta x) h of
        (m, h1) \<Rightarrow>
          (case RafayNodeClassSpec_DeepCopyInto (nm_Spec x) h1 of
             (sp, h2) \<Rightarrow>
               (case RafayNodeClassStatus_DeepCopyInto lib (nm_Status x) h2 of
                  (su, h3) \<Rightarrow> (x\<lparr>nm_Meta := m, nm_Spec := sp, nm_Status := su\<rparr>, h3))))"

fun copyClassCell ::
  "('m, 'l, 'c, 'x) libCopies \<Rightarrow> ('m, 'c, 'x) cell \<Rightarrow> ('m, 'c, 'x) cell heap \<Rightarrow> ('m, 'c, 'x) cell \<times> ('m, 'c, 'x) cell heap" where
  "copyClassCell lib (ClassCell x) h = (case RafayNodeClass_DeepCopyInto lib x h of (y, h') \<Rightarrow> (ClassCell y, h'))"
| "copyClassCell lib x h = (x, h)"

definition zeroClass :: "('m, 'l, 'c, 'x) libCopies \<Rightarrow> 'm nodeClass" where
  "zeroClass lib = \<lparr>nm_Kind = [], nm_APIVersion = [], nm_Meta = lc_zeroMeta lib,
     nm_Spec = \<lparr>sp_InstanceTypes = None\<rparr>, nm_Status = \<lparr>su_Conditions = None\<rparr>\<rparr>"

definition RafayNodeClassList_DeepCopyInto ::
  "('m, 'l, 'c, 'x) libCopies \<Rightarrow> 'l nodeClassList \<Rightarrow> ('m, 'c, 'x) cell heap \<Rightarrow> 'l nodeClassList \<times> ('m, 'c, 'x) cell heap" where
  "RafayNodeClassList_DeepCopyInto lib x h =
     (case lc_List lib (nl_Meta x) h of
        (m, h1) \<Rightarrow>
          (case copySlice (ClassCell (zeroClass lib)) (copyClassCell lib) (nl_Items x) h1 of
             (items, h2) \<Rightarrow> (x\<lparr>nl_Meta := m, nl_Items := items\<rparr>, h2)))"

text \<open>
  \<^verbatim>\<open>DeepCopy\<close> and \<^verbatim>\<open>DeepCopyObject\<close>: a nil pointer is \<open>None\<close>. The interface a nil copy is
  put into is nil as well.
\<close>

definition deepCopy :: "('a \<Rightarrow> 'e heap \<Rightarrow> 'a \<times> 'e heap) \<Rightarrow> 'a option \<Rightarrow> 'e heap \<Rightarrow> 'a option \<times> 'e heap" where
  "deepCopy into x h =
     (case x of None \<Rightarrow> (None, h) | Some y \<Rightarrow> (case into y h of (y', h') \<Rightarrow> (Some y', h')))"

definition InstanceTypeSpec_DeepCopy where
  "InstanceTypeSpec_DeepCopy = deepCopy InstanceTypeSpec_DeepCopyInto"

definition RafayNodeClassSpec_DeepCopy where
  "RafayNodeClassSpec_DeepCopy = deepCopy RafayNodeClassSpec_DeepCopyInto"

definition RafayNodeClassStatus_DeepCopy where
  "RafayNodeClassStatus_DeepCopy lib = deepCopy (RafayNodeClassStatus_DeepCopyInto lib)"

definition RafayNodeClass_DeepCopy where
  "RafayNodeClass_DeepCopy lib = deepCopy (RafayNodeClass_DeepCopyInto lib)"

definition RafayNodeClassList_DeepCopy where
  "RafayNodeClassList_DeepCopy lib = deepCopy (RafayNodeClassList_DeepCopyInto lib)"

definition RafayNodeClass_DeepCopyObject where
  "RafayNodeClass_DeepCopyObject lib x h =
     (case RafayNodeClass_DeepCopy lib x h of
        (None, h') \<Rightarrow> (None, h')
      | (Some c, h') \<Rightarrow> (Some c, h'))"

definition RafayNodeClassList_DeepCopyObject where
  "RafayNodeClassList_DeepCopyObject lib x h =
     (case RafayNodeClassList_DeepCopy lib x h of
        (None, h') \<Rightarrow> (None, h')
      | (Some c, h') \<Rightarrow> (Some c, h'))"

text \<open>The accessors of the status.\<close>

definition GetConditions :: "'m nodeClass \<Rightarrow> slice" where
  "GetConditions x = su_Conditions (nm_Status x)"

definition SetConditions :: "slice \<Rightarrow> 'm nodeClass \<Rightarrow> 'm nodeClass" where
  "SetConditions cs x = x\<lparr>nm_Status := (nm_Status x)\<lparr>su_Conditions := cs\<rparr>\<rparr>"

section \<open>The generated copies keep the contract\<close>

text \<open>What a value is, apart from where it lies; what it reaches; and that its slices lie in their arrays.\<close>

fun strOf :: "('m, 'c, 'x) cell \<Rightarrow> string option" where
  "strOf (StrCell x) = Some x"
| "strOf _ = None"

fun typeOf :: "('m, 'c, 'x) cell \<Rightarrow> instanceType option" where
  "typeOf (TypeCell x) = Some x"
| "typeOf _ = None"

fun condOf :: "('m, 'c, 'x) cell \<Rightarrow> 'c option" where
  "condOf (CondCell x) = Some x"
| "condOf _ = None"

fun classOf :: "('m, 'c, 'x) cell \<Rightarrow> 'm nodeClass option" where
  "classOf (ClassCell x) = Some x"
| "classOf _ = None"

interpretation strings: elem_copier copyString "\<lambda>h. strOf" "\<lambda>h x. {}" "\<lambda>h x. True"
  by unfold_locales (auto simp: copyString_def)

definition stringsView :: "('m, 'c, 'x) cell heap \<Rightarrow> slice \<Rightarrow> string option list option" where
  "stringsView = sliceView (\<lambda>h. strOf)"
definition stringsFoot :: "('m, 'c, 'x) cell heap \<Rightarrow> slice \<Rightarrow> addr set" where
  "stringsFoot = sliceFoot (\<lambda>h x. {})"
definition stringsOk :: "('m, 'c, 'x) cell heap \<Rightarrow> slice \<Rightarrow> bool" where
  "stringsOk = sliceOk (\<lambda>h x. True)"

interpretation string_slices: deep_copier "copySlice (StrCell []) copyString" stringsView stringsFoot stringsOk
  unfolding stringsView_def stringsFoot_def stringsOk_def by (rule strings.slice_copier)

definition typeSlices :: "instanceType \<Rightarrow> slice \<times> slice" where
  "typeSlices x = (im_Architectures x, im_OperatingSystems x)"

type_synonym typeValue = "(string \<times> string \<times> string \<times> string \<times> string) \<times> string option list option \<times> string option list option"

definition typeView :: "('m, 'c, 'x) cell heap \<Rightarrow> instanceType \<Rightarrow> typeValue" where
  "typeView h x = ((im_Name x, im_CPU x, im_Memory x, im_GPU x, im_Zone x),
     (stringsView h (fst (typeSlices x)), stringsView h (snd (typeSlices x))))"

definition typeFoot :: "('m, 'c, 'x) cell heap \<Rightarrow> instanceType \<Rightarrow> addr set" where
  "typeFoot h x = stringsFoot h (fst (typeSlices x)) \<union> stringsFoot h (snd (typeSlices x))"

definition typeOk :: "('m, 'c, 'x) cell heap \<Rightarrow> instanceType \<Rightarrow> bool" where
  "typeOk h x \<longleftrightarrow> stringsOk h (fst (typeSlices x)) \<and> stringsOk h (snd (typeSlices x))"

interpretation types: deep_copier InstanceTypeSpec_DeepCopyInto typeView typeFoot typeOk
proof -
  have "deep_copier InstanceTypeSpec_DeepCopyInto
      (\<lambda>h x. ((im_Name x, im_CPU x, im_Memory x, im_GPU x, im_Zone x),
         (stringsView h (fst (typeSlices x)), stringsView h (snd (typeSlices x)))))
      (\<lambda>h x. stringsFoot h (fst (typeSlices x)) \<union> stringsFoot h (snd (typeSlices x)))
      (\<lambda>h x. stringsOk h (fst (typeSlices x)) \<and> stringsOk h (snd (typeSlices x)))"
    by (rule struct_copier [OF pair_copier [OF string_slices.deep_copier_axioms string_slices.deep_copier_axioms],
          where put = "\<lambda>x p. x\<lparr>im_Architectures := fst p, im_OperatingSystems := snd p\<rparr>"])
      (simp_all add: typeSlices_def InstanceTypeSpec_DeepCopyInto_def pairCopy_def split: prod.splits)
  then show "deep_copier InstanceTypeSpec_DeepCopyInto typeView typeFoot typeOk"
    by (simp only: typeView_def [abs_def] typeFoot_def [abs_def] typeOk_def [abs_def])
qed

definition typeCellView :: "('m, 'c, 'x) cell heap \<Rightarrow> ('m, 'c, 'x) cell \<Rightarrow> typeValue option" where
  "typeCellView h x = map_option (typeView h) (typeOf x)"
definition typeCellFoot :: "('m, 'c, 'x) cell heap \<Rightarrow> ('m, 'c, 'x) cell \<Rightarrow> addr set" where
  "typeCellFoot h x = (case typeOf x of None \<Rightarrow> {} | Some y \<Rightarrow> typeFoot h y)"
definition typeCellOk :: "('m, 'c, 'x) cell heap \<Rightarrow> ('m, 'c, 'x) cell \<Rightarrow> bool" where
  "typeCellOk h x \<longleftrightarrow> (case typeOf x of None \<Rightarrow> True | Some y \<Rightarrow> typeOk h y)"

lemma copyTypeCell_eq:
  "copyTypeCell x h = (case typeOf x of None \<Rightarrow> (x, h)
     | Some y \<Rightarrow> (case InstanceTypeSpec_DeepCopyInto y h of (y', h') \<Rightarrow> (TypeCell y', h')))"
  by (cases x) simp_all

interpretation type_cells: elem_copier copyTypeCell typeCellView typeCellFoot typeCellOk
  unfolding typeCellView_def [abs_def] typeCellFoot_def [abs_def] typeCellOk_def [abs_def] elem_copier_def
  by (rule cell_copier [OF types.deep_copier_axioms copyTypeCell_eq]) simp

definition typesView :: "('m, 'c, 'x) cell heap \<Rightarrow> nodeClassSpec \<Rightarrow> typeValue option list option" where
  "typesView h x = sliceView typeCellView h (sp_InstanceTypes x)"

definition typesFoot :: "('m, 'c, 'x) cell heap \<Rightarrow> nodeClassSpec \<Rightarrow> addr set" where
  "typesFoot h x = sliceFoot typeCellFoot h (sp_InstanceTypes x)"

definition typesOk :: "('m, 'c, 'x) cell heap \<Rightarrow> nodeClassSpec \<Rightarrow> bool" where
  "typesOk h x \<longleftrightarrow> sliceOk typeCellOk h (sp_InstanceTypes x)"

text \<open>A struct whose copy has no part that stays: its value is the value of its parts.\<close>

lemma whole_copier:
  fixes c :: "'a \<Rightarrow> 'e heap \<Rightarrow> 'a \<times> 'e heap" and into :: "'s \<Rightarrow> 'e heap \<Rightarrow> 's \<times> 'e heap"
  assumes "deep_copier c v f okay"
    and "\<And>x h. into x h = (case c (get x) h of (y, h') \<Rightarrow> (put x y, h'))" and "\<And>x y. get (put x y) = y"
  shows "deep_copier into (\<lambda>h x. v h (get x)) (\<lambda>h x. f h (get x)) (\<lambda>h x. okay h (get x))"
proof -
  have d: "deep_copier into (\<lambda>h x. ((), v h (get x))) (\<lambda>h x. f h (get x)) (\<lambda>h x. okay h (get x))"
    by (rule struct_copier [OF assms(1,2,3)]) simp_all
  show ?thesis
    by (rule deep_copier.intro, drule deep_copier.frame [OF d], simp, drule (2) deep_copier.copied [OF d], simp)
qed

interpretation specs: deep_copier RafayNodeClassSpec_DeepCopyInto typesView typesFoot typesOk
  unfolding typesView_def [abs_def] typesFoot_def [abs_def] typesOk_def [abs_def]
  by (rule whole_copier [OF type_cells.slice_copier, where put = "\<lambda>x y. x\<lparr>sp_InstanceTypes := y\<rparr>"])
    (simp_all add: RafayNodeClassSpec_DeepCopyInto_def)

text \<open>The copies that call library code satisfy the contract when the library's copies do.\<close>

definition condsView :: "(('m, 'c, 'x) cell heap \<Rightarrow> 'c \<Rightarrow> 'u) \<Rightarrow> ('m, 'c, 'x) cell heap \<Rightarrow> nodeClassStatus \<Rightarrow> 'u option list option" where
  "condsView cv h x = sliceView (\<lambda>h x. map_option (cv h) (condOf x)) h (su_Conditions x)"

definition condsFoot :: "(('m, 'c, 'x) cell heap \<Rightarrow> 'c \<Rightarrow> addr set) \<Rightarrow> ('m, 'c, 'x) cell heap \<Rightarrow> nodeClassStatus \<Rightarrow> addr set" where
  "condsFoot cf h x = sliceFoot (\<lambda>h x. case condOf x of None \<Rightarrow> {} | Some y \<Rightarrow> cf h y) h (su_Conditions x)"

definition condsOk :: "(('m, 'c, 'x) cell heap \<Rightarrow> 'c \<Rightarrow> bool) \<Rightarrow> ('m, 'c, 'x) cell heap \<Rightarrow> nodeClassStatus \<Rightarrow> bool" where
  "condsOk co h x \<longleftrightarrow> sliceOk (\<lambda>h x. case condOf x of None \<Rightarrow> True | Some y \<Rightarrow> co h y) h (su_Conditions x)"

lemma copyCondCell_eq:
  "copyCondCell lib x h = (case condOf x of None \<Rightarrow> (x, h)
     | Some y \<Rightarrow> (case lc_Cond lib y h of (y', h') \<Rightarrow> (CondCell y', h')))"
  by (cases x) simp_all

lemma status_copier:
  assumes "deep_copier (lc_Cond lib) cv cf co"
  shows "deep_copier (RafayNodeClassStatus_DeepCopyInto lib) (condsView cv) (condsFoot cf) (condsOk co)"
proof -
  have "elem_copier (copyCondCell lib) (\<lambda>h x. map_option (cv h) (condOf x))
      (\<lambda>h x. case condOf x of None \<Rightarrow> {} | Some y \<Rightarrow> cf h y) (\<lambda>h x. case condOf x of None \<Rightarrow> True | Some y \<Rightarrow> co h y)"
    unfolding elem_copier_def by (rule cell_copier [OF assms copyCondCell_eq]) simp
  from elem_copier.slice_copier [OF this] show ?thesis
    unfolding condsView_def [abs_def] condsFoot_def [abs_def] condsOk_def [abs_def]
    by (rule whole_copier [where put = "\<lambda>x y. x\<lparr>su_Conditions := y\<rparr>"])
      (simp_all add: RafayNodeClassStatus_DeepCopyInto_def)
qed

text \<open>The value, the addresses and the bounds of a NodeClass.\<close>

definition classParts :: "'m nodeClass \<Rightarrow> 'm \<times> nodeClassSpec \<times> nodeClassStatus" where
  "classParts x = (nm_Meta x, nm_Spec x, nm_Status x)"

definition classView where
  "classView mv cv h x = ((nm_Kind x, nm_APIVersion x),
     (mv h (fst (classParts x)), (typesView h (fst (snd (classParts x))), condsView cv h (snd (snd (classParts x))))))"

definition classFoot :: "(('m, 'c, 'x) cell heap \<Rightarrow> 'm \<Rightarrow> addr set) \<Rightarrow> (('m, 'c, 'x) cell heap \<Rightarrow> 'c \<Rightarrow> addr set) \<Rightarrow>
  ('m, 'c, 'x) cell heap \<Rightarrow> 'm nodeClass \<Rightarrow> addr set" where
  "classFoot mf cf h x = mf h (fst (classParts x)) \<union>
     (typesFoot h (fst (snd (classParts x))) \<union> condsFoot cf h (snd (snd (classParts x))))"

definition classOk :: "(('m, 'c, 'x) cell heap \<Rightarrow> 'm \<Rightarrow> bool) \<Rightarrow> (('m, 'c, 'x) cell heap \<Rightarrow> 'c \<Rightarrow> bool) \<Rightarrow>
  ('m, 'c, 'x) cell heap \<Rightarrow> 'm nodeClass \<Rightarrow> bool" where
  "classOk mo co h x \<longleftrightarrow> mo h (fst (classParts x)) \<and>
     (typesOk h (fst (snd (classParts x))) \<and> condsOk co h (snd (snd (classParts x))))"

lemma class_copier:
  assumes "deep_copier (lc_Meta lib) mv mf mo" and "deep_copier (lc_Cond lib) cv cf co"
  shows "deep_copier (RafayNodeClass_DeepCopyInto lib) (classView mv cv) (classFoot mf cf) (classOk mo co)"
  unfolding classView_def [abs_def] classFoot_def [abs_def] classOk_def [abs_def]
  by (rule struct_copier [OF pair_copier [OF assms(1) pair_copier [OF specs.deep_copier_axioms status_copier [OF assms(2)]]],
        where put = "\<lambda>x p. x\<lparr>nm_Meta := fst p, nm_Spec := fst (snd p), nm_Status := snd (snd p)\<rparr>"])
    (simp_all add: classParts_def RafayNodeClass_DeepCopyInto_def pairCopy_def split: prod.splits)

lemma copyClassCell_eq:
  "copyClassCell lib x h = (case classOf x of None \<Rightarrow> (x, h)
     | Some y \<Rightarrow> (case RafayNodeClass_DeepCopyInto lib y h of (y', h') \<Rightarrow> (ClassCell y', h')))"
  by (cases x) simp_all

text \<open>The list of NodeClasses.\<close>

definition listParts :: "'l nodeClassList \<Rightarrow> 'l \<times> slice" where
  "listParts x = (nl_Meta x, nl_Items x)"

definition listView where
  "listView lv mv cv h x = ((nl_Kind x, nl_APIVersion x), (lv h (fst (listParts x)),
     sliceView (\<lambda>h x. map_option (classView mv cv h) (classOf x)) h (snd (listParts x))))"

definition listFoot where
  "listFoot lf mf cf h x = lf h (fst (listParts x)) \<union>
     sliceFoot (\<lambda>h x. case classOf x of None \<Rightarrow> {} | Some y \<Rightarrow> classFoot mf cf h y) h (snd (listParts x))"

definition listOk where
  "listOk lo mo co h x \<longleftrightarrow> lo h (fst (listParts x)) \<and>
     sliceOk (\<lambda>h x. case classOf x of None \<Rightarrow> True | Some y \<Rightarrow> classOk mo co h y) h (snd (listParts x))"

lemma list_copier:
  assumes "deep_copier (lc_List lib) lv lf lo" and "deep_copier (lc_Meta lib) mv mf mo"
    and "deep_copier (lc_Cond lib) cv cf co"
  shows "deep_copier (RafayNodeClassList_DeepCopyInto lib) (listView lv mv cv) (listFoot lf mf cf) (listOk lo mo co)"
proof -
  have "elem_copier (copyClassCell lib) (\<lambda>h x. map_option (classView mv cv h) (classOf x))
      (\<lambda>h x. case classOf x of None \<Rightarrow> {} | Some y \<Rightarrow> classFoot mf cf h y)
      (\<lambda>h x. case classOf x of None \<Rightarrow> True | Some y \<Rightarrow> classOk mo co h y)"
    unfolding elem_copier_def by (rule cell_copier [OF class_copier [OF assms(2,3)] copyClassCell_eq]) simp
  note items = elem_copier.slice_copier [OF this]
  show ?thesis unfolding listView_def [abs_def] listFoot_def [abs_def] listOk_def [abs_def]
    by (rule struct_copier [OF pair_copier [OF assms(1) items [of "ClassCell (zeroClass lib)"]],
          where put = "\<lambda>x p. x\<lparr>nl_Meta := fst p, nl_Items := snd p\<rparr>"])
      (simp_all add: listParts_def RafayNodeClassList_DeepCopyInto_def pairCopy_def split: prod.splits)
qed

section \<open>A copy is a copy\<close>

text \<open>
  C34: The generated \<open>DeepCopy\<close> of a NodeClass is deep: when the library's copies of the metadata and
  of a condition are, the copy has the value of the original down to the strings of its slices and
  whether a slice is nil, the original keeps its value, whatever is then written to the memory the
  original could reach leaves the copy as it was, and whatever is written to the memory allocated
  for the copy leaves the original as it was. So the readiness controller's patch is computed against
  the object as it was read, whether or not the conditions are changed in place.
\<close>
theorem deep_copy_isolated:
  assumes "deep_copier (lc_Meta lib) mv mf mo" and "deep_copier (lc_Cond lib) cv cf co"
    and "classOk mo co h x" and "classFoot mf cf h x \<subseteq> {..<nxt h}"
    and "RafayNodeClass_DeepCopy lib (Some x) h = (y, h')"
  shows "\<exists>x'. y = Some x' \<and> classView mv cv h' x' = classView mv cv h x \<and>
    classView mv cv h' x = classView mv cv h x \<and>
    (\<forall>g. (\<forall>a \<ge> nxt h. mem g a = mem h' a) \<longrightarrow> classView mv cv g x' = classView mv cv h x) \<and>
    (\<forall>g. (\<forall>a < nxt h. mem g a = mem h' a) \<longrightarrow> classView mv cv g x = classView mv cv h x)"
proof -
  obtain x' h1 where c: "RafayNodeClass_DeepCopyInto lib x h = (x', h1)" by fastforce
  with assms(5) have r: "y = Some x'" "h1 = h'" by (simp_all add: RafayNodeClass_DeepCopy_def deepCopy_def)
  from deep_copier.isolated [OF class_copier [OF assms(1,2)] c assms(3,4)] show ?thesis
    unfolding r by blast
qed

text \<open>A NodeClass with one instance type and one condition; the metadata is a slice of labels.\<close>

definition exLib :: "(slice, unit, string \<times> bool, unit) libCopies" where
  "exLib = \<lparr>lc_Meta = copySlice (StrCell []) copyString, lc_List = (\<lambda>x h. (x, h)), lc_Cond = (\<lambda>x h. (x, h)),
     lc_zeroMeta = None, lc_zeroCond = ([], False)\<rparr>"

definition exMem :: "(slice, string \<times> bool, unit) cell heap" where
  "exMem = \<lparr>mem = (\<lambda>_. [])(0 := [StrCell ''amd64''], 1 := [TypeCell (zeroType\<lparr>im_Name := ''small'',
     im_Architectures := Some (0, 0, 1)\<rparr>)], 2 := [CondCell (''Ready'', True)], 3 := [StrCell ''app'']), nxt = 4\<rparr>"

definition exNodeClass :: "slice nodeClass" where
  "exNodeClass = \<lparr>nm_Kind = ''RafayNodeClass'', nm_APIVersion = ''karpenter.rafay.io/v1alpha1'', nm_Meta = Some (3, 0, 1),
     nm_Spec = \<lparr>sp_InstanceTypes = Some (1, 0, 1)\<rparr>, nm_Status = \<lparr>su_Conditions = Some (2, 0, 1)\<rparr>\<rparr>"

lemmas ex_eval = classFoot_def classOk_def classParts_def typesFoot_def typesOk_def condsFoot_def condsOk_def
  typeCellFoot_def typeCellOk_def typeFoot_def typeOk_def typeSlices_def stringsFoot_def stringsOk_def
  sliceOk_def exMem_def exNodeClass_def zeroType_def

theorem deep_copy_isolated_witness:
  "\<exists>x' h'. RafayNodeClass_DeepCopy exLib (Some exNodeClass) exMem = (Some x', h') \<and>
     classView stringsView (\<lambda>h x. x) (store 0 0 (StrCell ''arm64'') h') x' = classView stringsView (\<lambda>h x. x) exMem exNodeClass"
proof -
  have m: "deep_copier (lc_Meta exLib) stringsView stringsFoot stringsOk"
    using string_slices.deep_copier_axioms by (simp add: exLib_def)
  have c: "deep_copier (lc_Cond exLib) (\<lambda>h x. x) (\<lambda>h x. {}) (\<lambda>h x. True)"
    by (unfold_locales) (auto simp: exLib_def)
  have ok: "classOk stringsOk (\<lambda>h x. True) exMem exNodeClass" by (simp add: ex_eval)
  have f: "classFoot stringsFoot (\<lambda>h x. {}) exMem exNodeClass \<subseteq> {..<nxt exMem}" by (simp add: ex_eval)
  obtain y h' where d: "RafayNodeClass_DeepCopy exLib (Some exNodeClass) exMem = (y, h')" by fastforce
  have "\<forall>a \<ge> nxt exMem. mem (store 0 0 (StrCell ''arm64'') h') a = mem h' a"
    by (simp add: store_def exMem_def)
  with deep_copy_isolated [OF m c ok f d] d show ?thesis by blast
qed

end
