(* ===== verification/Go_Float.thy ===== *)
theory Go_Float
  imports Complex_Main "HOL-Library.Log_Nat" "HOL-Library.Code_Target_Numeral"
begin

text \<open>
  Go's \<^verbatim>\<open>float64\<close>: infinities, not-a-number and finite values, the latter as the rational they
  denote. An operation computes the exact rational result and rounds it to 53 significant bits,
  ties to even, with the least exponent -1074 and overflow to infinity. The sign of zero is not kept;
  no operation of the program tells the two zeros apart.
\<close>

datatype float64 = NaN | Inf bool | Fin rat

text \<open>The exponent \<open>e\<close> with \<open>2^e \<le> x < 2^(e+1)\<close>, for positive \<open>x\<close>.\<close>

definition exponentOf :: "rat \<Rightarrow> int" where
  "exponentOf x =
     (let (n, d) = quotient_of x;
          e = int (floorlog 2 (nat n)) - int (floorlog 2 (nat d))
      in if 2 powi e \<le> x then e else e - 1)"

text \<open>Rounding to an integer, ties to even.\<close>

definition roundEven :: "rat \<Rightarrow> int" where
  "roundEven x =
     (let f = \<lfloor>x\<rfloor>; r = x - of_int f
      in if r < 1 / 2 then f else if r > 1 / 2 then f + 1 else if even f then f else f + 1)"

definition ulpOf :: "rat \<Rightarrow> rat" where
  "ulpOf x = 2 powi (max (exponentOf x - 52) (- 1074))"

definition fround :: "rat \<Rightarrow> float64" where
  "fround x =
     (if x = 0 then Fin 0
      else
        (let a = \<bar>x\<bar>; u = ulpOf a; m = of_int (roundEven (a / u)) * u
         in if m \<ge> 2 ^ 1024 then Inf (x > 0)
            else Fin (if x > 0 then m else - m)))"

fun fmul :: "float64 \<Rightarrow> float64 \<Rightarrow> float64" where
  "fmul (Fin x) (Fin y) = fround (x * y)"
| "fmul (Inf s) (Fin y) = (if y = 0 then NaN else Inf (s = (y > 0)))"
| "fmul (Fin x) (Inf s) = (if x = 0 then NaN else Inf (s = (x > 0)))"
| "fmul (Inf s) (Inf t) = Inf (s = t)"
| "fmul _ _ = NaN"

fun fadd :: "float64 \<Rightarrow> float64 \<Rightarrow> float64" where
  "fadd (Fin x) (Fin y) = fround (x + y)"
| "fadd (Inf s) (Fin y) = Inf s"
| "fadd (Fin x) (Inf s) = Inf s"
| "fadd (Inf s) (Inf t) = (if s = t then Inf s else NaN)"
| "fadd _ _ = NaN"

text \<open>Division by a finite non-zero number, the only one the program makes.\<close>

fun fdivc :: "float64 \<Rightarrow> rat \<Rightarrow> float64" where
  "fdivc (Fin x) c = fround (x / c)"
| "fdivc (Inf s) c = Inf (s = (c > 0))"
| "fdivc NaN c = NaN"

text \<open>Comparisons: every comparison with not-a-number is false.\<close>

instantiation float64 :: ord
begin

fun less_float64 :: "float64 \<Rightarrow> float64 \<Rightarrow> bool" where
  "less_float64 (Fin x) (Fin y) \<longleftrightarrow> x < y"
| "less_float64 (Fin x) (Inf s) \<longleftrightarrow> s"
| "less_float64 (Inf s) (Fin y) \<longleftrightarrow> \<not> s"
| "less_float64 (Inf s) (Inf t) \<longleftrightarrow> \<not> s \<and> t"
| "less_float64 _ _ \<longleftrightarrow> False"

definition less_eq_float64 :: "float64 \<Rightarrow> float64 \<Rightarrow> bool" where
  "less_eq_float64 x y \<longleftrightarrow> x \<noteq> NaN \<and> y \<noteq> NaN \<and> \<not> y < x"

instance ..

end

lemma float_less_NaN [simp]: "\<not> x < NaN" "\<not> NaN < (x :: float64)"
  by (cases x; simp)+

lemma float_less_trans: "x < y \<Longrightarrow> y < z \<Longrightarrow> x < (z :: float64)"
  by (cases x; cases y; cases z) auto

lemma float_less_irrefl [simp]: "\<not> x < (x :: float64)"
  by (cases x) auto

lemma float_not_less_trans:
  "y \<noteq> NaN \<Longrightarrow> \<not> x < y \<Longrightarrow> \<not> y < z \<Longrightarrow> \<not> x < (z :: float64)"
  by (cases x; cases y; cases z) auto

section \<open>Rounding is exact on what fits\<close>

lemma roundEven_int [simp]: "roundEven (of_int i) = i"
  by (simp add: roundEven_def)

lemma roundEven_near: "\<bar>of_int (roundEven x) - x\<bar> \<le> 1 / 2"
  using floor_correct [of x] by (auto simp: roundEven_def Let_def abs_le_iff)

lemma roundEven_nonneg: "0 \<le> x \<Longrightarrow> 0 \<le> roundEven x"
  by (auto simp: roundEven_def Let_def)

lemma ulpOf_pos: "0 < ulpOf x"
  by (simp add: ulpOf_def)

lemma fround_NaN [simp]: "fround x \<noteq> NaN"
  by (simp add: fround_def Let_def)

lemma fround_nonneg: "0 \<le> x \<Longrightarrow> fround x = Fin y \<Longrightarrow> 0 \<le> y"
  using roundEven_nonneg [of "\<bar>x\<bar> / ulpOf \<bar>x\<bar>"] ulpOf_pos [of "\<bar>x\<bar>"]
  by (auto simp: fround_def Let_def split: if_splits)

lemma fround_error:
  assumes "fround x = Fin y"
  shows "\<bar>y - x\<bar> \<le> ulpOf \<bar>x\<bar> / 2"
proof (cases "x = 0")
  case True
  with assms ulpOf_pos [of 0] show ?thesis by (simp add: fround_def)
next
  case False
  let ?a = "\<bar>x\<bar>" let ?u = "ulpOf ?a" let ?m = "of_int (roundEven (?a / ?u)) * ?u"
  have u: "0 < ?u" by (rule ulpOf_pos)
  have "\<bar>?m - ?a\<bar> = \<bar>of_int (roundEven (?a / ?u)) - ?a / ?u\<bar> * ?u"
    using u by (simp add: abs_mult_pos' field_simps flip: abs_mult_pos)
  also have "\<dots> \<le> 1 / 2 * ?u" using roundEven_near [of "?a / ?u"] u by (intro mult_right_mono) simp_all
  finally have near: "\<bar>?m - ?a\<bar> \<le> ?u / 2" by simp
  from assms False have "y = (if x > 0 then ?m else - ?m)"
    by (auto simp: fround_def Let_def split: if_splits)
  then consider "y - x = ?m - ?a" | "y - x = - (?m - ?a)" by (cases "x > 0") auto
  then have "\<bar>y - x\<bar> = \<bar>?m - ?a\<bar>" by cases (simp_all only: abs_minus_cancel)
  with near show ?thesis by simp
qed

section \<open>Computing a rounding\<close>

lemma floorlog_2_bounds:
  assumes "0 < n"
  shows "2 ^ (floorlog 2 n - 1) \<le> n" and "n < 2 ^ floorlog 2 n" and "0 < floorlog 2 n"
  using floorlog_bounds [of n 2] assms by (simp_all add: floorlog_def)

lemma exponentOf_bounds:
  assumes "0 < x"
  shows "2 powi (exponentOf x) \<le> x" and "x < 2 powi (exponentOf x + 1)"
proof -
  obtain n d where q: "quotient_of x = (n, d)" by fastforce
  have d: "0 < d" by (rule quotient_of_denom_pos [OF q])
  have x: "x = of_int n / of_int d" by (rule quotient_of_div [OF q])
  with assms d have n: "0 < n" by (simp add: zero_less_divide_iff)
  let ?a = "floorlog 2 (nat n)" and ?b = "floorlog 2 (nat d)"
  note fa = floorlog_2_bounds [of "nat n"] and fb = floorlog_2_bounds [of "nat d"]
  have na: "2 ^ (?a - 1) \<le> n" "n < 2 ^ ?a" using fa n
    by (simp_all add: nat_less_iff le_nat_iff)
  have nb: "2 ^ (?b - 1) \<le> d" "d < 2 ^ ?b" using fb d
    by (simp_all add: nat_less_iff le_nat_iff)
  have ra: "(2::rat) powi (int ?a - 1) \<le> of_int n" "of_int n < (2::rat) powi int ?a"
    using na fa(3) n by (simp_all add: power_int_def of_nat_diff nat_diff_distrib')
  have rb: "(2::rat) powi (int ?b - 1) \<le> of_int d" "of_int d < (2::rat) powi int ?b"
    using nb fb(3) d by (simp_all add: power_int_def of_nat_diff nat_diff_distrib')
  have lo: "2 powi (int ?a - int ?b - 1) \<le> x"
  proof -
    have "2 powi (int ?a - int ?b - 1) = (2::rat) powi (int ?a - 1) / 2 powi int ?b"
      by (simp add: power_int_diff)
    also have "\<dots> \<le> of_int n / of_int d" using ra(1) rb(2) d n by (intro frac_le) simp_all
    finally show ?thesis by (simp add: x)
  qed
  have hi: "x < 2 powi (int ?a - int ?b + 1)"
  proof -
    have "x < 2 powi int ?a / 2 powi (int ?b - 1)" unfolding x
      using ra(2) rb(1) d n by (intro frac_less) simp_all
    also have "\<dots> = 2 powi (int ?a - int ?b + 1)" by (simp add: power_int_diff power_int_add)
    finally show ?thesis .
  qed
  show "2 powi (exponentOf x) \<le> x" using lo by (auto simp: exponentOf_def q Let_def)
  show "x < 2 powi (exponentOf x + 1)" using hi by (auto simp: exponentOf_def q Let_def)
qed

lemma exponentOf_eqI:
  assumes "2 powi e \<le> x" and "x < 2 powi (e + 1)"
  shows "exponentOf x = e"
proof -
  have x: "0 < x" using assms(1) by (rule less_le_trans [rotated]) simp
  note b = exponentOf_bounds [OF x]
  have "(2::rat) powi e < 2 powi (exponentOf x + 1)" "(2::rat) powi (exponentOf x) < 2 powi (e + 1)"
    using assms b by (meson le_less_trans)+
  then have "e < exponentOf x + 1" "exponentOf x < e + 1"
    by (meson linorder_not_le power_int_increasing one_le_numeral)+
  then show ?thesis by simp
qed

lemma roundEven_eqI:
  assumes "\<bar>of_int m - x\<bar> < 1 / 2"
  shows "roundEven x = m"
proof -
  from roundEven_near [of x] assms have "\<bar>of_int (roundEven x) - (of_int m :: rat)\<bar> < 1" by linarith
  then have "\<bar>of_int (roundEven x - m) :: rat\<bar> < of_int 1" by simp
  then have "\<bar>roundEven x - m\<bar> < 1" by (simp only: of_int_abs [symmetric] of_int_less_iff)
  then show ?thesis by simp
qed

text \<open>
  A positive number whose rounding is known: its exponent \<open>e\<close>, the 53-bit integer \<open>m\<close> next to it.
\<close>

lemma fround_eqI:
  assumes e: "2 powi e \<le> x" "x < 2 powi (e + 1)" and big: "- 1022 \<le> e"
    and m: "\<bar>of_int m - x / 2 powi (e - 52)\<bar> < 1 / 2" and fin: "of_int m * 2 powi (e - 52) < (2::rat) ^ 1024"
  shows "fround x = Fin (of_int m * 2 powi (e - 52))"
proof -
  have x: "0 < x" using e(1) by (rule less_le_trans [rotated]) simp
  have u: "ulpOf x = 2 powi (e - 52)" using big by (simp add: ulpOf_def exponentOf_eqI [OF e])
  from m have r: "roundEven (x / 2 powi (e - 52)) = m" by (rule roundEven_eqI)
  show ?thesis using x fin by (simp add: fround_def Let_def u r)
qed

lemma roundEven_le:
  assumes "x \<le> of_int n"
  shows "roundEven x \<le> n"
proof (cases "x = of_int \<lfloor>x\<rfloor>")
  case True
  then have "roundEven x = \<lfloor>x\<rfloor>" by (metis roundEven_int)
  with assms show ?thesis by (simp add: floor_le_iff)
next
  case False
  then have "of_int \<lfloor>x\<rfloor> < x" by (metis of_int_floor_le order_le_imp_less_or_eq)
  with assms have "\<lfloor>x\<rfloor> + 1 \<le> n" by linarith
  then show ?thesis by (auto simp: roundEven_def Let_def)
qed

text \<open>Rounding keeps the unit interval.\<close>

lemma fround_unit:
  assumes "0 \<le> x" and "x \<le> 1"
  shows "\<exists>y. fround x = Fin y \<and> 0 \<le> y \<and> y \<le> 1"
proof (cases "x = 0")
  case True
  then show ?thesis by (simp add: fround_def)
next
  case False
  with assms have x: "0 < x" by simp
  have "(2::rat) powi exponentOf x \<le> 2 powi 0" using exponentOf_bounds(1) [OF x] assms(2) by simp
  then have e: "exponentOf x \<le> 0"
    by (metis linorder_not_le one_less_numeral_iff power_int_strict_increasing semiring_norm(76))
  define k where "k = nat (- max (exponentOf x - 52) (- 1074))"
  have "max (exponentOf x - 52) (- 1074) = - int k" using e by (simp add: k_def)
  then have u: "ulpOf x = 1 / 2 ^ k" by (simp add: ulpOf_def power_int_minus divide_inverse)
  define m where "m = roundEven (x / ulpOf x)"
  have "x / ulpOf x \<le> of_int (2 ^ k)" using assms(2) by (simp add: u)
  then have "m \<le> 2 ^ k" unfolding m_def by (rule roundEven_le)
  then have "(of_int m :: rat) \<le> of_int (2 ^ k)" by (simp only: of_int_le_iff)
  then have le: "of_int m * ulpOf x \<le> 1" by (simp add: u)
  have "0 \<le> m" unfolding m_def using assms(1) ulpOf_pos [of x] by (intro roundEven_nonneg) simp
  then have ge: "0 \<le> of_int m * ulpOf x" using ulpOf_pos [of x] by simp
  have "(2::rat) ^ 0 < 2 ^ 1024" by (subst power_strict_increasing_iff) simp_all
  with le have "\<not> of_int m * ulpOf x \<ge> 2 ^ 1024" by simp
  with x have "fround x = Fin (of_int m * ulpOf x)" by (simp add: fround_def Let_def m_def)
  with le ge show ?thesis by blast
qed

lemma fround_int:
  assumes "0 < k" and "k < 2 ^ 53"
  shows "fround (of_int k) = Fin (of_int k)"
proof -
  define e where "e = exponentOf (of_int k :: rat)"
  have k: "0 < (of_int k :: rat)" using assms by simp
  note b = exponentOf_bounds [OF k, folded e_def]
  have "(of_int k :: rat) < 2 ^ 53" using assms(2) by (metis of_int_less_iff of_int_numeral of_int_power)
  then have "(2::rat) powi e < 2 powi 53" using b(1) by (simp add: power_int_def)
  then have e53: "e < 53" by (meson linorder_not_le power_int_increasing one_le_numeral)
  have "(1::rat) \<le> of_int k" using assms(1) by simp
  then have "(2::rat) powi 0 < 2 powi (e + 1)" using b(2) by simp
  then have e0: "0 \<le> e" by (meson linorder_not_le power_int_increasing one_le_numeral zless_add1_eq
      zle_add1_eq_le)
  define m where "m = k * 2 ^ nat (52 - e)"
  have m: "of_int m = (of_int k :: rat) / 2 powi (e - 52)"
  proof -
    have "(2::rat) powi (e - 52) = inverse (2 powi (52 - e))"
      using power_int_minus [of "2::rat" "52 - e"] by simp
    also have "(2::rat) powi (52 - e) = 2 ^ nat (52 - e)" using e53 by (simp add: power_int_def)
    finally show ?thesis by (simp add: m_def divide_inverse)
  qed
  have "fround (of_int k) = Fin (of_int m * 2 powi (e - 52))"
  proof (rule fround_eqI [OF b])
    show "- 1022 \<le> e" using e0 by simp
    show "\<bar>of_int m - of_int k / 2 powi (e - 52)\<bar> < (1 / 2 :: rat)" by (simp add: m)
    show "of_int m * 2 powi (e - 52) < (2::rat) ^ 1024"
    proof -
      have "of_int m * 2 powi (e - 52) = (of_int k :: rat)" by (simp add: m)
      also have "\<dots> < 2 ^ 53" by fact
      also have "\<dots> < 2 ^ 1024" by (subst power_strict_increasing_iff) simp_all
      finally show ?thesis .
    qed
  qed
  then show ?thesis by (simp add: m)
qed

text \<open>The same for exponents up to 52, with natural powers.\<close>

lemma fround_small_exponent:
  assumes "2 powi e \<le> x" "x < 2 powi (e + 1)" "- 1022 \<le> e" "e \<le> 52"
    and "\<bar>of_int m - x / 2 powi (e - 52)\<bar> < 1 / 2" and "\<bar>m\<bar> \<le> 2 ^ 53"
  shows "fround x = Fin (of_int m * 2 powi (e - 52))"
proof (rule fround_eqI [OF assms(1-3) assms(5)])
  have "(2::rat) powi (e - 52) \<le> 2 powi 0" using assms(4) by (intro power_int_increasing) simp_all
  then have "of_int m * 2 powi (e - 52) \<le> \<bar>of_int m\<bar> * (1::rat)"
    by (intro mult_mono) simp_all
  also have "\<dots> \<le> of_int (2 ^ 53)" using assms(6) by (simp only: mult_1_right of_int_abs [symmetric] of_int_le_iff)
  also have "\<dots> = (2::rat) ^ 53" by (simp only: of_int_power of_int_numeral)
  also have "\<dots> < 2 ^ 1024" by (subst power_strict_increasing_iff) simp_all
  finally show "of_int m * 2 powi (e - 52) < (2::rat) ^ 1024" .
qed

lemma fround_below_one:
  assumes "1 / 2 ^ k \<le> x" "x < 2 / 2 ^ k" "k \<le> 1022"
    and "\<bar>of_int m - x * 2 ^ (k + 52)\<bar> < 1 / 2" and "\<bar>m\<bar> \<le> 2 ^ 53"
  shows "fround x = Fin (of_int m / 2 ^ (k + 52))"
proof -
  have e1: "(2::rat) powi (- int k) = 1 / 2 ^ k"
    by (simp only: power_int_minus power_int_of_nat inverse_eq_divide)
  have "(2::rat) powi (- int k + 1) = 2 powi (- int k) * 2 powi 1" by (rule power_int_add) simp
  then have e2: "(2::rat) powi (- int k + 1) = 2 / 2 ^ k" by (simp only: e1 power_int_1_right times_divide_eq_left mult_1)
  have "- int k - 52 = - int (k + 52)" by simp
  then have u: "(2::rat) powi (- int k - 52) = 1 / 2 ^ (k + 52)"
    by (simp only: power_int_minus power_int_of_nat inverse_eq_divide)
  have "fround x = Fin (of_int m * 2 powi (- int k - 52))"
    using assms by (intro fround_small_exponent) (simp_all only: e1 e2 u, simp_all)
  then show ?thesis by (simp add: u)
qed

lemma fround_above_one:
  assumes "2 ^ k \<le> x" "x < 2 ^ Suc k" "k \<le> 52"
    and "\<bar>of_int m - x * 2 ^ (52 - k)\<bar> < 1 / 2" and "\<bar>m\<bar> \<le> 2 ^ 53"
  shows "fround x = Fin (of_int m / 2 ^ (52 - k))"
proof -
  have e: "(2::rat) powi (int k + 1) = 2 ^ Suc k" by (simp add: power_int_add)
  have "int k - 52 = - int (52 - k)" using assms(3) by simp
  then have u: "(2::rat) powi (int k - 52) = 1 / 2 ^ (52 - k)"
    by (simp only: power_int_minus power_int_of_nat inverse_eq_divide)
  have "fround x = Fin (of_int m * 2 powi (int k - 52))"
    using assms by (intro fround_small_exponent) (simp_all add: e u)
  then show ?thesis by (simp add: u)
qed

end
