(* ===== verification/Kube_Model.thy ===== *)
theory Kube_Model
  imports ProviderID Batcher Go_Float
begin

text \<open>
  The Kubernetes and Karpenter objects the controllers read and write, with the fields the program
  uses, and the outside code they call: resource quantities (\<open>'q\<close>) and Karpenter's scheduling
  requirements (\<open>'r\<close>) as a record of functions. Labels and annotations are maps; reading an absent
  key of a Go map gives the empty string.
\<close>

type_synonym labels = "string \<rightharpoonup> string"

definition lookup :: "labels \<Rightarrow> string \<Rightarrow> string" where
  "lookup m k = (case m k of None \<Rightarrow> [] | Some v \<Rightarrow> v)"

lemma lookup_upd [simp]: "lookup (m(k := x)) j = (if j = k then (case x of None \<Rightarrow> [] | Some v \<Rightarrow> v) else lookup m j)"
  by (simp add: lookup_def)

lemma lookup_empty [simp]: "lookup Map.empty k = []"
  by (simp add: lookup_def)

section \<open>Label and annotation keys\<close>

definition nodepoolNameLabel :: string where "nodepoolNameLabel = ''nodepoolname''"
definition skuNameLabel :: string where "skuNameLabel = ''sku_name''"
definition AdoptedProviderIDAnnotationKey :: string where
  "AdoptedProviderIDAnnotationKey = ''karpenter.rafay.io/adopted-provider-id''"
definition BatchIDAnnotationKey :: string where
  "BatchIDAnnotationKey = ''karpenter.rafay.io/batch-id''"

text \<open>Keys that Karpenter and Kubernetes define.\<close>

definition NodePoolLabelKey :: string where "NodePoolLabelKey = ''karpenter.sh/nodepool''"
definition NodeRegisteredLabelKey :: string where "NodeRegisteredLabelKey = ''karpenter.sh/registered''"
definition CapacityTypeLabelKey :: string where "CapacityTypeLabelKey = ''karpenter.sh/capacity-type''"
definition CapacityTypeOnDemand :: string where "CapacityTypeOnDemand = ''on-demand''"
definition LabelInstanceTypeStable :: string where
  "LabelInstanceTypeStable = ''node.kubernetes.io/instance-type''"
definition LabelArchStable :: string where "LabelArchStable = ''kubernetes.io/arch''"
definition LabelOSStable :: string where "LabelOSStable = ''kubernetes.io/os''"
definition LabelTopologyZone :: string where "LabelTopologyZone = ''topology.kubernetes.io/zone''"
definition LabelTopologyRegion :: string where "LabelTopologyRegion = ''topology.kubernetes.io/region''"

lemmas label_keys = nodepoolNameLabel_def skuNameLabel_def AdoptedProviderIDAnnotationKey_def
  BatchIDAnnotationKey_def NodePoolLabelKey_def NodeRegisteredLabelKey_def CapacityTypeLabelKey_def
  CapacityTypeOnDemand_def LabelInstanceTypeStable_def LabelArchStable_def LabelOSStable_def
  LabelTopologyZone_def LabelTopologyRegion_def

section \<open>Objects\<close>

record NodeClassRef =
  ref_Group :: string
  ref_Kind :: string
  ref_Name :: string

record requirement =
  rq_Key :: string
  rq_Operator :: string
  rq_Values :: "string list"

record 'q Node =
  nd_Name :: string
  nd_Labels :: labels
  nd_ProviderID :: string
  nd_CreationTimestamp :: int
  nd_DeletionTimestamp :: "int option"
  nd_Capacity :: "string \<rightharpoonup> 'q"
  nd_Allocatable :: "string \<rightharpoonup> 'q"
  nd_Conditions :: "(string \<times> string) list"
  nd_ResourceVersion :: string

record OwnerReference =
  own_APIVersion :: string
  own_Kind :: string
  own_Name :: string
  own_UID :: string
  own_BlockOwnerDeletion :: "bool option"

text \<open>A taint is its key, value and effect.\<close>

type_synonym taint = "string \<times> string \<times> string"

record 'q NodeClaim =
  nc_Name :: string
  nc_UID :: string
  nc_Labels :: labels
  nc_Annotations :: labels
  nc_CreationTimestamp :: int
  nc_DeletionTimestamp :: "int option"
  nc_NodeClassRef :: "NodeClassRef option"
  nc_Requirements :: "requirement list"
  nc_Requests :: "string \<rightharpoonup> 'q"
  nc_ProviderID :: string
  nc_Capacity :: "string \<rightharpoonup> 'q"
  nc_Allocatable :: "string \<rightharpoonup> 'q"
  nc_GenerateName :: string
  nc_OwnerReferences :: "OwnerReference list"
  nc_Taints :: "taint list"
  nc_StartupTaints :: "taint list"

record InstanceTypeSpec =
  its_Name :: string
  its_CPU :: string
  its_Memory :: string
  its_GPU :: string
  its_Zone :: string
  its_Architectures :: "string list"
  its_OperatingSystems :: "string list"

text \<open>\<open>rnc_Ready\<close> is the Ready condition: status, reason and message, absent at first.\<close>

record RafayNodeClass =
  rnc_Name :: string
  rnc_InstanceTypes :: "InstanceTypeSpec list"
  rnc_DeletionTimestamp :: "int option"
  rnc_Ready :: "(bool \<times> string \<times> string) option"

record NodePool =
  np_Name :: string
  np_UID :: string
  np_Annotations :: labels
  np_DeletionTimestamp :: "int option"
  np_NodeClassRef :: "NodeClassRef option"
  np_TemplateLabels :: labels
  np_TemplateAnnotations :: labels
  np_Requirements :: "requirement list"

text \<open>The zero value of a NodeClaim.\<close>

definition zeroNodeClaim :: "'q NodeClaim" where
  "zeroNodeClaim =
     \<lparr>nc_Name = [], nc_UID = [], nc_Labels = Map.empty, nc_Annotations = Map.empty,
      nc_CreationTimestamp = 0, nc_DeletionTimestamp = None, nc_NodeClassRef = None,
      nc_Requirements = [], nc_Requests = Map.empty, nc_ProviderID = [], nc_Capacity = Map.empty,
      nc_Allocatable = Map.empty, nc_GenerateName = [], nc_OwnerReferences = [], nc_Taints = [],
      nc_StartupTaints = []\<rparr>"

text \<open>
  What a handler reads from the cluster: the API server's NodeClaims and Nodes, the (possibly
  stale) cached Nodes and NodeClaims, and the NodeClasses by name.
\<close>

record 'q kube =
  k_claims :: "'q NodeClaim list result"
  k_nodes :: "'q Node list result"
  k_cachedNodes :: "'q Node list result"
  k_cachedClaims :: "'q NodeClaim list result"
  k_nodeClass :: "string \<Rightarrow> RafayNodeClass result"

text \<open>
  Resource quantities: parsing, the sign, the three-way comparison, the scaled integer values (all
  \<^verbatim>\<open>int64\<close>), the approximate float and the canonical string.
\<close>

record 'q quantityOps =
  qo_Parse :: "string \<Rightarrow> 'q result"
  qo_Zero :: 'q
  qo_Sign :: "'q \<Rightarrow> int"
  qo_IsZero :: "'q \<Rightarrow> bool"
  qo_Cmp :: "'q \<Rightarrow> 'q \<Rightarrow> int"
  qo_Value :: "'q \<Rightarrow> int"
  qo_MilliValue :: "'q \<Rightarrow> int"
  qo_Float :: "'q \<Rightarrow> float64"
  qo_String :: "'q \<Rightarrow> string"

text \<open>\<^verbatim>\<open>resource.MustParse\<close> of a constant; it panics on an error, which no constant has.\<close>

definition mustParse :: "'q quantityOps \<Rightarrow> string \<Rightarrow> 'q" where
  "mustParse qo s = (case qo_Parse qo s of Inr q \<Rightarrow> q | Inl _ \<Rightarrow> qo_Zero qo)"

text \<open>Listing with a label selector that asks for equality.\<close>

definition matchingLabel :: "string \<Rightarrow> string \<Rightarrow> 'q Node list \<Rightarrow> 'q Node list" where
  "matchingLabel k v = filter (\<lambda>n. nd_Labels n k = Some v)"

end
