(* ===== verification/Node_Matching.thy ===== *)
theory Node_Matching
  imports Kube_Model
begin

text \<open>
  Which node belongs to a NodeClaim. \<^verbatim>\<open>NodeClaimSKUs\<close> and \<^verbatim>\<open>findNodeProviderID\<close> of
  \<^verbatim>\<open>pkg/cloudprovider/cloudprovider.go\<close>, and the choice in \<^verbatim>\<open>Reconcile\<close> of
  \<^verbatim>\<open>pkg/controllers/nodeproviderid/controller.go\<close>; both meet one contract, the locale
  \<open>node_matcher\<close>.
\<close>

definition NodeClaimSKUs :: "'q NodeClaim \<Rightarrow> string set" where
  "NodeClaimSKUs nc =
     (let it = lookup (nc_Labels nc) LabelInstanceTypeStable
      in (if it \<noteq> [] then {it} else {})
         \<union> (case nc_NodeClassRef nc of
              None \<Rightarrow> {}
            | Some ref \<Rightarrow> if ref_Name ref \<noteq> [] then {ref_Name ref} else {}))"

lemma NodeClaimSKUs_nonempty: "s \<in> NodeClaimSKUs nc \<Longrightarrow> s \<noteq> []"
  by (auto simp: NodeClaimSKUs_def Let_def split: if_splits option.splits)

text \<open>The real (non-pending) provider IDs of a list of claims.\<close>

definition realIDs :: "'q NodeClaim list \<Rightarrow> string set" where
  "realIDs claims = {pid \<in> nc_ProviderID ` set claims. pid \<noteq> [] \<and> \<not> is_pending pid}"

lemma realIDs_code [code]:
  "realIDs claims = set (filter (\<lambda>pid. pid \<noteq> [] \<and> \<not> is_pending pid) (map nc_ProviderID claims))"
  by (auto simp: realIDs_def)

text \<open>The loop over the nodes, as each of the two functions has it.\<close>

fun firstNode :: "string set \<Rightarrow> string set \<Rightarrow> int \<Rightarrow> 'q Node list \<Rightarrow> string" where
  "firstNode skus used created [] = []"
| "firstNode skus used created (n # ns) =
     (if lookup (nd_Labels n) skuNameLabel \<notin> skus then firstNode skus used created ns
      else if nd_ProviderID n = [] \<or> nd_ProviderID n \<in> used then firstNode skus used created ns
      else if \<not> created < nd_CreationTimestamp n then firstNode skus used created ns
      else nd_ProviderID n)"

definition findNodeProviderID :: "'q kube \<Rightarrow> 'q NodeClaim \<Rightarrow> string result" where
  "findNodeProviderID k nc =
     (let pool = lookup (nc_Labels nc) NodePoolLabelKey; skus = NodeClaimSKUs nc in
      if pool = [] \<or> skus = {} then Inr []
      else
        andThen (wrapError ''list nodeclaims: %w'' [] (k_claims k)) (\<lambda>claims.
        andThen (wrapError ''list nodes: %w'' [] (k_nodes k)) (\<lambda>nodes.
          Inr (firstNode skus (realIDs (filter (\<lambda>c. nc_UID c \<noteq> nc_UID nc) claims))
                 (nc_CreationTimestamp nc) (matchingLabel nodepoolNameLabel pool nodes)))))"

text \<open>
  What \<^verbatim>\<open>Reconcile\<close> of the provider-ID controller finds for a pending claim; it uses the API
  server's claims and the cached nodes.
\<close>

definition reconcileFinds :: "'q kube \<Rightarrow> 'q NodeClaim \<Rightarrow> string result" where
  "reconcileFinds k nc =
     (let pool = lookup (nc_Labels nc) NodePoolLabelKey; skus = NodeClaimSKUs nc in
      if pool = [] \<or> skus = {} then Inr []
      else
        andThen (k_claims k) (\<lambda>claims.
        andThen (k_cachedNodes k) (\<lambda>nodes.
          Inr (firstNode skus (realIDs claims) (nc_CreationTimestamp nc)
                 (matchingLabel nodepoolNameLabel pool nodes)))))"

section \<open>The contract\<close>

text \<open>When a node could be the one a claim is waiting for.\<close>

definition belongs :: "'q NodeClaim \<Rightarrow> string set \<Rightarrow> 'q Node \<Rightarrow> bool" where
  "belongs nc used n \<longleftrightarrow>
     nd_Labels n nodepoolNameLabel = Some (lookup (nc_Labels nc) NodePoolLabelKey) \<and>
     lookup (nd_Labels n) skuNameLabel \<in> NodeClaimSKUs nc \<and> nd_ProviderID n \<noteq> [] \<and>
     nd_ProviderID n \<notin> used \<and> nc_CreationTimestamp nc < nd_CreationTimestamp n"

lemma firstNode_found:
  "firstNode skus used created ns = pid \<Longrightarrow> pid \<noteq> [] \<Longrightarrow>
   \<exists>n \<in> set ns. nd_ProviderID n = pid \<and> lookup (nd_Labels n) skuNameLabel \<in> skus \<and> pid \<notin> used \<and>
     created < nd_CreationTimestamp n"
  by (induction ns) (auto split: if_splits)

lemma firstNode_none:
  "firstNode skus used created ns = [] \<Longrightarrow> n \<in> set ns \<Longrightarrow>
   \<not> (lookup (nd_Labels n) skuNameLabel \<in> skus \<and> nd_ProviderID n \<noteq> [] \<and> nd_ProviderID n \<notin> used \<and>
      created < nd_CreationTimestamp n)"
  by (induction ns) (auto split: if_splits)

text \<open>
  A function that looks for a claim's node, given the claims and the nodes it reads: the identifiers
  it excludes are \<open>used\<close>, what it finds belongs to the claim, and it finds something whenever
  something does, for a claim with a pool.
\<close>

locale node_matcher =
  fixes find_node :: "'q NodeClaim list \<Rightarrow> 'q Node list \<Rightarrow> 'q NodeClaim \<Rightarrow> string"
    and used :: "'q NodeClaim list \<Rightarrow> 'q NodeClaim \<Rightarrow> string set"
  assumes found: "find_node claims nodes nc = pid \<Longrightarrow> pid \<noteq> [] \<Longrightarrow>
      \<exists>n \<in> set nodes. nd_ProviderID n = pid \<and> belongs nc (used claims nc) n"
    and none: "find_node claims nodes nc = [] \<Longrightarrow> lookup (nc_Labels nc) NodePoolLabelKey \<noteq> [] \<Longrightarrow>
      n \<in> set nodes \<Longrightarrow> \<not> belongs nc (used claims nc) n"
    and used_others: "c \<in> set claims \<Longrightarrow> nc_UID c \<noteq> nc_UID nc \<Longrightarrow> nc_ProviderID c \<noteq> [] \<Longrightarrow>
      \<not> is_pending (nc_ProviderID c) \<Longrightarrow> nc_ProviderID c \<in> used claims nc"
begin

lemma never_taken:
  assumes "find_node claims nodes nc = pid" and "pid \<noteq> []" and "c \<in> set claims"
    and "nc_UID c \<noteq> nc_UID nc" and "\<not> is_pending (nc_ProviderID c)"
  shows "nc_ProviderID c \<noteq> pid"
proof
  assume eq: "nc_ProviderID c = pid"
  from found [OF assms(1,2)] have "pid \<notin> used claims nc" by (auto simp: belongs_def)
  with used_others [OF assms(3,4)] assms(2,5) eq show False by simp
qed

lemma right_node:
  assumes "find_node claims nodes nc = pid" and "pid \<noteq> []"
  shows "\<exists>n \<in> set nodes. nd_ProviderID n = pid \<and> nc_CreationTimestamp nc < nd_CreationTimestamp n \<and>
    nd_Labels n nodepoolNameLabel = Some (lookup (nc_Labels nc) NodePoolLabelKey) \<and>
    lookup (nd_Labels n) skuNameLabel \<in> NodeClaimSKUs nc"
  using found [OF assms] by (auto simp: belongs_def)

lemma complete_iff:
  assumes "lookup (nc_Labels nc) NodePoolLabelKey \<noteq> []"
  shows "find_node claims nodes nc \<noteq> [] \<longleftrightarrow> (\<exists>n \<in> set nodes. belongs nc (used claims nc) n)"
  using found [OF refl] none [OF _ assms] by blast

end

text \<open>The two functions over given lists.\<close>

definition deleteFinds :: "'q NodeClaim list \<Rightarrow> 'q Node list \<Rightarrow> 'q NodeClaim \<Rightarrow> string" where
  "deleteFinds claims nodes nc = (case findNodeProviderID
     \<lparr>k_claims = Inr claims, k_nodes = Inr nodes, k_cachedNodes = Inl ContextDone,
      k_cachedClaims = Inl ContextDone, k_nodeClass = (\<lambda>_. Inl ContextDone)\<rparr> nc of Inr pid \<Rightarrow> pid | Inl _ \<Rightarrow> [])"

definition bindFinds :: "'q NodeClaim list \<Rightarrow> 'q Node list \<Rightarrow> 'q NodeClaim \<Rightarrow> string" where
  "bindFinds claims nodes nc = (case reconcileFinds
     \<lparr>k_claims = Inr claims, k_nodes = Inl ContextDone, k_cachedNodes = Inr nodes,
      k_cachedClaims = Inl ContextDone, k_nodeClass = (\<lambda>_. Inl ContextDone)\<rparr> nc of Inr pid \<Rightarrow> pid | Inl _ \<Rightarrow> [])"

definition otherIDs :: "'q NodeClaim list \<Rightarrow> 'q NodeClaim \<Rightarrow> string set" where
  "otherIDs claims nc = realIDs (filter (\<lambda>c. nc_UID c \<noteq> nc_UID nc) claims)"

definition allIDs :: "'q NodeClaim list \<Rightarrow> 'q NodeClaim \<Rightarrow> string set" where
  "allIDs claims nc = realIDs claims"

lemma deleteFinds_eq:
  "deleteFinds claims nodes nc =
     (if lookup (nc_Labels nc) NodePoolLabelKey = [] \<or> NodeClaimSKUs nc = {} then []
      else firstNode (NodeClaimSKUs nc) (otherIDs claims nc) (nc_CreationTimestamp nc)
        (matchingLabel nodepoolNameLabel (lookup (nc_Labels nc) NodePoolLabelKey) nodes))"
  by (simp add: deleteFinds_def findNodeProviderID_def Let_def otherIDs_def)

lemma bindFinds_eq:
  "bindFinds claims nodes nc =
     (if lookup (nc_Labels nc) NodePoolLabelKey = [] \<or> NodeClaimSKUs nc = {} then []
      else firstNode (NodeClaimSKUs nc) (allIDs claims nc) (nc_CreationTimestamp nc)
        (matchingLabel nodepoolNameLabel (lookup (nc_Labels nc) NodePoolLabelKey) nodes))"
  by (simp add: bindFinds_def reconcileFinds_def Let_def allIDs_def)

lemma findNodeProviderID_eq:
  "k_claims k = Inr claims \<Longrightarrow> k_nodes k = Inr nodes \<Longrightarrow> findNodeProviderID k nc = Inr (deleteFinds claims nodes nc)"
  by (simp add: findNodeProviderID_def deleteFinds_def Let_def)

lemma reconcileFinds_eq:
  "k_claims k = Inr claims \<Longrightarrow> k_cachedNodes k = Inr nodes \<Longrightarrow> reconcileFinds k nc = Inr (bindFinds claims nodes nc)"
  by (simp add: reconcileFinds_def bindFinds_def Let_def)

lemma matcher_found:
  assumes "(if lookup (nc_Labels nc) NodePoolLabelKey = [] \<or> NodeClaimSKUs nc = {} then []
      else firstNode (NodeClaimSKUs nc) used (nc_CreationTimestamp nc)
        (matchingLabel nodepoolNameLabel (lookup (nc_Labels nc) NodePoolLabelKey) nodes)) = pid" (is "?find = _")
    and "pid \<noteq> []"
  shows "\<exists>n \<in> set nodes. nd_ProviderID n = pid \<and> belongs nc used n"
proof -
  from assms have "firstNode (NodeClaimSKUs nc) used (nc_CreationTimestamp nc)
      (matchingLabel nodepoolNameLabel (lookup (nc_Labels nc) NodePoolLabelKey) nodes) = pid"
    by (auto split: if_splits)
  from firstNode_found [OF this assms(2)] assms(2) show ?thesis
    by (auto simp: matchingLabel_def belongs_def)
qed

lemma matcher_none:
  assumes "(if lookup (nc_Labels nc) NodePoolLabelKey = [] \<or> NodeClaimSKUs nc = {} then []
      else firstNode (NodeClaimSKUs nc) used (nc_CreationTimestamp nc)
        (matchingLabel nodepoolNameLabel (lookup (nc_Labels nc) NodePoolLabelKey) nodes)) = []"
    and "lookup (nc_Labels nc) NodePoolLabelKey \<noteq> []" and "n \<in> set nodes"
  shows "\<not> belongs nc used n"
proof
  assume b: "belongs nc used n"
  then have "NodeClaimSKUs nc \<noteq> {}" by (auto simp: belongs_def)
  with assms(1,2) have f: "firstNode (NodeClaimSKUs nc) used (nc_CreationTimestamp nc)
      (matchingLabel nodepoolNameLabel (lookup (nc_Labels nc) NodePoolLabelKey) nodes) = []" by simp
  from b assms(3) have "n \<in> set (matchingLabel nodepoolNameLabel (lookup (nc_Labels nc) NodePoolLabelKey) nodes)"
    by (simp add: matchingLabel_def belongs_def)
  from firstNode_none [OF f this] b show False by (simp add: belongs_def)
qed

interpretation deleting: node_matcher deleteFinds otherIDs
proof unfold_locales
  fix claims :: "'q NodeClaim list" and nodes nc pid
  assume "deleteFinds claims nodes nc = pid" "pid \<noteq> []"
  then show "\<exists>n \<in> set nodes. nd_ProviderID n = pid \<and> belongs nc (otherIDs claims nc) n"
    unfolding deleteFinds_eq by (rule matcher_found)
next
  fix claims :: "'q NodeClaim list" and nodes nc n
  assume "deleteFinds claims nodes nc = []" "lookup (nc_Labels nc) NodePoolLabelKey \<noteq> []" "n \<in> set nodes"
  then show "\<not> belongs nc (otherIDs claims nc) n" unfolding deleteFinds_eq by (rule matcher_none)
qed (auto simp: otherIDs_def realIDs_def)

interpretation binding: node_matcher bindFinds allIDs
proof unfold_locales
  fix claims :: "'q NodeClaim list" and nodes nc pid
  assume "bindFinds claims nodes nc = pid" "pid \<noteq> []"
  then show "\<exists>n \<in> set nodes. nd_ProviderID n = pid \<and> belongs nc (allIDs claims nc) n"
    unfolding bindFinds_eq by (rule matcher_found)
next
  fix claims :: "'q NodeClaim list" and nodes nc n
  assume "bindFinds claims nodes nc = []" "lookup (nc_Labels nc) NodePoolLabelKey \<noteq> []" "n \<in> set nodes"
  then show "\<not> belongs nc (allIDs claims nc) n" unfolding bindFinds_eq by (rule matcher_none)
qed (auto simp: allIDs_def realIDs_def)

end
