(* ===== verification/Broker_Client.thy ===== *)
theory Broker_Client
  imports Batcher
begin

text \<open>
  The broker connection: the stream helpers of \<^verbatim>\<open>pkg/rafay/batch_stream.go\<close> and
  \<^verbatim>\<open>BrokerClient\<close> of \<^verbatim>\<open>pkg/rafay/brokerclient.go\<close> (dialing, the cached connection, retry,
  the calls the batcher makes).

  gRPC, TLS and certificate parsing are outside code: a record \<open>'w grpcEnv\<close> of functions over the
  state \<open>'w\<close> of the world. Connections and streams are numbers.
\<close>

section \<open>The outside world\<close>

datatype clientMsg =
    BatchAdd string "addItem list"
  | BatchRemove string "removeItem list"
  | StatusPoll string
  | CancelOps "string list"

text \<open>A reply has optional parts; the getters of the generated code return nil for an absent one.\<close>

record brokerReply =
  rp_BatchAccepted :: "string option"
  rp_BatchRejected :: "string option"
  rp_BatchStatus :: "nodeResult list option"
  rp_CancelAck :: "string list option"

text \<open>A call's context: the value of the metadata key \<^verbatim>\<open>sessionid\<close> and the deadline.\<close>

record callCtx =
  cx_sessionid :: "string option"
  cx_timeout :: int

type_synonym conn = nat
type_synonym stream = nat

record 'w grpcEnv =
  ge_newUUID :: "'w \<Rightarrow> string \<times> 'w"
  ge_openStream :: "conn \<Rightarrow> callCtx \<Rightarrow> 'w \<Rightarrow> stream result \<times> 'w"
  ge_send :: "stream \<Rightarrow> clientMsg \<Rightarrow> 'w \<Rightarrow> gerror option \<times> 'w"
  ge_recv :: "stream \<Rightarrow> 'w \<Rightarrow> brokerReply result \<times> 'w"
  ge_closeSend :: "stream \<Rightarrow> 'w \<Rightarrow> 'w"
  ge_closeConn :: "conn \<Rightarrow> 'w \<Rightarrow> 'w"
  ge_dialInsecure :: "string \<Rightarrow> int \<Rightarrow> 'w \<Rightarrow> conn result \<times> 'w"
  ge_dialSecure :: "string \<Rightarrow> int \<Rightarrow> nat \<Rightarrow> 'w \<Rightarrow> conn result \<times> 'w"
  ge_serverHost :: "string \<Rightarrow> string result"
  ge_credentials :: "string \<Rightarrow> string \<Rightarrow> string \<Rightarrow> (nat \<times> string) result"

section \<open>One request, one reply\<close>

text \<open>
  After a failed \<^verbatim>\<open>Send\<close> the helpers ask \<^verbatim>\<open>Recv\<close> for the real status, and keep the error of
  \<^verbatim>\<open>Send\<close> when \<^verbatim>\<open>Recv\<close> has none.
\<close>

definition sendError :: "'w grpcEnv \<Rightarrow> stream \<Rightarrow> gerror \<Rightarrow> 'w \<Rightarrow> gerror \<times> 'w" where
  "sendError env st e w =
     (case ge_recv env st w of
        (Inl rerr, w') \<Rightarrow> (rerr, w')
      | (Inr _, w') \<Rightarrow> (e, w'))"

definition stream_sendBatch ::
  "'w grpcEnv \<Rightarrow> callCtx \<Rightarrow> conn \<Rightarrow> addItem list \<Rightarrow> 'w \<Rightarrow> string result \<times> 'w" where
  "stream_sendBatch env ctx cc nodes w =
     (if nodes = [] then (Inl (Errorf ''sendBatch: empty nodes list'' []), w)
      else
        (let (batchID, w1) = ge_newUUID env w in
         case ge_openStream env cc ctx w1 of
           (Inl e, w2) \<Rightarrow> (Inl (Wrapf ''sendBatch: open stream: %w'' [] e), w2)
         | (Inr st, w2) \<Rightarrow>
             (case ge_send env st (BatchAdd batchID nodes) w2 of
                (Some e, w3) \<Rightarrow>
                  (case sendError env st e w3 of
                     (e', w4) \<Rightarrow> (Inl (Wrapf ''sendBatch: send: %w'' [] e'), w4))
              | (None, w3) \<Rightarrow>
                  (case ge_recv env st w3 of
                     (Inl e, w4) \<Rightarrow> (Inl (Wrapf ''sendBatch: recv: %w'' [] e), w4)
                   | (Inr resp, w4) \<Rightarrow>
                       (case rp_BatchAccepted resp of
                          Some bid \<Rightarrow> (Inr bid, ge_closeSend env st w4)
                        | None \<Rightarrow>
                            (case rp_BatchRejected resp of
                               Some reason \<Rightarrow>
                                 (Inl (Wrapf ''sendBatch: %w: %s'' [reason] ErrBatchRejected),
                                  ge_closeSend env st w4)
                             | None \<Rightarrow>
                                 (Inl (Errorf ''sendBatch: unexpected broker response type'' []), w4)))))))"

definition stream_sendBatchRemove ::
  "'w grpcEnv \<Rightarrow> callCtx \<Rightarrow> conn \<Rightarrow> removeItem list \<Rightarrow> 'w \<Rightarrow> string result \<times> 'w" where
  "stream_sendBatchRemove env ctx cc nodes w =
     (if nodes = [] then (Inl (Errorf ''sendBatchRemove: empty nodes list'' []), w)
      else
        (let (batchID, w1) = ge_newUUID env w in
         case ge_openStream env cc ctx w1 of
           (Inl e, w2) \<Rightarrow> (Inl (Wrapf ''sendBatchRemove: open stream: %w'' [] e), w2)
         | (Inr st, w2) \<Rightarrow>
             (case ge_send env st (BatchRemove batchID nodes) w2 of
                (Some e, w3) \<Rightarrow>
                  (case sendError env st e w3 of
                     (e', w4) \<Rightarrow> (Inl (Wrapf ''sendBatchRemove: send: %w'' [] e'), w4))
              | (None, w3) \<Rightarrow>
                  (case ge_recv env st w3 of
                     (Inl e, w4) \<Rightarrow> (Inl (Wrapf ''sendBatchRemove: recv: %w'' [] e), w4)
                   | (Inr resp, w4) \<Rightarrow>
                       (case rp_BatchAccepted resp of
                          Some bid \<Rightarrow> (Inr bid, ge_closeSend env st w4)
                        | None \<Rightarrow>
                            (case rp_BatchRejected resp of
                               Some reason \<Rightarrow>
                                 (Inl (Wrapf ''sendBatchRemove: %w: %s'' [reason] ErrBatchRejected),
                                  ge_closeSend env st w4)
                             | None \<Rightarrow>
                                 (Inl (Errorf ''sendBatchRemove: unexpected broker response type'' []), w4)))))))"

definition stream_pollBatchStatus ::
  "'w grpcEnv \<Rightarrow> callCtx \<Rightarrow> conn \<Rightarrow> string \<Rightarrow> 'w \<Rightarrow> nodeResult list result \<times> 'w" where
  "stream_pollBatchStatus env ctx cc batchID w =
     (case ge_openStream env cc ctx w of
        (Inl e, w2) \<Rightarrow> (Inl (Wrapf ''pollBatchStatus: open stream: %w'' [] e), w2)
      | (Inr st, w2) \<Rightarrow>
          (case ge_send env st (StatusPoll batchID) w2 of
             (Some e, w3) \<Rightarrow>
               (case sendError env st e w3 of
                  (e', w4) \<Rightarrow> (Inl (Wrapf ''pollBatchStatus: send: %w'' [] e'), w4))
           | (None, w3) \<Rightarrow>
               (case ge_recv env st w3 of
                  (Inl e, w4) \<Rightarrow> (Inl (Wrapf ''pollBatchStatus: recv: %w'' [] e), w4)
                | (Inr resp, w4) \<Rightarrow>
                    (case rp_BatchStatus resp of
                       Some results \<Rightarrow> (Inr results, ge_closeSend env st w4)
                     | None \<Rightarrow>
                         (Inl (Errorf ''pollBatchStatus: unexpected broker response type'' []),
                          ge_closeSend env st w4)))))"

definition stream_cancelOps ::
  "'w grpcEnv \<Rightarrow> callCtx \<Rightarrow> conn \<Rightarrow> string list \<Rightarrow> 'w \<Rightarrow> string list result \<times> 'w" where
  "stream_cancelOps env ctx cc operationIDs w =
     (if operationIDs = [] then (Inl (Errorf ''cancelOps: empty operation ID list'' []), w)
      else
        (case ge_openStream env cc ctx w of
           (Inl e, w2) \<Rightarrow> (Inl (Wrapf ''cancelOps: open stream: %w'' [] e), w2)
         | (Inr st, w2) \<Rightarrow>
             (case ge_send env st (CancelOps operationIDs) w2 of
                (Some e, w3) \<Rightarrow>
                  (case sendError env st e w3 of
                     (e', w4) \<Rightarrow> (Inl (Wrapf ''cancelOps: send: %w'' [] e'), w4))
              | (None, w3) \<Rightarrow>
                  (case ge_recv env st w3 of
                     (Inl e, w4) \<Rightarrow> (Inl (Wrapf ''cancelOps: recv: %w'' [] e), w4)
                   | (Inr resp, w4) \<Rightarrow>
                       (case rp_CancelAck resp of
                          Some ids \<Rightarrow> (Inr ids, ge_closeSend env st w4)
                        | None \<Rightarrow>
                            (Inl (Errorf ''cancelOps: unexpected broker response type'' []),
                             ge_closeSend env st w4))))))"

section \<open>The client and its connection\<close>

record BrokerClient =
  bc_CertPath :: string
  bc_KeyPath :: string
  bc_CAPath :: string
  bc_BrokerPort :: int
  bc_EdgeID :: string
  bc_StreamID :: string
  bc_DialHost :: string
  bc_GRPCInsecure :: bool
  bc_conn :: "conn option"

definition brokerCallTimeout :: int where "brokerCallTimeout = 30 * second"
definition defaultEdgeClientTLSPort :: int where "defaultEdgeClientTLSPort = 5448"
definition defaultEdgeBrokerRPCPort :: int where "defaultEdgeBrokerRPCPort = 5449"

definition NewBrokerClient ::
  "string \<Rightarrow> string \<Rightarrow> string \<Rightarrow> int \<Rightarrow> string \<Rightarrow> string \<Rightarrow> string \<Rightarrow> bool \<Rightarrow> BrokerClient" where
  "NewBrokerClient certPath keyPath caPath brokerPort edgeID streamID dialHost grpcInsecure =
     \<lparr>bc_CertPath = certPath, bc_KeyPath = keyPath, bc_CAPath = caPath, bc_BrokerPort = brokerPort,
      bc_EdgeID = edgeID, bc_StreamID = streamID, bc_DialHost = dialHost,
      bc_GRPCInsecure = grpcInsecure, bc_conn = None\<rparr>"

definition dialPort :: "BrokerClient \<Rightarrow> int" where
  "dialPort c =
     (if bc_BrokerPort c \<le> 0
      then (if bc_GRPCInsecure c then defaultEdgeBrokerRPCPort else defaultEdgeClientTLSPort)
      else bc_BrokerPort c)"

definition dialBroker :: "'w grpcEnv \<Rightarrow> BrokerClient \<Rightarrow> 'w \<Rightarrow> conn result \<times> 'w" where
  "dialBroker env c w =
     (let dialHost = trimSpace (bc_DialHost c);
          hostR = (if dialHost \<noteq> [] then Inr dialHost
                   else if bc_CertPath c = []
                   then Inl (Errorf ''broker dial host: set EDGE_BROKER_GRPC_HOST or CERT_FOLDER for host from client.crt OU'' [])
                   else (case ge_serverHost env (bc_CertPath c) of
                           Inl e \<Rightarrow> Inl (Wrapf ''broker dial host: %w'' [] e)
                         | Inr h \<Rightarrow> Inr h))
      in case hostR of
           Inl e \<Rightarrow> (Inl e, w)
         | Inr host \<Rightarrow>
             (if bc_GRPCInsecure c then ge_dialInsecure env host (dialPort c) w
              else (case ge_credentials env (bc_CertPath c) (bc_KeyPath c) (bc_CAPath c) of
                      Inl e \<Rightarrow> (Inl (Wrapf ''broker credentials: %w'' [] e), w)
                    | Inr (creds, tlsHost) \<Rightarrow>
                        ge_dialSecure env (if dialHost = [] then tlsHost else host) (dialPort c) creds w)))"

definition getConn :: "'w grpcEnv \<Rightarrow> BrokerClient \<times> 'w \<Rightarrow> conn result \<times> BrokerClient \<times> 'w" where
  "getConn env = (\<lambda>(c, w).
     case bc_conn c of
       Some cc \<Rightarrow> (Inr cc, c, w)
     | None \<Rightarrow>
         (case dialBroker env c w of
            (Inl e, w') \<Rightarrow> (Inl e, c, w')
          | (Inr cc, w') \<Rightarrow> (Inr cc, c\<lparr>bc_conn := Some cc\<rparr>, w')))"

definition closeConnLocked :: "'w grpcEnv \<Rightarrow> BrokerClient \<times> 'w \<Rightarrow> BrokerClient \<times> 'w" where
  "closeConnLocked env = (\<lambda>(c, w).
     case bc_conn c of
       None \<Rightarrow> (c, w)
     | Some cc \<Rightarrow> (c\<lparr>bc_conn := None\<rparr>, ge_closeConn env cc w))"

text \<open>\<^verbatim>\<open>closeConn\<close> is \<^verbatim>\<open>closeConnLocked\<close> under the mutex, which one call has to itself here.\<close>

definition closeConn :: "'w grpcEnv \<Rightarrow> BrokerClient \<times> 'w \<Rightarrow> BrokerClient \<times> 'w" where
  "closeConn env = closeConnLocked env"

text \<open>
  \<^verbatim>\<open>status.FromError\<close> finds the first gRPC status in the chain of wrapped errors.
\<close>

fun grpcStatus :: "gerror \<Rightarrow> grpc_code option" where
  "grpcStatus (GrpcError code msg) = Some code"
| "grpcStatus (Wrapf f as e) = grpcStatus e"
| "grpcStatus (NodeClaimNotFoundError e) = grpcStatus e"
| "grpcStatus (InsufficientCapacityError e) = grpcStatus e"
| "grpcStatus (CreateError e r m) = grpcStatus e"
| "grpcStatus _ = None"

definition shouldRedial :: "gerror \<Rightarrow> bool" where
  "shouldRedial e \<longleftrightarrow> grpcStatus e = Some Unavailable"

text \<open>
  \<^verbatim>\<open>callBroker\<close> and \<^verbatim>\<open>callBrokerOnce\<close> over a function that has a result: the closures of
  the source assign it to a variable of the caller when they succeed.
\<close>

definition callBroker ::
  "'w grpcEnv \<Rightarrow> (conn \<Rightarrow> 'w \<Rightarrow> 'a result \<times> 'w) \<Rightarrow> BrokerClient \<times> 'w \<Rightarrow> 'a result \<times> BrokerClient \<times> 'w" where
  "callBroker env fn cw =
     (case getConn env cw of
        (Inl e, cw1) \<Rightarrow> (Inl e, cw1)
      | (Inr cc, c1, w1) \<Rightarrow>
          (case fn cc w1 of
             (Inr x, w2) \<Rightarrow> (Inr x, c1, w2)
           | (Inl e, w2) \<Rightarrow>
               (if shouldRedial e
                then (case getConn env (closeConn env (c1, w2)) of
                        (Inl e2, cw3) \<Rightarrow> (Inl e2, cw3)
                      | (Inr cc2, c3, w3) \<Rightarrow> (case fn cc2 w3 of (r, w4) \<Rightarrow> (r, c3, w4)))
                else (Inl e, c1, w2))))"

definition callBrokerOnce ::
  "'w grpcEnv \<Rightarrow> (conn \<Rightarrow> 'w \<Rightarrow> 'a result \<times> 'w) \<Rightarrow> BrokerClient \<times> 'w \<Rightarrow> 'a result \<times> BrokerClient \<times> 'w" where
  "callBrokerOnce env fn cw =
     (case getConn env cw of
        (Inl e, cw1) \<Rightarrow> (Inl e, cw1)
      | (Inr cc, c1, w1) \<Rightarrow>
          (case fn cc w1 of
             (Inr x, w2) \<Rightarrow> (Inr x, c1, w2)
           | (Inl e, w2) \<Rightarrow>
               (Inl e, (if shouldRedial e then closeConn env (c1, w2) else (c1, w2)))))"

definition streamContext :: "BrokerClient \<Rightarrow> int \<Rightarrow> callCtx" where
  "streamContext c timeout =
     (let sid = trimSpace (bc_StreamID c)
      in \<lparr>cx_sessionid = (if sid = [] then None else Some sid), cx_timeout = timeout\<rparr>)"

definition streamRequired :: "'a result" where
  "streamRequired = Inl (Errorf ''STREAM_ID is required'' [])"

definition client_SendBatch ::
  "'w grpcEnv \<Rightarrow> addItem list \<Rightarrow> BrokerClient \<times> 'w \<Rightarrow> string result \<times> BrokerClient \<times> 'w" where
  "client_SendBatch env nodes = (\<lambda>(c, w).
     if trimSpace (bc_StreamID c) = [] then (streamRequired, c, w)
     else callBrokerOnce env
            (\<lambda>cc. stream_sendBatch env (streamContext c brokerCallTimeout) cc nodes) (c, w))"

definition client_SendBatchRemove ::
  "'w grpcEnv \<Rightarrow> removeItem list \<Rightarrow> BrokerClient \<times> 'w \<Rightarrow> string result \<times> BrokerClient \<times> 'w" where
  "client_SendBatchRemove env nodes = (\<lambda>(c, w).
     if trimSpace (bc_StreamID c) = [] then (streamRequired, c, w)
     else callBrokerOnce env
            (\<lambda>cc. stream_sendBatchRemove env (streamContext c brokerCallTimeout) cc nodes) (c, w))"

definition client_PollBatchStatus ::
  "'w grpcEnv \<Rightarrow> string \<Rightarrow> BrokerClient \<times> 'w \<Rightarrow> nodeResult list result \<times> BrokerClient \<times> 'w" where
  "client_PollBatchStatus env batchID = (\<lambda>(c, w).
     if trimSpace (bc_StreamID c) = [] then (streamRequired, c, w)
     else callBroker env
            (\<lambda>cc. stream_pollBatchStatus env (streamContext c brokerCallTimeout) cc batchID) (c, w))"

definition client_CancelOperations ::
  "'w grpcEnv \<Rightarrow> string list \<Rightarrow> BrokerClient \<times> 'w \<Rightarrow> string list result \<times> BrokerClient \<times> 'w" where
  "client_CancelOperations env operationIDs = (\<lambda>(c, w).
     if trimSpace (bc_StreamID c) = [] then (streamRequired, c, w)
     else callBroker env
            (\<lambda>cc. stream_cancelOps env (streamContext c brokerCallTimeout) cc operationIDs) (c, w))"

text \<open>
  \<^verbatim>\<open>GetKarpenterConfig\<close> is one unary call of outside code, here a parameter, through
  \<^verbatim>\<open>callBroker\<close> with its longer deadline.
\<close>

definition karpenterConfigCallTimeout :: int where "karpenterConfigCallTimeout = 90 * second"

definition client_GetKarpenterConfig ::
  "'w grpcEnv \<Rightarrow> (conn \<Rightarrow> callCtx \<Rightarrow> string \<Rightarrow> string \<Rightarrow> 'w \<Rightarrow> 'a result \<times> 'w) \<Rightarrow> string \<Rightarrow> string \<Rightarrow>
   BrokerClient \<times> 'w \<Rightarrow> 'a result \<times> BrokerClient \<times> 'w" where
  "client_GetKarpenterConfig env rpc clusterID projectID = (\<lambda>(c, w).
     if trimSpace (bc_StreamID c) = [] then (streamRequired, c, w)
     else callBroker env
            (\<lambda>cc. rpc cc (streamContext c karpenterConfigCallTimeout) clusterID projectID) (c, w))"

record NodeInfo =
  ni_ProviderID :: string
  ni_Capacity :: "string \<rightharpoonup> string"

definition GetNode :: "string \<Rightarrow> NodeInfo result" where
  "GetNode providerID = Inl ErrGetNodeUnsupported"

definition ListNodes :: "string \<Rightarrow> NodeInfo list result" where
  "ListNodes clusterID = Inl ErrListNodesUnsupported"

text \<open>The client as the batcher's broker.\<close>

definition clientBroker :: "'w grpcEnv \<Rightarrow> (BrokerClient \<times> 'w) batchBroker" where
  "clientBroker env =
     \<lparr>bb_SendBatch = client_SendBatch env, bb_SendBatchRemove = client_SendBatchRemove env,
      bb_PollBatchStatus = client_PollBatchStatus env,
      bb_CancelOperations = client_CancelOperations env\<rparr>"

end
