(* ===== verification/Cloud_Provider.thy ===== *)
theory Cloud_Provider
  imports Node_Matching Broker_Client
begin

text \<open>
  The cloud provider, \<^verbatim>\<open>pkg/cloudprovider/cloudprovider.go\<close>: instance types, \<^verbatim>\<open>Create\<close>,
  \<^verbatim>\<open>Delete\<close>, \<^verbatim>\<open>Get\<close>, \<^verbatim>\<open>List\<close>, and the failure handler of the batcher.

  Karpenter's scheduling package is a record of functions over an abstract type \<open>'r\<close> of requirement
  sets. A price is \<open>cpu + mem / 2^30 * 0.125\<close> in \<^verbatim>\<open>float64\<close>; 0.125 is exact. The wait of
  \<^verbatim>\<open>Create\<close> and \<^verbatim>\<open>Delete\<close> on the context and the result channel is a parameter: what the
  \<^verbatim>\<open>select\<close> yields for a channel, given the state of the batcher.
\<close>

section \<open>Karpenter's scheduling\<close>

record ('q, 'r) karpenter =
  kp_NewRequirements :: "(string \<times> string list) list \<Rightarrow> 'r"
  kp_Add :: "'r \<Rightarrow> string \<times> string list \<Rightarrow> 'r"
  kp_Values :: "'r \<Rightarrow> (string \<times> bool \<times> string list) list"
  kp_FromSelector :: "requirement list \<Rightarrow> 'r"
  kp_FromLabels :: "labels \<Rightarrow> 'r"
  kp_CompatibleAllowUndefined :: "'r \<Rightarrow> 'r \<Rightarrow> bool"
  kp_Compatible :: "'r \<Rightarrow> 'r \<Rightarrow> gerror option"
  kp_Fits :: "(string \<rightharpoonup> 'q) \<Rightarrow> (string \<rightharpoonup> 'q) \<Rightarrow> bool"
  kp_Allocatable :: "(string \<rightharpoonup> 'q) \<Rightarrow> (string \<rightharpoonup> 'q)"
  kp_CapacityType :: "'r \<Rightarrow> string"

record 'r offering =
  of_Requirements :: 'r
  of_Price :: float64
  of_Available :: bool

record ('q, 'r) InstanceType =
  it_Name :: string
  it_Requirements :: 'r
  it_Offerings :: "'r offering list"
  it_Capacity :: "string \<rightharpoonup> 'q"

definition it_Allocatable :: "('q, 'r) karpenter \<Rightarrow> ('q, 'r) InstanceType \<Rightarrow> (string \<rightharpoonup> 'q)" where
  "it_Allocatable kp it = kp_Allocatable kp (it_Capacity it)"

section \<open>Instance types\<close>

definition temporaryGPUResourceName :: string where "temporaryGPUResourceName = ''nvidia.com/gpu''"

definition capacityOf :: "'q quantityOps \<Rightarrow> InstanceTypeSpec \<Rightarrow> 'q \<Rightarrow> 'q \<Rightarrow> (string \<rightharpoonup> 'q) result" where
  "capacityOf qo s cpu mem =
     (let base = [''cpu'' \<mapsto> cpu, ''memory'' \<mapsto> mem, ''pods'' \<mapsto> mustParse qo ''110'']
      in if its_GPU s = [] then Inr base
         else andThen (wrapError ''instance type %q: invalid %s %q: %w''
                         [its_Name s, temporaryGPUResourceName, its_GPU s] (qo_Parse qo (its_GPU s)))
                (\<lambda>gpu. Inr (if 0 < qo_Sign qo gpu then base(temporaryGPUResourceName \<mapsto> gpu) else base)))"

definition trimmed :: "string list \<Rightarrow> string list" where
  "trimmed xs = filter (\<lambda>x. x \<noteq> []) (map trimSpace xs)"

definition addValues :: "('q, 'r) karpenter \<Rightarrow> string \<Rightarrow> string list \<Rightarrow> 'r \<Rightarrow> 'r" where
  "addValues kp key vals r = (if trimmed vals \<noteq> [] then kp_Add kp r (key, trimmed vals) else r)"

definition zoneOf :: "InstanceTypeSpec \<Rightarrow> string" where
  "zoneOf s = (if its_Zone s = [] then ''default'' else its_Zone s)"

definition requirementsOf :: "('q, 'r) karpenter \<Rightarrow> InstanceTypeSpec \<Rightarrow> 'r" where
  "requirementsOf kp s =
     addValues kp LabelOSStable (its_OperatingSystems s)
       (addValues kp LabelArchStable (its_Architectures s)
         (kp_NewRequirements kp
            [(LabelInstanceTypeStable, [its_Name s]), (LabelTopologyZone, [zoneOf s]),
             (CapacityTypeLabelKey, [CapacityTypeOnDemand])]))"

definition priceOf :: "'q quantityOps \<Rightarrow> 'q \<Rightarrow> 'q \<Rightarrow> float64" where
  "priceOf qo cpu mem =
     fadd (fmul (qo_Float qo cpu) (Fin 1)) (fmul (fdivc (qo_Float qo mem) (1024 * 1024 * 1024)) (Fin (1 / 8)))"

definition instanceTypeOf ::
  "('q, 'r) karpenter \<Rightarrow> 'q quantityOps \<Rightarrow> InstanceTypeSpec \<Rightarrow> ('q, 'r) InstanceType result" where
  "instanceTypeOf kp qo s =
     andThen (wrapError ''instance type %q: invalid cpu %q: %w'' [its_Name s, its_CPU s] (qo_Parse qo (its_CPU s))) (\<lambda>cpu.
     andThen (wrapError ''instance type %q: invalid memory %q: %w'' [its_Name s, its_Memory s] (qo_Parse qo (its_Memory s))) (\<lambda>mem.
     andThen (capacityOf qo s cpu mem) (\<lambda>capacity.
       (let reqs = requirementsOf kp s
        in Inr \<lparr>it_Name = its_Name s, it_Requirements = reqs,
                it_Offerings = [\<lparr>of_Requirements = reqs, of_Price = priceOf qo cpu mem, of_Available = True\<rparr>],
                it_Capacity = capacity\<rparr>))))"

fun rafayInstanceTypesToKarpenter ::
  "('q, 'r) karpenter \<Rightarrow> 'q quantityOps \<Rightarrow> InstanceTypeSpec list \<Rightarrow> ('q, 'r) InstanceType list result" where
  "rafayInstanceTypesToKarpenter kp qo [] = Inr []"
| "rafayInstanceTypesToKarpenter kp qo (s # ss) =
     andThen (instanceTypeOf kp qo s) (\<lambda>it.
     andThen (rafayInstanceTypesToKarpenter kp qo ss) (\<lambda>its. Inr (it # its)))"

definition getInstanceTypes ::
  "('q, 'r) karpenter \<Rightarrow> 'q quantityOps \<Rightarrow> RafayNodeClass \<Rightarrow> ('q, 'r) InstanceType list result" where
  "getInstanceTypes kp qo nc =
     (if rnc_InstanceTypes nc = []
      then Inl (Errorf ''RafayNodeClass %q has no instanceTypes defined; add at least one entry to spec.instanceTypes'' [rnc_Name nc])
      else rafayInstanceTypesToKarpenter kp qo (rnc_InstanceTypes nc))"

definition resolveNodeClassFromNodeClaim :: "'q kube \<Rightarrow> 'q NodeClaim \<Rightarrow> RafayNodeClass result" where
  "resolveNodeClassFromNodeClaim k nc =
     (case nc_NodeClassRef nc of
        None \<Rightarrow> Inl (Errorf ''nodeclaim %q has no nodeClassRef'' [nc_Name nc])
      | Some ref \<Rightarrow> wrapError ''get RafayNodeClass %q: %w'' [ref_Name ref] (k_nodeClass k (ref_Name ref)))"

definition resolveNodeClassFromNodePool :: "'q kube \<Rightarrow> NodePool \<Rightarrow> RafayNodeClass result" where
  "resolveNodeClassFromNodePool k np =
     (case np_NodeClassRef np of
        None \<Rightarrow> Inl (Errorf ''node pool %q has no nodeClassRef'' [np_Name np])
      | Some ref \<Rightarrow> wrapError ''get RafayNodeClass %q: %w'' [ref_Name ref] (k_nodeClass k (ref_Name ref)))"

definition GetInstanceTypes ::
  "('q, 'r) karpenter \<Rightarrow> 'q quantityOps \<Rightarrow> 'q kube \<Rightarrow> NodePool option \<Rightarrow> ('q, 'r) InstanceType list result" where
  "GetInstanceTypes kp qo k nodePool =
     (case nodePool of
        None \<Rightarrow> Inl (Errorf ''node pool is nil'' [])
      | Some np \<Rightarrow> andThen (resolveNodeClassFromNodePool k np) (getInstanceTypes kp qo))"

section \<open>Choosing an instance type\<close>

definition filterCompatibleInstanceTypes ::
  "('q, 'r) karpenter \<Rightarrow> ('q, 'r) InstanceType list \<Rightarrow> 'q NodeClaim \<Rightarrow> ('q, 'r) InstanceType list" where
  "filterCompatibleInstanceTypes kp its nc =
     (let reqs = kp_FromSelector kp (nc_Requirements nc)
      in filter (\<lambda>it. kp_CompatibleAllowUndefined kp reqs (it_Requirements it) \<and>
           kp_Fits kp (nc_Requests nc) (it_Allocatable kp it)) its)"

definition cheapestOffering :: "('q, 'r) InstanceType \<Rightarrow> float64" where
  "cheapestOffering it = (case it_Offerings it of [] \<Rightarrow> Fin 0 | off # _ \<Rightarrow> of_Price off)"

text \<open>\<^verbatim>\<open>sort.SliceStable\<close>: a stable insertion sort, the one order a strict weak order admits.\<close>

fun insertStable :: "('a \<Rightarrow> 'a \<Rightarrow> bool) \<Rightarrow> 'a \<Rightarrow> 'a list \<Rightarrow> 'a list" where
  "insertStable lt x [] = [x]"
| "insertStable lt x (y # ys) = (if lt y x then y # insertStable lt x ys else x # y # ys)"

fun sliceStable :: "('a \<Rightarrow> 'a \<Rightarrow> bool) \<Rightarrow> 'a list \<Rightarrow> 'a list" where
  "sliceStable lt [] = []"
| "sliceStable lt (x # xs) = insertStable lt x (sliceStable lt xs)"

definition byPrice :: "('q, 'r) InstanceType \<Rightarrow> ('q, 'r) InstanceType \<Rightarrow> bool" where
  "byPrice a b \<longleftrightarrow> cheapestOffering a < cheapestOffering b"

definition requirementsToLabels :: "('q, 'r) karpenter \<Rightarrow> 'r \<Rightarrow> labels" where
  "requirementsToLabels kp reqs =
     fold (\<lambda>(key, isIn, vals) m.
       if isIn \<and> vals \<noteq> [] \<and> \<not> ((key = LabelArchStable \<or> key = LabelOSStable) \<and> 1 < length vals)
       then m(key \<mapsto> hd vals) else m) (kp_Values kp reqs) Map.empty"

section \<open>Create\<close>

record CloudProvider =
  cp_clusterID :: string
  cp_projectID :: string

definition NewCloudProvider :: "string \<Rightarrow> string \<Rightarrow> CloudProvider" where
  "NewCloudProvider clusterID projectID = \<lparr>cp_clusterID = clusterID, cp_projectID = projectID\<rparr>"

text \<open>What \<^verbatim>\<open>Create\<close> does before it calls the batcher: the instance type it selects.\<close>

definition selectInstanceType ::
  "('q, 'r) karpenter \<Rightarrow> 'q quantityOps \<Rightarrow> 'q kube \<Rightarrow> 'q NodeClaim \<Rightarrow> ('q, 'r) InstanceType result" where
  "selectInstanceType kp qo k nc =
     andThen (wrapError ''resolve NodeClass: %w'' [] (resolveNodeClassFromNodeClaim k nc)) (\<lambda>nodeClass.
     andThen (wrapError ''get instance types: %w'' [] (getInstanceTypes kp qo nodeClass)) (\<lambda>its.
       (case sliceStable byPrice (filterCompatibleInstanceTypes kp its nc) of
          [] \<Rightarrow> Inl (InsufficientCapacityError (Errorf ''no compatible instance type for requirements'' []))
        | selected # _ \<Rightarrow> Inr selected)))"

definition adoptedClaim ::
  "('q, 'r) karpenter \<Rightarrow> ('q, 'r) InstanceType \<Rightarrow> string \<Rightarrow> 'q NodeClaim \<Rightarrow> 'q NodeClaim" where
  "adoptedClaim kp selected adoptedID nc =
     nc\<lparr>nc_ProviderID := adoptedID, nc_Capacity := it_Capacity selected,
        nc_Allocatable := it_Allocatable kp selected\<rparr>"

definition pendingClaim ::
  "('q, 'r) karpenter \<Rightarrow> ('q, 'r) InstanceType \<Rightarrow> string \<Rightarrow> 'q NodeClaim \<Rightarrow> 'q NodeClaim" where
  "pendingClaim kp selected batchID nc =
     (let out = nc\<lparr>nc_ProviderID := PendingProviderIDPrefix @ nc_UID nc,
                   nc_Capacity := it_Capacity selected, nc_Allocatable := it_Allocatable kp selected,
                   nc_Labels := nc_Labels nc ++ requirementsToLabels kp (it_Requirements selected)\<rparr>
      in if batchID \<noteq> [] then out\<lparr>nc_Annotations := (nc_Annotations out)(BatchIDAnnotationKey \<mapsto> batchID)\<rparr>
         else out)"

definition addRequest :: "CloudProvider \<Rightarrow> ('q, 'r) InstanceType \<Rightarrow> 'q NodeClaim \<Rightarrow> AddNodesRequest" where
  "addRequest cp selected nc =
     \<lparr>ar_ClusterID = cp_clusterID cp, ar_ProjectID = cp_projectID cp, ar_InstanceType = it_Name selected,
      ar_NodePoolName = lookup (nc_Labels nc) NodePoolLabelKey, ar_OperationID = nc_UID nc\<rparr>"

text \<open>What a \<^verbatim>\<open>select\<close> over the context and a result channel yields.\<close>

type_synonym waiting = "chan \<Rightarrow> NodeBatcher \<Rightarrow> BatchResult result"

text \<open>The text of an error is not modelled; the third argument of the create error is empty.\<close>

definition Create ::
  "('q, 'r) karpenter \<Rightarrow> 'q quantityOps \<Rightarrow> 'q kube \<Rightarrow> CloudProvider \<Rightarrow> waiting \<Rightarrow> 'q NodeClaim option \<Rightarrow>
   NodeBatcher \<Rightarrow> 'q NodeClaim result \<times> NodeBatcher" where
  "Create kp qo k cp wait nodeClaim b =
     (case nodeClaim of
        None \<Rightarrow> (Inl (Errorf ''nodeclaim is nil'' []), b)
      | Some nc \<Rightarrow>
          (case selectInstanceType kp qo k nc of
             Inl e \<Rightarrow> (Inl e, b)
           | Inr selected \<Rightarrow>
               (let adoptedID = lookup (nc_Annotations nc) AdoptedProviderIDAnnotationKey in
                if adoptedID \<noteq> [] then (Inr (adoptedClaim kp selected adoptedID nc), b)
                else
                  (let (ch, b1) = Enqueue (nc_UID nc) (addRequest cp selected nc) b in
                   case wait ch b1 of
                     Inl ctxErr \<Rightarrow> (Inl ctxErr, b1)
                   | Inr result \<Rightarrow>
                       (case br_Err result of
                          Some e \<Rightarrow> (Inl (CreateError e ''AddNodesFailed'' []), b1)
                        | None \<Rightarrow> (Inr (pendingClaim kp selected (br_BatchID result) nc), b1))))))"

section \<open>Delete\<close>

definition removeOperation :: "string \<Rightarrow> string" where
  "removeOperation uid = uid @ ''-remove''"

definition removeRequest :: "CloudProvider \<Rightarrow> string \<Rightarrow> 'q NodeClaim \<Rightarrow> RemoveNodesRequest" where
  "removeRequest cp providerID nc =
     \<lparr>rr_ClusterID = cp_clusterID cp, rr_ProjectID = cp_projectID cp,
      rr_InstanceType = lookup (nc_Labels nc) LabelInstanceTypeStable,
      rr_NodePoolName = lookup (nc_Labels nc) NodePoolLabelKey, rr_ProviderID = providerID\<rparr>"

definition enqueueRemoval ::
  "CloudProvider \<Rightarrow> waiting \<Rightarrow> string \<Rightarrow> 'q NodeClaim \<Rightarrow> NodeBatcher \<Rightarrow> gerror option \<times> NodeBatcher" where
  "enqueueRemoval cp wait providerID nc b =
     (let (ch, b1) = EnqueueRemove (removeOperation (nc_UID nc)) (removeRequest cp providerID nc) b in
      case wait ch b1 of
        Inl ctxErr \<Rightarrow> (Some ctxErr, b1)
      | Inr result \<Rightarrow> (br_Err result, b1))"

text \<open>
  The result: the error, the batcher, and the operations for which \<^verbatim>\<open>Delete\<close> fired a cancel.
\<close>

definition Delete ::
  "'q kube \<Rightarrow> CloudProvider \<Rightarrow> waiting \<Rightarrow> 'q NodeClaim option \<Rightarrow> NodeBatcher \<Rightarrow>
   gerror option \<times> NodeBatcher \<times> string list" where
  "Delete k cp wait nodeClaim b =
     (case nodeClaim of
        None \<Rightarrow> (Some (NodeClaimNotFoundError (Errorf ''nodeclaim has no provider ID'' [])), b, [])
      | Some nc \<Rightarrow>
          (if nc_ProviderID nc = []
           then (Some (NodeClaimNotFoundError (Errorf ''nodeclaim has no provider ID'' [])), b, [])
           else if Succeeded (removeOperation (nc_UID nc)) b
           then (Some (NodeClaimNotFoundError (Errorf ''node removed for nodeclaim %s'' [nc_Name nc])), b, [])
           else if is_pending (nc_ProviderID nc)
           then
             (let realID = (case findNodeProviderID k nc of Inl _ \<Rightarrow> [] | Inr pid \<Rightarrow> pid) in
              if realID = []
              then (Some (NodeClaimNotFoundError (Errorf ''node not yet provisioned for nodeclaim %s'' [nc_Name nc])),
                    b, [nc_UID nc])
              else (case enqueueRemoval cp wait realID nc b of (e, b1) \<Rightarrow> (e, b1, [])))
           else (case enqueueRemoval cp wait (nc_ProviderID nc) nc b of (e, b1) \<Rightarrow> (e, b1, []))))"

section \<open>Get and List\<close>

definition kubeNodeToNodeInfo :: "'q quantityOps \<Rightarrow> 'q Node \<Rightarrow> NodeInfo" where
  "kubeNodeToNodeInfo qo n =
     \<lparr>ni_ProviderID = nd_ProviderID n, ni_Capacity = (\<lambda>k. map_option (qo_String qo) (nd_Capacity n k))\<rparr>"

definition nodeInfoToNodeClaim :: "'q quantityOps \<Rightarrow> NodeInfo \<Rightarrow> 'q NodeClaim" where
  "nodeInfoToNodeClaim qo n =
     zeroNodeClaim\<lparr>nc_ProviderID := ni_ProviderID n,
       nc_Capacity := (\<lambda>k. case ni_Capacity n k of None \<Rightarrow> None
         | Some v \<Rightarrow> (case qo_Parse qo v of Inl _ \<Rightarrow> None | Inr q \<Rightarrow> Some q))\<rparr>"

definition getNodeFromKube :: "'q quantityOps \<Rightarrow> 'q kube \<Rightarrow> string \<Rightarrow> 'q NodeClaim result" where
  "getNodeFromKube qo k providerID =
     andThen (k_cachedNodes k) (\<lambda>nodes.
       (case find (\<lambda>n. nd_ProviderID n = providerID) nodes of
          Some n \<Rightarrow> Inr (nodeInfoToNodeClaim qo (kubeNodeToNodeInfo qo n))
        | None \<Rightarrow> Inl (NodeClaimNotFoundError (Errorf ''no node with provider ID %q'' [providerID]))))"

text \<open>The node lookup of \<^verbatim>\<open>rafay.Client\<close> is a parameter: the broker client or another.\<close>

definition Get ::
  "'q quantityOps \<Rightarrow> 'q kube \<Rightarrow> (string \<Rightarrow> NodeInfo result) \<Rightarrow> string \<Rightarrow> 'q NodeClaim result" where
  "Get qo k getNode providerID =
     (if providerID = [] then Inl (Errorf ''providerID is empty'' [])
      else if is_pending providerID then Inr (zeroNodeClaim\<lparr>nc_ProviderID := providerID\<rparr>)
      else (case getNode providerID of
              Inl e \<Rightarrow>
                (if errorsIs e ErrGetNodeUnsupported then getNodeFromKube qo k providerID
                 else if errorsIs e ErrNodeNotFound then Inl (NodeClaimNotFoundError e)
                 else Inl e)
            | Inr info \<Rightarrow> Inr (nodeInfoToNodeClaim qo info)))"

definition rafayProviderPrefix :: string where "rafayProviderPrefix = ''rafay://''"

definition listNodesFromKube :: "'q quantityOps \<Rightarrow> 'q kube \<Rightarrow> 'q NodeClaim list result" where
  "listNodesFromKube qo k =
     andThen (k_cachedNodes k) (\<lambda>nodes.
       Inr (map (\<lambda>n. nodeInfoToNodeClaim qo (kubeNodeToNodeInfo qo n))
         (filter (\<lambda>n. \<not> (nd_ProviderID n = [] \<or> \<not> hasPrefix (nd_ProviderID n) rafayProviderPrefix)) nodes)))"

definition List_claims ::
  "'q quantityOps \<Rightarrow> 'q kube \<Rightarrow> (string \<Rightarrow> NodeInfo list result) \<Rightarrow> CloudProvider \<Rightarrow> 'q NodeClaim list result" where
  "List_claims qo k listNodes cp =
     (case listNodes (cp_clusterID cp) of
        Inl e \<Rightarrow> (if errorsIs e ErrListNodesUnsupported then listNodesFromKube qo k else Inl e)
      | Inr nodes \<Rightarrow> Inr (map (nodeInfoToNodeClaim qo) nodes))"

definition IsDrifted :: "'q NodeClaim \<Rightarrow> string result" where
  "IsDrifted nc = Inr []"

section \<open>The failure handler\<close>

text \<open>The result is the claim the handler deletes, if any.\<close>

definition NewBatchFailureHandler :: "'q kube \<Rightarrow> string \<Rightarrow> string \<Rightarrow> string \<Rightarrow> 'q NodeClaim option" where
  "NewBatchFailureHandler k operationID kind detail =
     (if kind \<noteq> ''add'' then None
      else (case k_claims k of
              Inl e \<Rightarrow> None
            | Inr claims \<Rightarrow>
                (case find (\<lambda>nc. nc_UID nc = operationID) claims of
                   None \<Rightarrow> None
                 | Some nc \<Rightarrow>
                     (if (nc_ProviderID nc \<noteq> [] \<and> \<not> is_pending (nc_ProviderID nc)) \<or> nc_DeletionTimestamp nc \<noteq> None
                      then None else Some nc))))"

end
