(* ===== verification/Node_Provider_ID.thy ===== *)
theory Node_Provider_ID
  imports Node_Matching
begin

text \<open>
  The controller that binds joined nodes to pending NodeClaims,
  \<^verbatim>\<open>pkg/controllers/nodeproviderid/controller.go\<close>: one reconcile, and the controller against
  an API server other writers change at any moment. The server keeps every object with a version;
  the object handed to a reconcile may be any version there ever was, the nodes may be any list (the
  informer cache), only the list of claims is read from the server; a patch carries the version the
  reconcile started from and the server refuses it when the object changed since.
\<close>

definition nodeWaitRequeueTime :: int where "nodeWaitRequeueTime = 30 * second"

section \<open>One reconcile\<close>

datatype patchOutcome = Patched | Conflict | NotFound | Rejected gerror

datatype reconcileResult = Finished | RequeueAfter int | RequeueNow | Failed gerror

text \<open>The result, and the claim as it was sent in the patch, if one was sent.\<close>

definition Reconcile_npid ::
  "'q kube \<Rightarrow> ('q NodeClaim \<Rightarrow> patchOutcome) \<Rightarrow> 'q NodeClaim \<Rightarrow> reconcileResult \<times> 'q NodeClaim option" where
  "Reconcile_npid k patch nc =
     (if \<not> is_pending (nc_ProviderID nc) then (Finished, None)
      else if nc_DeletionTimestamp nc \<noteq> None then (Finished, None)
      else if lookup (nc_Labels nc) NodePoolLabelKey = [] \<or> NodeClaimSKUs nc = {} then (Finished, None)
      else (case reconcileFinds k nc of
              Inl e \<Rightarrow> (Failed e, None)
            | Inr found \<Rightarrow>
                (if found = [] then (RequeueAfter nodeWaitRequeueTime, None)
                 else
                   (let nc' = nc\<lparr>nc_ProviderID := found\<rparr> in
                    (case patch nc' of
                       Patched \<Rightarrow> Finished
                     | Conflict \<Rightarrow> RequeueNow
                     | NotFound \<Rightarrow> Finished
                     | Rejected e \<Rightarrow> Failed e,
                     Some nc')))))"

text \<open>The claims a node event enqueues.\<close>

definition nodesToNodeClaims :: "'q kube \<Rightarrow> 'q Node \<Rightarrow> string list" where
  "nodesToNodeClaims k n =
     (let pool = lookup (nd_Labels n) nodepoolNameLabel; sku = lookup (nd_Labels n) skuNameLabel in
      if pool = [] \<or> sku = [] then []
      else (case k_cachedClaims k of
              Inl e \<Rightarrow> []
            | Inr claims \<Rightarrow> map nc_Name (filter (\<lambda>nc. is_pending (nc_ProviderID nc) \<and>
                lookup (nc_Labels nc) NodePoolLabelKey = pool \<and> sku \<in> NodeClaimSKUs nc) claims)))"

section \<open>The controller and the API server\<close>

datatype 'q bindPc = BindIdle | BindPatch string nat "'q NodeClaim"

record 'q bindSys =
  bs_api :: "string \<rightharpoonup> nat \<times> 'q NodeClaim"
  bs_versions :: "(nat \<times> 'q NodeClaim) set"
  bs_next :: nat
  bs_pc :: "'q bindPc"

definition stored :: "'q bindSys \<Rightarrow> 'q NodeClaim set" where
  "stored s = {c. \<exists>u v. bs_api s u = Some (v, c)}"

text \<open>The server writes an object under a version never used before.\<close>

definition writeClaim :: "string \<Rightarrow> 'q NodeClaim \<Rightarrow> 'q bindSys \<Rightarrow> 'q bindSys" where
  "writeClaim u c s = s\<lparr>bs_api := (bs_api s)(u \<mapsto> (bs_next s, c)),
     bs_versions := insert (bs_next s, c) (bs_versions s), bs_next := Suc (bs_next s)\<rparr>"

definition bind_init :: "'q bindSys \<Rightarrow> bool" where
  "bind_init s \<longleftrightarrow> bs_api s = Map.empty \<and> bs_versions s = {} \<and> bs_pc s = BindIdle"

inductive bind_step :: "'q bindSys \<Rightarrow> 'q bindSys \<Rightarrow> bool" where
  created: "\<lbrakk>bs_api s u = None; nc_UID c = u; nc_ProviderID c = []\<rbrakk> \<Longrightarrow> bind_step s (writeClaim u c s)"
| launched: "\<lbrakk>bs_api s u = Some (v, c); nc_ProviderID c = []\<rbrakk> \<Longrightarrow>
    bind_step s (writeClaim u (c\<lparr>nc_ProviderID := PendingProviderIDPrefix @ u\<rparr>) s)"
| updated: "\<lbrakk>bs_api s u = Some (v, c); nc_UID c' = u; nc_ProviderID c' = nc_ProviderID c\<rbrakk> \<Longrightarrow>
    bind_step s (writeClaim u c' s)"
| removed: "bs_api s u = Some (v, c) \<Longrightarrow> bind_step s (s\<lparr>bs_api := (bs_api s)(u := None)\<rparr>)"
| read: "\<lbrakk>bs_pc s = BindIdle; (v, nc) \<in> bs_versions s; set claims = stored s;
      k_claims k = Inr claims; k_cachedNodes k = Inr nodes;
      Reconcile_npid k patch nc = (r, Some nc')\<rbrakk> \<Longrightarrow>
    bind_step s (s\<lparr>bs_pc := BindPatch (nc_UID nc) v nc'\<rparr>)"
| patched: "\<lbrakk>bs_pc s = BindPatch u v nc'; bs_api s u = Some (v, c)\<rbrakk> \<Longrightarrow>
    bind_step s ((writeClaim u (c\<lparr>nc_ProviderID := nc_ProviderID nc'\<rparr>) s)\<lparr>bs_pc := BindIdle\<rparr>)"
| refused: "bs_pc s = BindPatch u v nc' \<Longrightarrow> bind_step s (s\<lparr>bs_pc := BindIdle\<rparr>)"

inductive_cases bind_stepE: "bind_step s t"

definition isReal :: "string \<Rightarrow> bool" where
  "isReal pid \<longleftrightarrow> pid \<noteq> [] \<and> \<not> is_pending pid"

definition unique_ids :: "'q bindSys \<Rightarrow> bool" where
  "unique_ids s \<longleftrightarrow> (\<forall>u1 u2 v1 v2 c1 c2. bs_api s u1 = Some (v1, c1) \<longrightarrow> bs_api s u2 = Some (v2, c2) \<longrightarrow>
     isReal (nc_ProviderID c1) \<longrightarrow> nc_ProviderID c1 = nc_ProviderID c2 \<longrightarrow> u1 = u2)"

definition versions_ok :: "'q bindSys \<Rightarrow> bool" where
  "versions_ok s \<longleftrightarrow> (\<forall>u v c. bs_api s u = Some (v, c) \<longrightarrow> (v, c) \<in> bs_versions s \<and> nc_UID c = u) \<and>
     (\<forall>v c. (v, c) \<in> bs_versions s \<longrightarrow> v < bs_next s) \<and>
     (\<forall>v c c'. (v, c) \<in> bs_versions s \<longrightarrow> (v, c') \<in> bs_versions s \<longrightarrow> c = c')"

text \<open>The patch in preparation: its identifier is no stored claim's, its base version was pending.\<close>

definition patch_ok :: "'q bindSys \<Rightarrow> bool" where
  "patch_ok s \<longleftrightarrow> (\<forall>u v nc'. bs_pc s = BindPatch u v nc' \<longrightarrow>
     (\<forall>c \<in> stored s. isReal (nc_ProviderID c) \<longrightarrow> nc_ProviderID c \<noteq> nc_ProviderID nc') \<and>
     (\<forall>c. (v, c) \<in> bs_versions s \<longrightarrow> is_pending (nc_ProviderID c) \<and> nc_DeletionTimestamp c = None))"

definition bind_inv :: "'q bindSys \<Rightarrow> bool" where
  "bind_inv s \<longleftrightarrow> unique_ids s \<and> versions_ok s \<and> patch_ok s"

lemma isReal_pending [simp]: "\<not> isReal (PendingProviderIDPrefix @ u)" "\<not> isReal []"
  by (simp_all add: isReal_def)

lemma write_sel [simp]:
  "bs_api (writeClaim u c s) = (bs_api s)(u \<mapsto> (bs_next s, c))"
  "bs_versions (writeClaim u c s) = insert (bs_next s, c) (bs_versions s)"
  "bs_next (writeClaim u c s) = Suc (bs_next s)" "bs_pc (writeClaim u c s) = bs_pc s"
  by (simp_all add: writeClaim_def)

lemma versions_write: "versions_ok s \<Longrightarrow> nc_UID c = u \<Longrightarrow> versions_ok (writeClaim u c s)"
  unfolding versions_ok_def by (fastforce split: if_splits)

lemma unique_write:
  assumes "unique_ids s"
    and "isReal (nc_ProviderID c) \<Longrightarrow>
      (\<forall>u' v' c'. bs_api s u' = Some (v', c') \<longrightarrow> u' \<noteq> u \<longrightarrow> nc_ProviderID c' \<noteq> nc_ProviderID c)"
  shows "unique_ids (writeClaim u c s)"
  using assms unfolding unique_ids_def by (auto split: if_splits) metis+

lemma stored_write: "c' \<in> stored (writeClaim u c s) \<Longrightarrow> c' = c \<or> c' \<in> stored s"
  by (auto simp: stored_def split: if_splits)

lemma patch_write:
  assumes "patch_ok s" and "versions_ok s"
    and "\<And>u' v' nc'. bs_pc s = BindPatch u' v' nc' \<Longrightarrow> isReal (nc_ProviderID c) \<Longrightarrow> nc_ProviderID c \<noteq> nc_ProviderID nc'"
    and "\<And>u' v' nc'. bs_pc s = BindPatch u' v' nc' \<Longrightarrow> v' < bs_next s"
  shows "patch_ok (writeClaim u c s)"
  unfolding patch_ok_def
proof (intro allI impI conjI ballI)
  fix u' v' nc' c'
  assume pc: "bs_pc (writeClaim u c s) = BindPatch u' v' nc'"
  then have pc': "bs_pc s = BindPatch u' v' nc'" by simp
  show "nc_ProviderID c' \<noteq> nc_ProviderID nc'" if "c' \<in> stored (writeClaim u c s)" "isReal (nc_ProviderID c')"
    using stored_write [OF that(1)] that(2) assms(1,3) pc' unfolding patch_ok_def by blast
  from assms(4) [OF pc'] have "v' \<noteq> bs_next s" by simp
  then show "is_pending (nc_ProviderID c')" "nc_DeletionTimestamp c' = None"
    if "(v', c') \<in> bs_versions (writeClaim u c s)"
    using that assms(1) pc' unfolding patch_ok_def by auto
qed

text \<open>A reconcile that sends a patch started from a pending, undeleted claim and found a free node.\<close>

lemma Reconcile_npid_Some:
  assumes "Reconcile_npid k patch nc = (r, Some nc')" and "k_claims k = Inr claims"
    and "k_cachedNodes k = Inr nodes"
  shows "is_pending (nc_ProviderID nc)" and "nc_DeletionTimestamp nc = None"
    and "nc' = nc\<lparr>nc_ProviderID := bindFinds claims nodes nc\<rparr>" and "bindFinds claims nodes nc \<noteq> []"
  using assms reconcileFinds_eq [OF assms(2,3), of nc]
  by (auto simp: Reconcile_npid_def Let_def split: if_splits sum.splits)

lemma bindFinds_free:
  assumes "bindFinds claims nodes nc = pid" and "pid \<noteq> []" and "c \<in> set claims" and "isReal (nc_ProviderID c)"
  shows "nc_ProviderID c \<noteq> pid"
proof -
  from binding.found [OF assms(1,2)] have "pid \<notin> allIDs claims nc" by (auto simp: belongs_def)
  with assms(3,4) show ?thesis by (auto simp: allIDs_def realIDs_def isReal_def)
qed

lemma bind_inv_init: "bind_init s \<Longrightarrow> bind_inv s"
  by (auto simp: bind_init_def bind_inv_def unique_ids_def versions_ok_def patch_ok_def)

definition base_known :: "'q bindSys \<Rightarrow> bool" where
  "base_known s \<longleftrightarrow> (\<forall>u v nc'. bs_pc s = BindPatch u v nc' \<longrightarrow> (\<exists>c. (v, c) \<in> bs_versions s))"

lemma base_known_less: "base_known s \<Longrightarrow> versions_ok s \<Longrightarrow> bs_pc s = BindPatch u v nc' \<Longrightarrow> v < bs_next s"
  unfolding base_known_def versions_ok_def by blast

lemma inv_write:
  assumes inv: "bind_inv s" and bk: "base_known s" and uid: "nc_UID c = u"
    and old: "isReal (nc_ProviderID c) \<Longrightarrow> \<exists>v c0. bs_api s u = Some (v, c0) \<and> nc_ProviderID c0 = nc_ProviderID c"
  shows "bind_inv (writeClaim u c s)"
  unfolding bind_inv_def
proof (intro conjI)
  from inv have u: "unique_ids s" and v: "versions_ok s" and p: "patch_ok s" by (auto simp: bind_inv_def)
  show "versions_ok (writeClaim u c s)" using v uid by (rule versions_write)
  show "unique_ids (writeClaim u c s)"
  proof (rule unique_write [OF u], intro allI impI)
    fix u' v' c'
    assume "isReal (nc_ProviderID c)" "bs_api s u' = Some (v', c')" "u' \<noteq> u"
    with old u show "nc_ProviderID c' \<noteq> nc_ProviderID c" unfolding unique_ids_def by metis
  qed
  show "patch_ok (writeClaim u c s)"
  proof (rule patch_write [OF p v])
    fix u' v' nc'
    assume pc: "bs_pc s = BindPatch u' v' nc'"
    show "v' < bs_next s" by (rule base_known_less [OF bk v pc])
    assume r: "isReal (nc_ProviderID c)"
    from old [OF r] obtain v0 c0 where "bs_api s u = Some (v0, c0)" "nc_ProviderID c0 = nc_ProviderID c" by blast
    then have "c0 \<in> stored s" by (auto simp: stored_def)
    with p pc r \<open>nc_ProviderID c0 = nc_ProviderID c\<close> show "nc_ProviderID c \<noteq> nc_ProviderID nc'"
      unfolding patch_ok_def by metis
  qed
qed

lemma pc_sel [simp]:
  "stored (s\<lparr>bs_pc := p\<rparr>) = stored s" "unique_ids (s\<lparr>bs_pc := p\<rparr>) = unique_ids s"
  "versions_ok (s\<lparr>bs_pc := p\<rparr>) = versions_ok s" "patch_ok (s\<lparr>bs_pc := BindIdle\<rparr>)"
  by (simp_all add: stored_def unique_ids_def versions_ok_def patch_ok_def)

lemma inv_idle: "bind_inv s \<Longrightarrow> bind_inv (s\<lparr>bs_pc := BindIdle\<rparr>)"
  by (simp add: bind_inv_def)

lemma patch_mono:
  assumes "patch_ok s" and "stored t \<subseteq> stored s" and "bs_pc t = bs_pc s" and "bs_versions t = bs_versions s"
  shows "patch_ok t"
  using assms(1,2) unfolding patch_ok_def assms(3,4) by blast

lemma remove_api: "((bs_api s)(u := None)) u' = Some x \<Longrightarrow> bs_api s u' = Some x"
  by (simp split: if_splits)

lemma inv_remove: "bind_inv s \<Longrightarrow> bind_inv (s\<lparr>bs_api := (bs_api s)(u := None)\<rparr>)"
  unfolding bind_inv_def
proof (elim conjE, intro conjI)
  let ?t = "s\<lparr>bs_api := (bs_api s)(u := None)\<rparr>"
  have api: "bs_api ?t = (bs_api s)(u := None)" by simp
  have sub: "stored ?t \<subseteq> stored s" using remove_api unfolding stored_def api by blast
  show "unique_ids ?t" if "unique_ids s"
    using that remove_api [of s u] unfolding unique_ids_def api by metis
  show "versions_ok ?t" if "versions_ok s"
    using that unfolding versions_ok_def api by (auto dest!: remove_api)
  show "patch_ok ?t" if "patch_ok s"
    by (rule patch_mono [OF that sub]) simp_all
qed

lemma bind_inv_step:
  assumes inv: "bind_inv s \<and> base_known s" and st: "bind_step s t"
  shows "bind_inv t \<and> base_known t"
  using st
proof cases
  case (created u c)
  with inv inv_write [of s c u] show ?thesis by (auto simp: base_known_def isReal_def)
next
  case (launched u v c)
  then have "nc_UID c = u" using inv by (auto simp: bind_inv_def versions_ok_def)
  with launched inv inv_write [of s "c\<lparr>nc_ProviderID := PendingProviderIDPrefix @ u\<rparr>" u] show ?thesis
    by (auto simp: base_known_def)
next
  case (updated u v c c')
  with inv inv_write [of s c' u] show ?thesis by (auto simp: base_known_def)
next
  case (removed u v c)
  with inv inv_remove [of s u] show ?thesis by (simp add: base_known_def)
next
  case (read v nc claims k nodes patch r nc')
  note so = Reconcile_npid_Some [OF read(7,5,6)]
  have "nc_ProviderID c \<noteq> nc_ProviderID nc'" if "c \<in> stored s" "isReal (nc_ProviderID c)" for c
    using bindFinds_free [OF refl so(4), of c] that read(4) so(3) by simp
  moreover have "c = nc" if "(v, c) \<in> bs_versions s" for c
    using that read(3) inv by (auto simp: bind_inv_def versions_ok_def)
  ultimately have "patch_ok t" using so(1,2) by (auto simp: patch_ok_def read(1) stored_def)
  with inv read(3) show ?thesis
    by (auto simp: bind_inv_def unique_ids_def versions_ok_def base_known_def read(1))
next
  case (patched u v nc' c)
  from inv have un: "unique_ids s" and ve: "versions_ok s" and pa: "patch_ok s" by (auto simp: bind_inv_def)
  let ?c = "c\<lparr>nc_ProviderID := nc_ProviderID nc'\<rparr>"
  have "nc_UID c = u" using ve patched(3) by (auto simp: versions_ok_def)
  then have "versions_ok (writeClaim u ?c s)" using ve by (intro versions_write) simp_all
  moreover have "unique_ids (writeClaim u ?c s)"
  proof (rule unique_write [OF un], intro allI impI)
    fix u' v' c'
    assume r: "isReal (nc_ProviderID ?c)" and a: "bs_api s u' = Some (v', c')"
    then have "c' \<in> stored s" by (auto simp: stored_def)
    moreover from pa patched(2) have
      "\<forall>c \<in> stored s. isReal (nc_ProviderID c) \<longrightarrow> nc_ProviderID c \<noteq> nc_ProviderID nc'"
      unfolding patch_ok_def by blast
    ultimately show "nc_ProviderID c' \<noteq> nc_ProviderID ?c" using r by auto
  qed
  ultimately show ?thesis
    by (simp add: patched(1) bind_inv_def base_known_def)
next
  case (refused u v nc')
  with inv inv_idle show ?thesis by (auto simp: base_known_def)
qed

interpretation binds: invariant_system bind_init bind_step "\<lambda>s. bind_inv s \<and> base_known s"
proof unfold_locales
  show "bind_inv s \<and> base_known s" if "bind_init s" for s :: "'a bindSys"
    using bind_inv_init [OF that] that by (simp add: bind_init_def base_known_def)
  show "bind_inv t \<and> base_known t" if "bind_inv s \<and> base_known s" "bind_step s t" for s t :: "'a bindSys"
    using that by (rule bind_inv_step)
qed

section \<open>A small run\<close>

text \<open>One claim is created, launched, found its node \<open>n1\<close> and bound.\<close>

definition bindClaim :: "string \<Rightarrow> unit NodeClaim" where
  "bindClaim pid = zeroNodeClaim\<lparr>nc_Name := ''c'', nc_UID := ''u'',
     nc_Labels := [NodePoolLabelKey \<mapsto> ''p1'', LabelInstanceTypeStable \<mapsto> ''small''], nc_ProviderID := pid\<rparr>"

definition bindNode :: "unit Node" where
  "bindNode = \<lparr>nd_Name = ''n1'', nd_Labels = [nodepoolNameLabel \<mapsto> ''p1'', skuNameLabel \<mapsto> ''small''],
     nd_ProviderID = ''aws:///n1'', nd_CreationTimestamp = 5, nd_DeletionTimestamp = None,
     nd_Capacity = Map.empty, nd_Allocatable = Map.empty, nd_Conditions = [],
     nd_ResourceVersion = ''1''\<rparr>"

definition bindKube :: "unit kube" where
  "bindKube = \<lparr>k_claims = Inr [bindClaim (PendingProviderIDPrefix @ ''u'')], k_nodes = Inr [bindNode],
     k_cachedNodes = Inr [bindNode], k_cachedClaims = Inr [], k_nodeClass = (\<lambda>n. Inl ContextDone)\<rparr>"

definition bindStart :: "unit bindSys" where
  "bindStart = \<lparr>bs_api = Map.empty, bs_versions = {}, bs_next = 0, bs_pc = BindIdle\<rparr>"

definition launchedState :: "unit bindSys" where
  "launchedState = writeClaim ''u'' (bindClaim (PendingProviderIDPrefix @ ''u''))
     (writeClaim ''u'' (bindClaim []) bindStart)"

definition decidedState :: "unit bindSys" where
  "decidedState = launchedState\<lparr>bs_pc := BindPatch ''u'' 1 (bindClaim ''aws:///n1'')\<rparr>"

definition boundState :: "unit bindSys" where
  "boundState = (writeClaim ''u'' (bindClaim ''aws:///n1'') decidedState)\<lparr>bs_pc := BindIdle\<rparr>"

lemma bindClaim_sel [simp]: "nc_UID (bindClaim p) = ''u''" "nc_ProviderID (bindClaim p) = p"
  "(bindClaim p)\<lparr>nc_ProviderID := p'\<rparr> = bindClaim p'"
  by (simp_all add: bindClaim_def)

lemma bind_reconciles:
  "Reconcile_npid bindKube (\<lambda>_. Patched) (bindClaim (PendingProviderIDPrefix @ ''u'')) =
     (Finished, Some (bindClaim ''aws:///n1''))"
  by (simp add: Reconcile_npid_def reconcileFinds_def bindKube_def bindNode_def NodeClaimSKUs_def
    bindClaim_def zeroNodeClaim_def matchingLabel_def realIDs_def label_keys PendingProviderIDPrefix_def
    hasPrefix_def)

lemma bind_run:
  shows "reach bind_init bind_step decidedState" and "bind_step decidedState boundState"
  and "bs_api decidedState ''u'' = Some (1, bindClaim (PendingProviderIDPrefix @ ''u''))"
  and "bs_api boundState ''u'' = Some (2, bindClaim ''aws:///n1'')"
proof -
  let ?s1 = "writeClaim ''u'' (bindClaim []) bindStart"
  have "reach bind_init bind_step bindStart" by (rule reach_init) (simp add: bind_init_def bindStart_def)
  moreover have "bind_step bindStart ?s1" by (rule bind_step.created) (simp_all add: bindStart_def)
  ultimately have r1: "reach bind_init bind_step ?s1" by (rule reach_step)
  have "bs_api ?s1 ''u'' = Some (0, bindClaim [])" by (simp add: bindStart_def)
  from bind_step.launched [OF this] have "bind_step ?s1 launchedState" by (simp add: launchedState_def)
  with r1 have r2: "reach bind_init bind_step launchedState" by (rule reach_step)
  have st: "stored launchedState = {bindClaim (PendingProviderIDPrefix @ ''u'')}"
    by (auto simp: stored_def launchedState_def bindStart_def)
  have "bind_step launchedState (launchedState\<lparr>bs_pc :=
      BindPatch (nc_UID (bindClaim (PendingProviderIDPrefix @ ''u''))) 1 (bindClaim ''aws:///n1'')\<rparr>)"
    by (rule bind_step.read [OF _ _ _ _ _ bind_reconciles, where claims = "[bindClaim (PendingProviderIDPrefix @ ''u'')]"
          and nodes = "[bindNode]"])
      (simp_all add: st, simp_all add: launchedState_def bindStart_def bindKube_def)
  then have "bind_step launchedState decidedState" by (simp add: decidedState_def)
  with r2 show "reach bind_init bind_step decidedState" by (rule reach_step)
  show api: "bs_api decidedState ''u'' = Some (1, bindClaim (PendingProviderIDPrefix @ ''u''))"
    by (simp add: decidedState_def launchedState_def bindStart_def)
  have "bs_pc decidedState = BindPatch ''u'' 1 (bindClaim ''aws:///n1'')" by (simp add: decidedState_def)
  from bind_step.patched [OF this api] show "bind_step decidedState boundState" by (simp add: boundState_def)
  show "bs_api boundState ''u'' = Some (2, bindClaim ''aws:///n1'')"
    by (simp add: boundState_def decidedState_def launchedState_def bindStart_def)
qed

lemma bound_real: "isReal ''aws:///n1''"
  by (simp add: isReal_def PendingProviderIDPrefix_def hasPrefix_def)



text \<open>
  A binding is final and hits only what it meant to: in a step from any reachable state a stored
  claim's real provider ID never changes while the claim exists, and a claim that gets a real ID was
  pending and not being deleted in the very version the patch replaced.
\<close>
theorem binding_final:
  assumes "reach bind_init bind_step s" and "bind_step s t"
    and "bs_api s u = Some (v, c)" and "bs_api t u = Some (v', c')" and "isReal (nc_ProviderID c) \<or> isReal (nc_ProviderID c')"
  shows "nc_ProviderID c' = nc_ProviderID c \<or> (is_pending (nc_ProviderID c) \<and> nc_DeletionTimestamp c = None)"
proof -
  from binds.reach_inv [OF assms(1)] have ve: "versions_ok s" and pa: "patch_ok s"
    by (auto simp: bind_inv_def)
  from assms(2) show ?thesis
  proof cases
    case (launched u0 v0 c0)
    with assms(3-5) show ?thesis by (auto split: if_splits)
  next
    case (patched u0 v0 nc' c0)
    have "(v0, c0) \<in> bs_versions s" using ve patched(3) by (auto simp: versions_ok_def)
    with pa patched(2) have "is_pending (nc_ProviderID c0) \<and> nc_DeletionTimestamp c0 = None"
      unfolding patch_ok_def by blast
    with assms(3,4) patched show ?thesis by (auto split: if_splits)
  qed (use assms(3,4) in \<open>auto split: if_splits\<close>)
qed

theorem binding_final_witness:
  "nc_ProviderID (bindClaim ''aws:///n1'') = nc_ProviderID (bindClaim (PendingProviderIDPrefix @ ''u'')) \<or>
   (is_pending (nc_ProviderID (bindClaim (PendingProviderIDPrefix @ ''u''))) \<and>
    nc_DeletionTimestamp (bindClaim (PendingProviderIDPrefix @ ''u'')) = None)"
  by (rule binding_final [OF bind_run(1-4)]) (simp add: bound_real)

end
