(* ===== verification/Go_Strconv.thy ===== *)
theory Go_Strconv
  imports Prelude Go_Float
begin

text \<open>
  What the program uses of Go's packages \<^verbatim>\<open>strconv\<close>, \<^verbatim>\<open>time\<close> and
  \<^verbatim>\<open>strings\<close> to read settings: \<^verbatim>\<open>ParseBool\<close>, \<^verbatim>\<open>Atoi\<close>, \<^verbatim>\<open>ParseDuration\<close> and
  \<^verbatim>\<open>EqualFold\<close> with an ASCII word. A \<^verbatim>\<open>uint64\<close> is an integer; the range checks are those of the
  library.
\<close>

definition isDigit :: "char \<Rightarrow> bool" where
  "isDigit c \<longleftrightarrow> of_char c \<in> {48 :: int..57}"

definition digitVal :: "char \<Rightarrow> int" where
  "digitVal c = of_char c - 48"

definition decimal :: "string \<Rightarrow> int" where
  "decimal s = foldl (\<lambda>x c. x * 10 + digitVal c) 0 s"

definition ParseBool :: "string \<Rightarrow> bool result" where
  "ParseBool s =
     (if s \<in> {''1'', ''t'', ''T'', ''TRUE'', ''true'', ''True''} then Inr True
      else if s \<in> {''0'', ''f'', ''F'', ''FALSE'', ''false'', ''False''} then Inr False
      else Inl (Errorf ''strconv.ParseBool: parsing %q: invalid syntax'' [s]))"

text \<open>The sign of a number and what follows it.\<close>

definition splitSign :: "string \<Rightarrow> bool \<times> string" where
  "splitSign s = (case s of [] \<Rightarrow> (False, [])
     | c # r \<Rightarrow> if c = CHR ''-'' then (True, r) else if c = CHR ''+'' then (False, r) else (False, s))"

definition Atoi :: "string \<Rightarrow> int result" where
  "Atoi s =
     (let (neg, ds) = splitSign s; v = (if neg then - decimal ds else decimal ds) in
      if ds = [] \<or> \<not> list_all isDigit ds then Inl (Errorf ''strconv.Atoi: parsing %q: invalid syntax'' [s])
      else if v < - (2 ^ 63) \<or> 2 ^ 63 - 1 < v then Inl (Errorf ''strconv.Atoi: parsing %q: value out of range'' [s])
      else Inr v)"

definition lowerASCII :: "char \<Rightarrow> char" where
  "lowerASCII c = (if of_char c \<in> {65 :: int..90} then char_of (of_char c + 32 :: int) else c)"

text \<open>No other character folds to a letter of the words the program compares with.\<close>

definition EqualFold :: "string \<Rightarrow> string \<Rightarrow> bool" where
  "EqualFold s word \<longleftrightarrow> map lowerASCII s = word"

section \<open>Durations\<close>

definition unitMap :: "string \<Rightarrow> int option" where
  "unitMap = [''ns'' \<mapsto> 1, ''us'' \<mapsto> 1000, [CHR 0xC2, CHR 0xB5, CHR ''s''] \<mapsto> 1000,
     [CHR 0xCE, CHR 0xBC, CHR ''s''] \<mapsto> 1000, ''ms'' \<mapsto> 1000000, ''s'' \<mapsto> 1000000000,
     ''m'' \<mapsto> 60 * 1000000000, ''h'' \<mapsto> 3600 * 1000000000]"

text \<open>\<^verbatim>\<open>leadingInt\<close>: the digits at the front, \<open>None\<close> on overflow.\<close>

fun leadingInt :: "int \<Rightarrow> string \<Rightarrow> (int \<times> string) option" where
  "leadingInt x [] = Some (x, [])"
| "leadingInt x (c # s) =
     (if \<not> isDigit c then Some (x, c # s)
      else if 2 ^ 63 div 10 < x then None
      else if 2 ^ 63 < x * 10 + digitVal c then None
      else leadingInt (x * 10 + digitVal c) s)"

text \<open>\<^verbatim>\<open>leadingFraction\<close>: digits past the range are skipped; the scale is a power of ten.\<close>

fun leadingFraction :: "int \<Rightarrow> nat \<Rightarrow> bool \<Rightarrow> string \<Rightarrow> int \<times> nat \<times> string" where
  "leadingFraction x k overflow [] = (x, k, [])"
| "leadingFraction x k overflow (c # s) =
     (if \<not> isDigit c then (x, k, c # s)
      else if overflow then leadingFraction x k True s
      else if (2 ^ 63 - 1) div 10 < x then leadingFraction x k True s
      else if 2 ^ 63 < x * 10 + digitVal c then leadingFraction x k True s
      else leadingFraction (x * 10 + digitVal c) (Suc k) False s)"

definition durationError :: "string \<Rightarrow> 'a result" where
  "durationError s = Inl (Errorf ''time: invalid duration %q'' [s])"

text \<open>\<^verbatim>\<open>uint64(float64(f) * (float64(unit) / scale))\<close>; the product is below \<open>2^63\<close>.\<close>

definition fractionPart :: "int \<Rightarrow> nat \<Rightarrow> int \<Rightarrow> int" where
  "fractionPart f k unit =
     (case fmul (fround (of_int f)) (fround (of_int unit / 10 ^ k)) of Fin q \<Rightarrow> \<lfloor>q\<rfloor> | _ \<Rightarrow> 0)"

text \<open>One number with its unit: its nanoseconds and the rest of the string.\<close>

definition durationPart :: "string \<Rightarrow> string \<Rightarrow> (int \<times> string) result" where
  "durationPart orig s =
     (if s = [] \<or> \<not> (hd s = CHR ''.'' \<or> isDigit (hd s)) then durationError orig
      else (case leadingInt 0 s of
              None \<Rightarrow> durationError orig
            | Some (v, s1) \<Rightarrow>
                (let pre = length s1 \<noteq> length s;
                     dot = s1 \<noteq> [] \<and> hd s1 = CHR ''.'';
                     (f, k, s2) = (if dot then leadingFraction 0 0 False (tl s1) else (0, 0, s1));
                     post = dot \<and> length s2 \<noteq> length (tl s1);
                     u = takeWhile (\<lambda>c. \<not> (c = CHR ''.'' \<or> isDigit c)) s2;
                     rest = dropWhile (\<lambda>c. \<not> (c = CHR ''.'' \<or> isDigit c)) s2 in
                 if \<not> pre \<and> \<not> post then durationError orig
                 else if u = [] then durationError orig
                 else (case unitMap u of
                         None \<Rightarrow> durationError orig
                       | Some unit \<Rightarrow>
                           (if 2 ^ 63 div unit < v then durationError orig
                            else
                              (let v1 = v * unit; v2 = (if 0 < f then v1 + fractionPart f k unit else v1) in
                               if 2 ^ 63 < v2 then durationError orig else Inr (v2, rest)))))))"

lemma leadingInt_length: "leadingInt x s = Some (v, r) \<Longrightarrow> length r \<le> length s"
proof (induction s arbitrary: x)
  case (Cons c s)
  then show ?case by (simp only: leadingInt.simps split: if_splits) (auto intro: le_SucI)
qed simp

lemma leadingFraction_length: "length (snd (snd (leadingFraction x k b s))) \<le> length s"
proof (induction s arbitrary: x k b)
  case (Cons c s)
  then show ?case by (simp only: leadingFraction.simps split: if_splits) (auto intro: le_SucI)
qed simp

lemma durationPart_length:
  assumes "durationPart orig s = Inr (v, r)"
  shows "length r < length s"
proof -
  obtain v0 s1 where v0: "leadingInt 0 s = Some (v0, s1)" "s \<noteq> []"
    using assms by (auto simp: durationPart_def durationError_def split: if_splits option.splits)
  define dot where "dot = (s1 \<noteq> [] \<and> hd s1 = CHR ''.'')"
  obtain f k s2 where s2: "(if dot then leadingFraction 0 0 False (tl s1) else (0, 0, s1)) = (f, k, s2)"
    by (metis prod_cases3)
  have len: "length s2 \<le> length s"
  proof (cases dot)
    case True
    with s2 leadingFraction_length [of 0 0 False "tl s1"] have "length s2 \<le> length (tl s1)" by simp
    also have "\<dots> \<le> length s1" by simp
    also have "\<dots> \<le> length s" by (rule leadingInt_length [OF v0(1)])
    finally show ?thesis .
  next
    case False
    with s2 leadingInt_length [OF v0(1)] show ?thesis by simp
  qed
  let ?P = "\<lambda>c. \<not> (c = CHR ''.'' \<or> isDigit c)"
  have "takeWhile ?P s2 \<noteq> [] \<and> r = dropWhile ?P s2"
    using assms v0 s2 unfolding durationPart_def durationError_def dot_def [symmetric] Let_def
    by (simp add: dot_def [symmetric] split: if_splits option.splits)
  then obtain c cs where "s2 = c # cs" "?P c" "r = dropWhile ?P cs" by (cases s2) (auto split: if_splits)
  then have "length r \<le> length cs" "length s2 = Suc (length cs)" by (simp_all add: length_dropWhile_le)
  with len show ?thesis by simp
qed

function durationParts :: "string \<Rightarrow> int \<Rightarrow> string \<Rightarrow> int result" where
  "durationParts orig d s =
     (if s = [] then Inr d
      else (case durationPart orig s of
              Inl e \<Rightarrow> Inl e
            | Inr (v, rest) \<Rightarrow>
                (if 2 ^ 63 < d + v then durationError orig else durationParts orig (d + v) rest)))"
  by pat_completeness auto
termination
  by (relation "measure (\<lambda>(_, _, s). length s)") (auto dest: durationPart_length)

declare durationParts.simps [simp del]

definition ParseDuration :: "string \<Rightarrow> int result" where
  "ParseDuration orig =
     (let (neg, s) = splitSign orig in
      if s = ''0'' then Inr 0
      else if s = [] then durationError orig
      else (case durationParts orig 0 s of
              Inl e \<Rightarrow> Inl e
            | Inr d \<Rightarrow> (if neg then Inr (- d) else if 2 ^ 63 - 1 < d then durationError orig else Inr d)))"

end
