(* ===== verification/Node_Adoption.thy ===== *)
theory Node_Adoption
  imports Cloud_Provider Node_Provider_ID Go_Strconv "HOL-Library.Sublist"
begin

text \<open>
  Adoption of the nodes that exist without a NodeClaim,
  \<^verbatim>\<open>pkg/controllers/nodeadoption/controller.go\<close>: one reconcile of a NodePool. The state of the
  loop is a record; the patches and creations sent are part of it. The answers of the API server, the
  template conversion, the label key of a NodeClass, the Ready status and the offering check of
  Karpenter are parameters. The second list of nodes, \<open>ae_ListAll\<close>, matters by its error only: the counts
  taken from it go into a log line, which is left out.
\<close>

definition adoptedNodeAnnotationKey :: string where
  "adoptedNodeAnnotationKey = ''karpenter.rafay.io/adopted-node''"
definition autoScalingAnnotationKey :: string where
  "autoScalingAnnotationKey = ''karpenter.rafay.io/auto-scaling''"
definition resyncInterval :: int where "resyncInterval = 5 * 60 * second"
definition GroupName :: string where "GroupName = ''karpenter.rafay.io''"

record ('q, 'r) adoptEnv =
  ae_ToNodeClaim :: "NodePool \<Rightarrow> 'q NodeClaim"
  ae_NodeClassLabelKey :: "string \<Rightarrow> string \<Rightarrow> string"
  ae_ReadyStatus :: "'q Node \<Rightarrow> string"
  ae_HasCompatible :: "'r offering list \<Rightarrow> 'r \<Rightarrow> bool"
  ae_InstanceTypes :: "NodePool \<Rightarrow> ('q, 'r) InstanceType list result"
  ae_Patch :: "'q Node \<Rightarrow> gerror option"
  ae_Create :: "'q NodeClaim \<Rightarrow> gerror option"
  ae_ListAll :: "gerror option"

definition EnabledFromEnv :: "string \<Rightarrow> bool" where
  "EnabledFromEnv env =
     (let raw = trimSpace env in
      if raw = [] then True else (case ParseBool raw of Inl _ \<Rightarrow> True | Inr enabled \<Rightarrow> enabled))"

definition nodeToNodePool :: "'q Node \<Rightarrow> string list" where
  "nodeToNodePool n =
     (let pool = lookup (nd_Labels n) nodepoolNameLabel in if pool = [] then [] else [pool])"

section \<open>The NodeClaim of an existing node\<close>

definition capacityTypeOf :: "('q, 'r) karpenter \<Rightarrow> ('q, 'r) InstanceType \<Rightarrow> string" where
  "capacityTypeOf kp it =
     (case it_Offerings it of
        [] \<Rightarrow> CapacityTypeOnDemand
      | off # _ \<Rightarrow>
          (let ct = kp_CapacityType kp (of_Requirements off) in if ct \<noteq> [] then ct else CapacityTypeOnDemand))"

definition wellKnownNodeLabels :: "('q, 'r) karpenter \<Rightarrow> 'q Node \<Rightarrow> string \<Rightarrow> ('q, 'r) InstanceType \<Rightarrow> labels" where
  "wellKnownNodeLabels kp n sku it =
     fold (\<lambda>key m. let v = lookup (nd_Labels n) key in if v \<noteq> [] then m(key \<mapsto> v) else m)
       [LabelArchStable, LabelOSStable, LabelTopologyZone, LabelTopologyRegion]
       [LabelInstanceTypeStable \<mapsto> sku, CapacityTypeLabelKey \<mapsto> capacityTypeOf kp it]"

definition pinInstanceType :: "requirement list \<Rightarrow> string \<Rightarrow> requirement list" where
  "pinInstanceType reqs sku =
     filter (\<lambda>r. rq_Key r \<noteq> LabelInstanceTypeStable) reqs @
       [\<lparr>rq_Key = LabelInstanceTypeStable, rq_Operator = ''In'', rq_Values = [sku]\<rparr>]"

definition adoptedNodeClaim ::
  "('q, 'r) karpenter \<Rightarrow> ('q, 'r) adoptEnv \<Rightarrow> NodePool \<Rightarrow> NodeClassRef \<Rightarrow> 'q Node \<Rightarrow> string \<Rightarrow>
   ('q, 'r) InstanceType \<Rightarrow> 'q NodeClaim" where
  "adoptedNodeClaim kp env np ref n sku it =
     (ae_ToNodeClaim env np)
       \<lparr>nc_GenerateName := np_Name np @ ''-'',
        nc_OwnerReferences := [\<lparr>own_APIVersion = ''karpenter.sh/v1'', own_Kind = ''NodePool'',
          own_Name = np_Name np, own_UID = np_UID np, own_BlockOwnerDeletion = Some True\<rparr>],
        nc_Taints := [], nc_StartupTaints := [],
        nc_Requirements := pinInstanceType (np_Requirements np) sku,
        nc_Labels := np_TemplateLabels np ++ wellKnownNodeLabels kp n sku it ++
          [NodePoolLabelKey \<mapsto> np_Name np, ae_NodeClassLabelKey env (ref_Group ref) (ref_Kind ref) \<mapsto> ref_Name ref],
        nc_Annotations := np_TemplateAnnotations np ++ [adoptedNodeAnnotationKey \<mapsto> nd_Name n]\<rparr>"

definition validateAdoptable ::
  "('q, 'r) karpenter \<Rightarrow> ('q, 'r) adoptEnv \<Rightarrow> NodePool \<Rightarrow> ('q, 'r) InstanceType \<Rightarrow> labels \<Rightarrow> gerror option" where
  "validateAdoptable kp env np it ls =
     (let labelReqs = kp_FromLabels kp ls; poolReqs = kp_FromSelector kp (np_Requirements np) in
      case kp_Compatible kp labelReqs poolReqs of
        Some e \<Rightarrow> Some (Wrapf ''the node's labels do not satisfy the pool's requirements: %w'' [] e)
      | None \<Rightarrow>
          (if \<not> ae_HasCompatible env (it_Offerings it) labelReqs
           then Some (Errorf ''instance type %q has no offering compatible with the node's labels'' [it_Name it])
           else None))"

section \<open>Which nodes\<close>

definition claimedByPendingClaim :: "'q NodeClaim list \<Rightarrow> 'q Node \<Rightarrow> string \<Rightarrow> bool" where
  "claimedByPendingClaim pendingClaims n sku =
     list_ex (\<lambda>nc. sku \<in> NodeClaimSKUs nc \<and> nc_CreationTimestamp nc < nd_CreationTimestamp n) pendingClaims"

definition isReady :: "('q, 'r) adoptEnv \<Rightarrow> 'q Node \<Rightarrow> bool" where
  "isReady env n \<longleftrightarrow> ae_ReadyStatus env n = ''True''"

definition isControlPlane :: "'q Node \<Rightarrow> bool" where
  "isControlPlane n \<longleftrightarrow> nd_Labels n ''node-role.kubernetes.io/control-plane'' \<noteq> None \<or>
     nd_Labels n ''node-role.kubernetes.io/master'' \<noteq> None"

text \<open>The identifiers the listed claims speak for, and the pool's claims that wait for a node.\<close>

definition claimIDs :: "'q NodeClaim \<Rightarrow> string set" where
  "claimIDs nc =
     (let pid = nc_ProviderID nc; adopted = lookup (nc_Annotations nc) AdoptedProviderIDAnnotationKey in
      (if pid \<noteq> [] \<and> \<not> is_pending pid then {pid} else {}) \<union> (if adopted \<noteq> [] then {adopted} else {}))"

definition claimedIDs :: "'q NodeClaim list \<Rightarrow> string set" where
  "claimedIDs claims = (\<Union>nc \<in> set claims. claimIDs nc)"

definition poolPending :: "string \<Rightarrow> 'q NodeClaim list \<Rightarrow> 'q NodeClaim list" where
  "poolPending pool claims =
     filter (\<lambda>nc. lookup (nc_Labels nc) NodePoolLabelKey = pool \<and> is_pending (nc_ProviderID nc) \<and>
       nc_DeletionTimestamp nc = None) claims"

section \<open>The loop\<close>

definition equalNodes :: "'q Node \<Rightarrow> 'q Node \<Rightarrow> bool" where
  "equalNodes a b \<longleftrightarrow> nd_ProviderID a = nd_ProviderID b \<and>
     lookup (nd_Labels a) NodeRegisteredLabelKey = lookup (nd_Labels b) NodeRegisteredLabelKey"

definition setRegistered :: "'q Node \<Rightarrow> 'q Node" where
  "setRegistered n =
     (if lookup (nd_Labels n) NodeRegisteredLabelKey \<noteq> ''true''
      then n\<lparr>nd_Labels := (nd_Labels n)(NodeRegisteredLabelKey \<mapsto> ''true'')\<rparr> else n)"

text \<open>
  The provider ID, and the node sent in the patch if one was sent. With the optimistic lock the patch
  carries the resource version of the node as it was read, which \<open>patched\<close> still has.
\<close>

definition prepareNode ::
  "('q, 'r) adoptEnv \<Rightarrow> 'q Node \<Rightarrow> string \<Rightarrow> string \<Rightarrow> string result \<times> 'q Node list" where
  "prepareNode env n pool sku =
     (let built = BuildProviderID pool sku (nd_Name n);
          providerID = (if nd_ProviderID n = [] then built else nd_ProviderID n) in
      if nd_ProviderID n = [] \<and> built = []
      then (Inl (Errorf ''cannot build a provider ID from pool %q, sku %q, node %q'' [pool, sku, nd_Name n]), [])
      else
        (let patched = setRegistered (n\<lparr>nd_ProviderID := providerID\<rparr>) in
         if equalNodes n patched then (Inr providerID, [])
         else (case ae_Patch env patched of
                 Some e \<Rightarrow> (Inl e, [patched])
               | None \<Rightarrow> (Inr providerID, [patched]))))"

text \<open>\<open>as_types\<close> is empty until the instance types are resolved.\<close>

record ('q, 'r) adoptSt =
  as_claimed :: "string set"
  as_types :: "('q, 'r) InstanceType list"
  as_adopted :: nat
  as_skipped :: nat
  as_notReady :: nat
  as_errs :: "gerror list"
  as_patches :: "'q Node list"
  as_created :: "'q NodeClaim list"

definition skip :: "('q, 'r) adoptSt \<Rightarrow> ('q, 'r) adoptSt" where
  "skip st = st\<lparr>as_skipped := Suc (as_skipped st)\<rparr>"

text \<open>From \<^verbatim>\<open>prepareNode\<close> on: the patch, the annotation, the creation.\<close>

definition takeNode ::
  "('q, 'r) adoptEnv \<Rightarrow> NodePool \<Rightarrow> 'q Node \<Rightarrow> string \<Rightarrow> 'q NodeClaim \<Rightarrow> ('q, 'r) adoptSt \<Rightarrow> ('q, 'r) adoptSt" where
  "takeNode env np n sku nc st =
     (case prepareNode env n (np_Name np) sku of
        (Inl e, ps) \<Rightarrow> st\<lparr>as_patches := as_patches st @ ps,
          as_errs := as_errs st @ [Wrapf ''prepare node %s: %w'' [nd_Name n] e]\<rparr>
      | (Inr resolvedID, ps) \<Rightarrow>
          (let nc' = nc\<lparr>nc_Annotations := (nc_Annotations nc)(AdoptedProviderIDAnnotationKey \<mapsto> resolvedID)\<rparr>;
               st' = st\<lparr>as_patches := as_patches st @ ps\<rparr> in
           case ae_Create env nc' of
             Some e \<Rightarrow> st'\<lparr>as_errs := as_errs st' @ [Wrapf ''create nodeclaim for node %s: %w'' [nd_Name n] e]\<rparr>
           | None \<Rightarrow> st'\<lparr>as_claimed := insert resolvedID (as_claimed st'),
               as_adopted := Suc (as_adopted st'), as_created := as_created st' @ [nc']\<rparr>))"

definition examineType ::
  "('q, 'r) karpenter \<Rightarrow> ('q, 'r) adoptEnv \<Rightarrow> NodePool \<Rightarrow> NodeClassRef \<Rightarrow> 'q Node \<Rightarrow> string \<Rightarrow>
   ('q, 'r) adoptSt \<Rightarrow> ('q, 'r) adoptSt" where
  "examineType kp env np ref n sku st =
     (case find (\<lambda>it. it_Name it = sku) (as_types st) of
        None \<Rightarrow> skip st
      | Some it \<Rightarrow>
          (let nc = adoptedNodeClaim kp env np ref n sku it in
           case validateAdoptable kp env np it (nc_Labels nc) of
             Some e \<Rightarrow> skip st
           | None \<Rightarrow> takeNode env np n sku nc st))"

text \<open>The body of the loop for one node: an error ends the reconcile.\<close>

definition adoptNode ::
  "('q, 'r) karpenter \<Rightarrow> ('q, 'r) adoptEnv \<Rightarrow> NodePool \<Rightarrow> NodeClassRef \<Rightarrow> 'q NodeClaim list \<Rightarrow> 'q Node \<Rightarrow>
   ('q, 'r) adoptSt \<Rightarrow> gerror option \<times> ('q, 'r) adoptSt" where
  "adoptNode kp env np ref pendingClaims n st =
     (let sku = lookup (nd_Labels n) skuNameLabel; providerID = nd_ProviderID n in
      if nd_DeletionTimestamp n \<noteq> None then (None, st)
      else if isControlPlane n then (None, skip st)
      else if \<not> isReady env n then
        (None, if providerID = [] \<or> providerID \<notin> as_claimed st
               then st\<lparr>as_notReady := Suc (as_notReady st)\<rparr> else st)
      else if sku = [] then (None, skip st)
      else if providerID \<noteq> [] \<and> \<not> hasPrefix providerID ProviderIDPrefix then (None, st)
      else if providerID \<noteq> [] \<and> providerID \<in> as_claimed st then (None, st)
      else if claimedByPendingClaim pendingClaims n sku then (None, st)
      else if as_types st = [] then
        (case ae_InstanceTypes env np of
           Inl e \<Rightarrow> (Some (Wrapf ''get instance types for pool %q: %w'' [np_Name np] e), st)
         | Inr its \<Rightarrow> (None, examineType kp env np ref n sku (st\<lparr>as_types := its\<rparr>)))
      else (None, examineType kp env np ref n sku st))"

fun adoptNodes ::
  "('q, 'r) karpenter \<Rightarrow> ('q, 'r) adoptEnv \<Rightarrow> NodePool \<Rightarrow> NodeClassRef \<Rightarrow> 'q NodeClaim list \<Rightarrow> 'q Node list \<Rightarrow>
   ('q, 'r) adoptSt \<Rightarrow> gerror option \<times> ('q, 'r) adoptSt" where
  "adoptNodes kp env np ref pendingClaims [] st = (None, st)"
| "adoptNodes kp env np ref pendingClaims (n # ns) st =
     (case adoptNode kp env np ref pendingClaims n st of
        (Some e, st') \<Rightarrow> (Some e, st')
      | (None, st') \<Rightarrow> adoptNodes kp env np ref pendingClaims ns st')"

definition adoptStart :: "'q NodeClaim list \<Rightarrow> ('q, 'r) adoptSt" where
  "adoptStart claims = \<lparr>as_claimed = claimedIDs claims, as_types = [], as_adopted = 0, as_skipped = 0,
     as_notReady = 0, as_errs = [], as_patches = [], as_created = []\<rparr>"

definition Reconcile_adoption ::
  "('q, 'r) karpenter \<Rightarrow> ('q, 'r) adoptEnv \<Rightarrow> 'q kube \<Rightarrow> NodePool \<Rightarrow> reconcileResult \<times> ('q, 'r) adoptSt" where
  "Reconcile_adoption kp env k np =
     (if np_DeletionTimestamp np \<noteq> None then (Finished, adoptStart [])
      else (case np_NodeClassRef np of
              None \<Rightarrow> (Finished, adoptStart [])
            | Some ref \<Rightarrow>
                (if ref_Group ref \<noteq> GroupName \<or> ref_Kind ref \<noteq> ''RafayNodeClass'' then (Finished, adoptStart [])
                 else if lookup (np_Annotations np) autoScalingAnnotationKey = ''false'' then (Finished, adoptStart [])
                 else (case k_cachedNodes k of
                         Inl e \<Rightarrow> (Failed (Wrapf ''list nodes in pool %q: %w'' [np_Name np] e), adoptStart [])
                       | Inr nodes \<Rightarrow>
                         (case ae_ListAll env of
                            Some e \<Rightarrow> (Failed (Wrapf ''list nodes: %w'' [] e), adoptStart [])
                          | None \<Rightarrow>
                           (case k_claims k of
                              Inl e \<Rightarrow> (Failed (Wrapf ''list nodeclaims: %w'' [] e), adoptStart [])
                            | Inr claims \<Rightarrow>
                                (case adoptNodes kp env np ref (poolPending (np_Name np) claims)
                                        (matchingLabel nodepoolNameLabel (np_Name np) nodes) (adoptStart claims) of
                                   (Some e, st) \<Rightarrow> (Failed e, st)
                                 | (None, st) \<Rightarrow>
                                     (if as_errs st \<noteq> [] then Failed (Joined (as_errs st))
                                      else RequeueAfter resyncInterval, st))))))))"

section \<open>What a pass creates\<close>

text \<open>The provider ID a node has after \<^verbatim>\<open>prepareNode\<close>.\<close>

definition effectiveID :: "NodePool \<Rightarrow> 'q Node \<Rightarrow> string" where
  "effectiveID np n =
     (if nd_ProviderID n = [] then BuildProviderID (np_Name np) (lookup (nd_Labels n) skuNameLabel) (nd_Name n)
      else nd_ProviderID n)"

text \<open>A node that a pass may adopt as a machine of the instance type \<open>it\<close>.\<close>

definition adoptable ::
  "('q, 'r) karpenter \<Rightarrow> ('q, 'r) adoptEnv \<Rightarrow> NodePool \<Rightarrow> NodeClassRef \<Rightarrow> 'q NodeClaim list \<Rightarrow>
   'q Node \<Rightarrow> ('q, 'r) InstanceType \<Rightarrow> bool" where
  "adoptable kp env np ref pend n it \<longleftrightarrow>
     nd_DeletionTimestamp n = None \<and> \<not> isControlPlane n \<and> isReady env n \<and>
     lookup (nd_Labels n) skuNameLabel \<noteq> [] \<and>
     (nd_ProviderID n = [] \<or> hasPrefix (nd_ProviderID n) ProviderIDPrefix) \<and>
     \<not> claimedByPendingClaim pend n (lookup (nd_Labels n) skuNameLabel) \<and>
     (\<exists>its. ae_InstanceTypes env np = Inr its \<and>
        find (\<lambda>it. it_Name it = lookup (nd_Labels n) skuNameLabel) its = Some it) \<and>
     validateAdoptable kp env np it
       (nc_Labels (adoptedNodeClaim kp env np ref n (lookup (nd_Labels n) skuNameLabel) it)) = None"

text \<open>The node as the patch of \<^verbatim>\<open>prepareNode\<close> sends it, and the claim of a node taken.\<close>

definition sentNode :: "NodePool \<Rightarrow> 'q Node \<Rightarrow> 'q Node" where
  "sentNode np n = setRegistered (n\<lparr>nd_ProviderID := effectiveID np n\<rparr>)"

definition claimFor ::
  "('q, 'r) karpenter \<Rightarrow> ('q, 'r) adoptEnv \<Rightarrow> NodePool \<Rightarrow> NodeClassRef \<Rightarrow> 'q NodeClaim list \<Rightarrow>
   'q Node \<Rightarrow> 'q NodeClaim \<Rightarrow> bool" where
  "claimFor kp env np ref pend n nc \<longleftrightarrow> (\<exists>it. adoptable kp env np ref pend n it \<and> effectiveID np n \<noteq> [] \<and>
     (nd_ProviderID n = [] \<longrightarrow> ae_Patch env (sentNode np n) = None) \<and>
     nc = (adoptedNodeClaim kp env np ref n (lookup (nd_Labels n) skuNameLabel) it)
       \<lparr>nc_Annotations := (np_TemplateAnnotations np ++ [adoptedNodeAnnotationKey \<mapsto> nd_Name n])
          (AdoptedProviderIDAnnotationKey \<mapsto> effectiveID np n)\<rparr>)"

definition types_ok :: "('q, 'r) adoptEnv \<Rightarrow> NodePool \<Rightarrow> ('q, 'r) adoptSt \<Rightarrow> bool" where
  "types_ok env np st \<longleftrightarrow> as_types st = [] \<or> ae_InstanceTypes env np = Inr (as_types st)"

lemma prepareNode_Inr:
  "prepareNode env n (np_Name np) (lookup (nd_Labels n) skuNameLabel) = (Inr pid, ps) \<Longrightarrow>
   pid = effectiveID np n \<and> pid \<noteq> [] \<and> (nd_ProviderID n = [] \<longrightarrow> ae_Patch env (sentNode np n) = None)"
  by (auto simp: prepareNode_def sentNode_def effectiveID_def equalNodes_def setRegistered_def Let_def
      split: if_splits option.splits)

text \<open>Every state the body of the loop can leave.\<close>

definition quietly :: "('q, 'r) adoptSt \<Rightarrow> ('q, 'r) adoptSt \<Rightarrow> bool" where
  "quietly st st' \<longleftrightarrow> as_created st' = as_created st \<and> as_claimed st' = as_claimed st"

lemma takeNode_cases:
  assumes "takeNode env np n (lookup (nd_Labels n) skuNameLabel) nc st = st'"
  obtains (kept) "quietly st st'" "as_types st' = as_types st" "as_errs st' \<noteq> []"
  | (taken) "as_types st' = as_types st" "as_claimed st' = insert (effectiveID np n) (as_claimed st)"
      "effectiveID np n \<noteq> []" "as_errs st' = as_errs st"
      "nd_ProviderID n = [] \<longrightarrow> ae_Patch env (sentNode np n) = None"
      "as_created st' = as_created st @
         [nc\<lparr>nc_Annotations := (nc_Annotations nc)(AdoptedProviderIDAnnotationKey \<mapsto> effectiveID np n)\<rparr>]"
  using assms
proof (cases "prepareNode env n (np_Name np) (lookup (nd_Labels n) skuNameLabel)")
  case (Pair r ps)
  then show ?thesis
  proof (cases r)
    case (Inl e)
    with assms Pair have "st' = st\<lparr>as_patches := as_patches st @ ps,
        as_errs := as_errs st @ [Wrapf ''prepare node %s: %w'' [nd_Name n] e]\<rparr>"
      by (simp add: takeNode_def)
    then show ?thesis by (intro kept) (simp_all add: quietly_def)
  next
    case (Inr pid)
    with prepareNode_Inr Pair have pid: "pid = effectiveID np n" "pid \<noteq> []"
      "nd_ProviderID n = [] \<longrightarrow> ae_Patch env (sentNode np n) = None" by blast+
    let ?nc = "nc\<lparr>nc_Annotations := (nc_Annotations nc)(AdoptedProviderIDAnnotationKey \<mapsto> pid)\<rparr>"
    show ?thesis
    proof (cases "ae_Create env ?nc")
      case None
      with assms Pair Inr pid show ?thesis
        by (intro taken) (auto simp: takeNode_def Let_def)
    next
      case (Some e)
      with assms Pair Inr show ?thesis
        by (intro kept) (auto simp: takeNode_def Let_def quietly_def)
    qed
  qed
qed

lemma examineType_cases:
  assumes "examineType kp env np ref n (lookup (nd_Labels n) skuNameLabel) st = st'"
    and "ae_InstanceTypes env np = Inr (as_types st)"
    and "nd_DeletionTimestamp n = None" "\<not> isControlPlane n" "isReady env n"
    and "lookup (nd_Labels n) skuNameLabel \<noteq> []"
    and "nd_ProviderID n = [] \<or> hasPrefix (nd_ProviderID n) ProviderIDPrefix"
    and "\<not> claimedByPendingClaim pend n (lookup (nd_Labels n) skuNameLabel)"
  obtains (kept) "quietly st st'" "as_types st' = as_types st"
      "as_errs st' \<noteq> [] \<or> (\<nexists>it. adoptable kp env np ref pend n it)"
  | (taken) nc where "as_types st' = as_types st" "claimFor kp env np ref pend n nc"
      "as_claimed st' = insert (effectiveID np n) (as_claimed st)" "as_created st' = as_created st @ [nc]"
      "as_errs st' = as_errs st"
proof -
  let ?sku = "lookup (nd_Labels n) skuNameLabel"
  show ?thesis
  proof (cases "find (\<lambda>it. it_Name it = ?sku) (as_types st)")
    case None
    with assms show ?thesis by (intro kept) (auto simp: examineType_def skip_def quietly_def adoptable_def)
  next
    case (Some it)
    let ?nc = "adoptedNodeClaim kp env np ref n ?sku it"
    show ?thesis
    proof (cases "validateAdoptable kp env np it (nc_Labels ?nc)")
      case (Some e)
      with assms \<open>find _ _ = Some it\<close> show ?thesis
        by (intro kept) (auto simp: examineType_def skip_def quietly_def adoptable_def)
    next
      case None
      with assms Some have ad: "adoptable kp env np ref pend n it" by (simp add: adoptable_def)
      from None Some assms(1) have "takeNode env np n ?sku ?nc st = st'" by (simp add: examineType_def)
      then show ?thesis
      proof (cases rule: takeNode_cases)
        case kept
        then show ?thesis by (intro that(1)) auto
      next
        case taken
        have "nc_Annotations ?nc = np_TemplateAnnotations np ++ [adoptedNodeAnnotationKey \<mapsto> nd_Name n]"
          by (simp add: adoptedNodeClaim_def)
        with taken ad show ?thesis by (intro that(2)) (auto simp: claimFor_def)
      qed
    qed
  qed
qed

lemma adoptNode_cases:
  assumes "adoptNode kp env np ref pend n st = (r, st')" and "types_ok env np st"
  obtains (kept) "quietly st st'" "types_ok env np st'"
      "r \<noteq> None \<or> as_errs st' \<noteq> [] \<or> (\<nexists>it. adoptable kp env np ref pend n it) \<or>
       (nd_ProviderID n \<noteq> [] \<and> nd_ProviderID n \<in> as_claimed st)"
  | (taken) nc where "types_ok env np st'" "claimFor kp env np ref pend n nc"
      "nd_ProviderID n \<noteq> [] \<longrightarrow> nd_ProviderID n \<notin> as_claimed st"
      "as_claimed st' = insert (effectiveID np n) (as_claimed st)" "as_created st' = as_created st @ [nc]"
      "as_errs st' = as_errs st"
proof -
  let ?sku = "lookup (nd_Labels n) skuNameLabel"
  let ?free = "nd_DeletionTimestamp n = None \<and> \<not> isControlPlane n \<and> isReady env n \<and> ?sku \<noteq> [] \<and>
    (nd_ProviderID n = [] \<or> hasPrefix (nd_ProviderID n) ProviderIDPrefix) \<and>
    \<not> claimedByPendingClaim pend n ?sku"
  let ?own = "nd_ProviderID n \<noteq> [] \<and> nd_ProviderID n \<in> as_claimed st"
  have examined: thesis if "?free" "\<not> ?own" "types_ok env np st1" "ae_InstanceTypes env np = Inr (as_types st1)"
    "as_claimed st1 = as_claimed st" "as_created st1 = as_created st" "as_errs st1 = as_errs st"
    "examineType kp env np ref n ?sku st1 = st'" for st1
  proof (rule examineType_cases [OF that(8) that(4), of pend])
    show "nd_DeletionTimestamp n = None" "\<not> isControlPlane n" "isReady env n" "?sku \<noteq> []"
      "nd_ProviderID n = [] \<or> hasPrefix (nd_ProviderID n) ProviderIDPrefix"
      "\<not> claimedByPendingClaim pend n ?sku" using that(1) by blast+
    show thesis if "quietly st1 st'" "as_types st' = as_types st1"
      "as_errs st' \<noteq> [] \<or> (\<nexists>it. adoptable kp env np ref pend n it)"
      using that \<open>types_ok env np st1\<close> \<open>as_claimed st1 = _\<close> \<open>as_created st1 = _\<close>
      by (intro kept) (auto simp: quietly_def types_ok_def)
    show thesis if "as_types st' = as_types st1" "claimFor kp env np ref pend n nc"
      "as_claimed st' = insert (effectiveID np n) (as_claimed st1)" "as_created st' = as_created st1 @ [nc]"
      "as_errs st' = as_errs st1" for nc
      using that \<open>types_ok env np st1\<close> \<open>as_claimed st1 = _\<close> \<open>as_created st1 = _\<close> \<open>as_errs st1 = _\<close> \<open>\<not> ?own\<close>
      by (intro taken [of nc]) (auto simp: types_ok_def)
  qed
  show ?thesis
  proof (cases "?free \<and> \<not> ?own")
    case False
    with assms have "quietly st st' \<and> as_types st' = as_types st"
      by (auto simp: adoptNode_def Let_def quietly_def skip_def split: if_splits)
    moreover have "(\<nexists>it. adoptable kp env np ref pend n it) \<or> ?own" using False by (auto simp: adoptable_def)
    ultimately show ?thesis using assms(2) by (intro kept) (auto simp: types_ok_def)
  next
    case True
    show ?thesis
    proof (cases "as_types st = []")
      case False
      with True assms(1) have "examineType kp env np ref n ?sku st = st'"
        by (auto simp: adoptNode_def Let_def)
      with True False assms(2) show ?thesis by (intro examined [of st]) (auto simp: types_ok_def)
    next
      case empty: True
      show ?thesis
      proof (cases "ae_InstanceTypes env np")
        case (Inl e)
        with True empty assms have "r \<noteq> None" "st' = st" by (auto simp: adoptNode_def Let_def)
        with assms(2) show ?thesis by (intro kept) (auto simp: quietly_def)
      next
        case (Inr its)
        with True empty assms(1) have "examineType kp env np ref n ?sku (st\<lparr>as_types := its\<rparr>) = st'"
          by (auto simp: adoptNode_def Let_def)
        with True Inr show ?thesis by (intro examined [of "st\<lparr>as_types := its\<rparr>"]) (auto simp: types_ok_def)
      qed
    qed
  qed
qed

text \<open>The nodes taken in a pass, in order: an own provider ID was free when it was taken.\<close>

fun freshIDs :: "NodePool \<Rightarrow> string set \<Rightarrow> 'q Node list \<Rightarrow> bool" where
  "freshIDs np C [] \<longleftrightarrow> True"
| "freshIDs np C (m # ms) \<longleftrightarrow> (nd_ProviderID m \<noteq> [] \<longrightarrow> nd_ProviderID m \<notin> C) \<and>
     freshIDs np (insert (effectiveID np m) C) ms"

lemma adoptNodes_created:
  assumes "adoptNodes kp env np ref pend ns st = (r, st')" and "types_ok env np st"
  shows "\<exists>ms cs. subseq ms ns \<and> as_created st' = as_created st @ cs \<and>
    list_all2 (claimFor kp env np ref pend) ms cs \<and> freshIDs np (as_claimed st) ms \<and>
    as_claimed st' = as_claimed st \<union> effectiveID np ` set ms"
  using assms
proof (induction ns arbitrary: st)
  case Nil
  then show ?case by (intro exI [of _ "[]"]) simp
next
  case (Cons n ns)
  obtain r1 st1 where n: "adoptNode kp env np ref pend n st = (r1, st1)" by fastforce
  have next_step: "(r1 \<noteq> None \<and> st' = st1) \<or> adoptNodes kp env np ref pend ns st1 = (r, st')"
    using Cons.prems(1) n by (auto split: option.splits)
  from n Cons.prems(2) show ?case
  proof (cases rule: adoptNode_cases)
    case kept
    from next_step show ?thesis
    proof
      assume "r1 \<noteq> None \<and> st' = st1"
      with kept(1) show ?thesis by (intro exI [of _ "[]"]) (simp add: quietly_def)
    next
      assume "adoptNodes kp env np ref pend ns st1 = (r, st')"
      from Cons.IH [OF this kept(2)] kept(1) show ?thesis
        unfolding quietly_def by (metis list_emb_Cons)
    qed
  next
    case (taken nc)
    from next_step show ?thesis
    proof
      assume "r1 \<noteq> None \<and> st' = st1"
      with taken show ?thesis
        by (intro exI [of _ "[n]"] exI [of _ "[nc]"]) (auto simp: subseq_singleton_left)
    next
      assume "adoptNodes kp env np ref pend ns st1 = (r, st')"
      from Cons.IH [OF this taken(1)] obtain ms cs where ms: "subseq ms ns" "as_created st' = as_created st1 @ cs"
        "list_all2 (claimFor kp env np ref pend) ms cs" "freshIDs np (as_claimed st1) ms"
        "as_claimed st' = as_claimed st1 \<union> effectiveID np ` set ms" by blast
      with taken show ?thesis
        by (intro exI [of _ "n # ms"] exI [of _ "nc # cs"]) auto
    qed
  qed
qed

lemma takeNode_errs: "as_errs st \<noteq> [] \<Longrightarrow> as_errs (takeNode env np n sku nc st) \<noteq> []"
  by (simp add: takeNode_def Let_def split: prod.splits sum.splits option.splits)

lemma examineType_errs: "as_errs st \<noteq> [] \<Longrightarrow> as_errs (examineType kp env np ref n sku st) \<noteq> []"
  by (simp add: examineType_def Let_def skip_def takeNode_errs split: option.splits)

lemma adoptNode_errs:
  "adoptNode kp env np ref pend n st = (r, st') \<Longrightarrow> as_errs st \<noteq> [] \<Longrightarrow> as_errs st' \<noteq> []"
  by (auto simp: adoptNode_def Let_def skip_def examineType_errs split: if_splits sum.splits)

lemma adoptNodes_errs:
  "adoptNodes kp env np ref pend ns st = (r, st') \<Longrightarrow> as_errs st \<noteq> [] \<Longrightarrow> as_errs st' \<noteq> []"
proof (induction ns arbitrary: st)
  case Nil
  then show ?case by simp
next
  case (Cons n ns)
  obtain r1 st1 where n: "adoptNode kp env np ref pend n st = (r1, st1)" by fastforce
  from adoptNode_errs [OF n] Cons.prems(2) have "as_errs st1 \<noteq> []" by simp
  with Cons.prems(1) Cons.IH [of st1] show ?case by (auto simp: n split: option.splits)
qed

lemma adoptNodes_complete:
  assumes "adoptNodes kp env np ref pend ns st = (None, st')" and "types_ok env np st" and "as_errs st' = []"
    and "n \<in> set ns" and "adoptable kp env np ref pend n it"
  shows "effectiveID np n \<in> as_claimed st'"
  using assms(1,2,4)
proof (induction ns arbitrary: st)
  case Nil
  then show ?case by simp
next
  case (Cons m ns)
  obtain st1 where m: "adoptNode kp env np ref pend m st = (None, st1)"
    and rest: "adoptNodes kp env np ref pend ns st1 = (None, st')"
    using Cons.prems(1) by (auto split: prod.splits option.splits)
  from adoptNodes_errs [OF rest] assms(3) have errs: "as_errs st1 = []" by blast
  have grow: "as_claimed st1 \<subseteq> as_claimed st'" if "types_ok env np st1"
    using adoptNodes_created [OF rest that] by blast
  from m Cons.prems(2) show ?case
  proof (cases rule: adoptNode_cases)
    case kept
    show ?thesis
    proof (cases "n = m")
      case True
      with kept(3) errs assms(5) have "nd_ProviderID n \<noteq> []" "nd_ProviderID n \<in> as_claimed st" by blast+
      with kept(1) grow [OF kept(2)] show ?thesis by (auto simp: effectiveID_def quietly_def)
    next
      case False
      with Cons.prems(3) Cons.IH [OF rest kept(2)] show ?thesis by simp
    qed
  next
    case (taken nc)
    show ?thesis
    proof (cases "n = m")
      case True
      with taken(4) grow [OF taken(1)] show ?thesis by auto
    next
      case False
      with Cons.prems(3) Cons.IH [OF rest taken(1)] show ?thesis by simp
    qed
  qed
qed

lemma freshIDs_distinct:
  assumes "freshIDs np C ms" and "distinct ms" and "\<forall>m \<in> set ms. nd_ProviderID m = [] \<longrightarrow> effectiveID np m \<notin> C"
    and "\<forall>m \<in> set ms. \<forall>n \<in> set ms. nd_ProviderID m = [] \<longrightarrow> effectiveID np n = effectiveID np m \<longrightarrow> n = m"
  shows "distinct (map (effectiveID np) ms) \<and> effectiveID np ` set ms \<inter> C = {}"
  using assms
proof (induction ms arbitrary: C)
  case Nil
  then show ?case by simp
next
  case (Cons m ms)
  have m: "effectiveID np m \<notin> C" using Cons.prems(1,3) by (auto simp: effectiveID_def)
  have "distinct (map (effectiveID np) ms) \<and> effectiveID np ` set ms \<inter> insert (effectiveID np m) C = {}"
  proof (rule Cons.IH)
    show "\<forall>n \<in> set ms. nd_ProviderID n = [] \<longrightarrow> effectiveID np n \<notin> insert (effectiveID np m) C"
      using Cons.prems(2-4) by (metis distinct.simps(2) insert_iff list.set_intros)
  qed (use Cons.prems in simp_all)
  with m show ?case by auto
qed

lemma Reconcile_adoption_runs:
  assumes "Reconcile_adoption kp env k np = (r, st)" and "as_created st \<noteq> [] \<or> r = RequeueAfter resyncInterval"
  obtains ref nodes claims e where "k_cachedNodes k = Inr nodes" "k_claims k = Inr claims"
    "np_NodeClassRef np = Some ref"
    "adoptNodes kp env np ref (poolPending (np_Name np) claims)
       (matchingLabel nodepoolNameLabel (np_Name np) nodes) (adoptStart claims) = (e, st)"
    "r = RequeueAfter resyncInterval \<longrightarrow> e = None \<and> as_errs st = []"
    "ref_Group ref = GroupName" "ref_Kind ref = ''RafayNodeClass''" "np_DeletionTimestamp np = None"
    "lookup (np_Annotations np) autoScalingAnnotationKey \<noteq> ''false''"
  using assms
  by (auto simp: Reconcile_adoption_def adoptStart_def split: if_splits option.splits sum.splits prod.splits)

end
