(* ===== verification/Node_Config.thy ===== *)
theory Node_Config
  imports Broker_Client Kube_Model Go_Strconv
begin

text \<open>
  The bootstrap of node classes and node pools from the broker,
  \<^verbatim>\<open>pkg/controllers/nodeconfig/controller.go\<close>: decoding manifests, one sync, and the loop with
  its retry delay. The YAML decoder is a parameter: the documents it yields. The answer of the API
  server to an apply is a parameter, too; a sync returns the objects it sent, in order.
\<close>

definition managedByLabel :: string where "managedByLabel = ''karpenter.rafay.io/managed-by''"
definition managedByValue :: string where "managedByValue = ''edge-broker''"
definition revisionAnnotation :: string where "revisionAnnotation = ''karpenter.rafay.io/config-revision''"
definition defaultSyncInterval :: int where "defaultSyncInterval = 10 * 60 * second"
definition initialRetryDelay :: int where "initialRetryDelay = 5 * second"
definition maxRetryDelay :: int where "maxRetryDelay = 2 * 60 * second"

record 'o manifest =
  mf_Kind :: string
  mf_APIVersion :: string
  mf_Name :: string
  mf_Labels :: labels
  mf_Annotations :: labels
  mf_Body :: 'o

record KarpenterConfigResponse =
  kc_ClusterName :: string
  kc_AutoScaling :: bool
  kc_Revision :: string
  kc_NodeClassYaml :: string
  kc_NodePoolYaml :: string
  kc_Warnings :: "string list"

record nodeConfig =
  ct_clusterID :: string
  ct_projectID :: string
  ct_syncInterval :: int
  ct_lastRevision :: string

definition NewController_nodeconfig :: "string \<Rightarrow> string \<Rightarrow> int \<Rightarrow> nodeConfig" where
  "NewController_nodeconfig clusterID projectID syncInterval =
     \<lparr>ct_clusterID = clusterID, ct_projectID = projectID,
      ct_syncInterval = (if syncInterval \<le> 0 then defaultSyncInterval else syncInterval), ct_lastRevision = []\<rparr>"

definition SyncIntervalFromEnv :: "string \<Rightarrow> int" where
  "SyncIntervalFromEnv env =
     (let raw = trimSpace env in
      if raw = [] then defaultSyncInterval
      else (case ParseDuration raw of
              Inl _ \<Rightarrow> defaultSyncInterval
            | Inr d \<Rightarrow> if d \<le> 0 then defaultSyncInterval else d))"

definition EnabledFromEnv_nodeconfig :: "string \<Rightarrow> bool" where
  "EnabledFromEnv_nodeconfig env =
     (let raw = trimSpace env in
      if raw = [] then True else (case ParseBool raw of Inl _ \<Rightarrow> True | Inr enabled \<Rightarrow> enabled))"

section \<open>Manifests\<close>

text \<open>What one call of the decoder yields; the end of the input is the end of the list.\<close>

datatype 'o document = EmptyDoc | BadDoc gerror | Doc "'o manifest"

fun decodeDocs :: "'o document list \<Rightarrow> 'o manifest list \<Rightarrow> 'o manifest list result" where
  "decodeDocs [] out = Inr out"
| "decodeDocs (BadDoc e # ds) out = Inl e"
| "decodeDocs (EmptyDoc # ds) out = decodeDocs ds out"
| "decodeDocs (Doc obj # ds) out =
     (if mf_Kind obj = [] \<or> mf_APIVersion obj = []
      then Inl (Errorf ''manifest document is missing apiVersion or kind'' [])
      else if mf_Name obj = [] then Inl (Errorf ''%s manifest is missing metadata.name'' [mf_Kind obj])
      else decodeDocs ds (out @ [obj]))"

definition decodeManifests :: "(string \<Rightarrow> 'o document list) \<Rightarrow> string \<Rightarrow> 'o manifest list result" where
  "decodeManifests yaml manifest = (if trimSpace manifest = [] then Inr [] else decodeDocs (yaml manifest) [])"

section \<open>One sync\<close>

text \<open>The object as \<^verbatim>\<open>apply\<close> sends it.\<close>

definition marked :: "string \<Rightarrow> 'o manifest \<Rightarrow> 'o manifest" where
  "marked revision obj =
     (let o1 = obj\<lparr>mf_Labels := (mf_Labels obj)(managedByLabel \<mapsto> managedByValue)\<rparr> in
      if revision \<noteq> [] then o1\<lparr>mf_Annotations := (mf_Annotations o1)(revisionAnnotation \<mapsto> revision)\<rparr> else o1)"

definition apply_manifest ::
  "('o manifest \<Rightarrow> gerror option) \<Rightarrow> 'o manifest \<Rightarrow> string \<Rightarrow> gerror option \<times> 'o manifest" where
  "apply_manifest patch obj revision = (let o' = marked revision obj in (patch o', o'))"

fun applyAll ::
  "('o manifest \<Rightarrow> gerror option) \<Rightarrow> string \<Rightarrow> 'o manifest list \<Rightarrow> gerror option \<times> 'o manifest list" where
  "applyAll patch revision [] = (None, [])"
| "applyAll patch revision (obj # objs) =
     (case apply_manifest patch obj revision of
        (Some e, o') \<Rightarrow> (Some (Wrapf ''apply %s %q: %w'' [mf_Kind obj, mf_Name obj] e), [o'])
      | (None, o') \<Rightarrow> (case applyAll patch revision objs of (r, sent) \<Rightarrow> (r, o' # sent)))"

text \<open>The response is absent when the broker sent none.\<close>

definition sync ::
  "(string \<Rightarrow> 'o document list) \<Rightarrow> ('o manifest \<Rightarrow> gerror option) \<Rightarrow> KarpenterConfigResponse option result \<Rightarrow>
   nodeConfig \<Rightarrow> gerror option \<times> nodeConfig \<times> 'o manifest list" where
  "sync yaml patch fetched c =
     (case fetched of
        Inl e \<Rightarrow>
          (if grpcStatus e = Some NotFoundCode then (None, c, [])
           else (Some (Wrapf ''fetch config from edge-broker: %w'' [] e), c, []))
      | Inr None \<Rightarrow> (Some (Errorf ''edge-broker returned an empty config response'' []), c, [])
      | Inr (Some resp) \<Rightarrow>
          (if \<not> kc_AutoScaling resp then (None, c, [])
           else
             (let revision = trimSpace (kc_Revision resp) in
              if revision \<noteq> [] \<and> revision = ct_lastRevision c then (None, c, [])
              else (case wrapError ''decode RafayNodeClass manifests: %w'' [] (decodeManifests yaml (kc_NodeClassYaml resp)) of
                      Inl e \<Rightarrow> (Some e, c, [])
                    | Inr classes \<Rightarrow>
                        (case wrapError ''decode NodePool manifests: %w'' [] (decodeManifests yaml (kc_NodePoolYaml resp)) of
                           Inl e \<Rightarrow> (Some e, c, [])
                         | Inr pools \<Rightarrow>
                             (if classes = [] \<and> pools = [] then (None, c, [])
                              else (case applyAll patch revision (classes @ pools) of
                                      (Some e, sent) \<Rightarrow> (Some e, c, sent)
                                    | (None, sent) \<Rightarrow> (None, c\<lparr>ct_lastRevision := revision\<rparr>, sent))))))))"

text \<open>The names \<^verbatim>\<open>logOrphans\<close> reports: managed objects that are not among the applied ones.\<close>

definition orphans :: "'o manifest list result \<Rightarrow> 'o manifest list \<Rightarrow> string list" where
  "orphans listing applied =
     (case listing of
        Inl e \<Rightarrow> []
      | Inr objs \<Rightarrow> filter (\<lambda>n. n \<notin> mf_Name ` set applied)
          (map mf_Name (filter (\<lambda>o'. mf_Labels o' managedByLabel = Some managedByValue) objs)))"

section \<open>The loop\<close>

text \<open>
  One round as the environment makes it: whether the sync failed, whether the context was done after a
  failed sync, whether it ended during the wait. The result lists the waits; the flag tells whether
  \<^verbatim>\<open>Start\<close> returned within the rounds given.
\<close>

record round =
  rd_failed :: bool
  rd_cancelled :: bool
  rd_doneWaiting :: bool

fun Start_loop :: "int \<Rightarrow> int \<Rightarrow> round list \<Rightarrow> int list \<times> bool" where
  "Start_loop interval delay [] = ([], False)"
| "Start_loop interval delay (r # rs) =
     (if rd_failed r then
        (if rd_cancelled r then ([], True)
         else if rd_doneWaiting r then ([delay], True)
         else
           (let delay' = (if maxRetryDelay < delay * 2 then maxRetryDelay else delay * 2);
                (waits, returned) = Start_loop interval delay' rs
            in (delay # waits, returned)))
      else if rd_doneWaiting r then ([interval], True)
      else
        (let (waits, returned) = Start_loop interval initialRetryDelay rs in (interval # waits, returned)))"

definition Start_nodeconfig :: "nodeConfig \<Rightarrow> round list \<Rightarrow> int list \<times> bool" where
  "Start_nodeconfig c rs = Start_loop (ct_syncInterval c) initialRetryDelay rs"

section \<open>Lemmas\<close>

fun docManifests :: "'o document list \<Rightarrow> 'o manifest list" where
  "docManifests [] = []"
| "docManifests (Doc m # ds) = m # docManifests ds"
| "docManifests (_ # ds) = docManifests ds"

definition wellNamed :: "'o manifest \<Rightarrow> bool" where
  "wellNamed m \<longleftrightarrow> mf_Kind m \<noteq> [] \<and> mf_APIVersion m \<noteq> [] \<and> mf_Name m \<noteq> []"

lemma decodeDocs_ok:
  "decodeDocs ds out = Inr objs \<Longrightarrow> objs = out @ docManifests ds \<and> list_all wellNamed (docManifests ds)"
proof (induction ds out rule: decodeDocs.induct)
  case (4 obj ds out)
  then show ?case by (simp add: wellNamed_def split: if_splits)
qed simp_all

lemma applyAll_None:
  "applyAll patch revision objs = (None, sent) \<Longrightarrow>
   sent = map (marked revision) objs \<and> (\<forall>o' \<in> set sent. patch o' = None)"
  by (induction objs arbitrary: sent)
    (auto simp: apply_manifest_def Let_def split: prod.splits option.splits)

lemma applyAll_Some:
  "applyAll patch revision objs = (Some e, sent) \<Longrightarrow>
   \<exists>n < length objs. sent = map (marked revision) (take (Suc n) objs) \<and> patch (marked revision (objs ! n)) \<noteq> None"
proof (induction objs arbitrary: sent)
  case (Cons obj objs)
  show ?case
  proof (cases "patch (marked revision obj)")
    case (Some e')
    with Cons.prems have "sent = [marked revision obj]" by (simp add: apply_manifest_def Let_def)
    with Some show ?thesis by (intro exI [of _ 0]) simp
  next
    case None
    obtain r' sent' where rec: "applyAll patch revision objs = (r', sent')" by fastforce
    with Cons.prems None have s: "sent = marked revision obj # sent'" "r' = Some e"
      by (simp_all add: apply_manifest_def Let_def)
    from Cons.IH [of sent'] rec s(2) obtain n where "n < length objs"
      "sent' = map (marked revision) (take (Suc n) objs)" "patch (marked revision (objs ! n)) \<noteq> None" by blast
    with s(1) show ?thesis by (intro exI [of _ "Suc n"]) simp
  qed
qed simp

section \<open>Properties\<close>

text \<open>What a sync sets out to apply: the classes of the response, then its pools.\<close>

definition wantedObjects ::
  "(string \<Rightarrow> 'o document list) \<Rightarrow> KarpenterConfigResponse \<Rightarrow> 'o manifest list result" where
  "wantedObjects yaml resp =
     andThen (decodeManifests yaml (kc_NodeClassYaml resp)) (\<lambda>classes.
     andThen (decodeManifests yaml (kc_NodePoolYaml resp)) (\<lambda>pools. Inr (classes @ pools)))"

text \<open>
  C37: One sync applies the whole configuration or says that it did not: it sends only objects of the
  response, marked as managed, in order and node classes before pools; nothing is sent when the broker
  has no configuration, when autoscaling is off, when a manifest does not decode or when the revision
  is the last one applied; without an error either nothing was sent and the revision stays, or
  everything was sent and accepted and the revision is recorded; with an error the recorded revision
  stays, so the next sync starts over.
\<close>
theorem sync_all_or_retry:
  assumes "sync yaml patch fetched c = (r, c', sent)"
  shows "(sent \<noteq> [] \<longrightarrow> (\<exists>resp objs n. fetched = Inr (Some resp) \<and> kc_AutoScaling resp \<and>
            \<not> (trimSpace (kc_Revision resp) \<noteq> [] \<and> trimSpace (kc_Revision resp) = ct_lastRevision c) \<and>
            wantedObjects yaml resp = Inr objs \<and>
            sent = map (marked (trimSpace (kc_Revision resp))) (take n objs) \<and>
            (r = None \<longrightarrow> n = length objs \<and> (\<forall>o' \<in> set sent. patch o' = None) \<and>
               c' = c\<lparr>ct_lastRevision := trimSpace (kc_Revision resp)\<rparr>) \<and>
            (r \<noteq> None \<longrightarrow> c' = c))) \<and>
         (sent = [] \<longrightarrow> c' = c)"
proof (cases fetched)
  case (Inl e)
  with assms show ?thesis by (auto simp: sync_def split: if_splits)
next
  case (Inr o')
  show ?thesis
  proof (cases o')
    case None
    with assms Inr show ?thesis by (auto simp: sync_def)
  next
    case (Some resp)
    let ?rev = "trimSpace (kc_Revision resp)"
    let ?quiet = "\<not> kc_AutoScaling resp \<or> (?rev \<noteq> [] \<and> ?rev = ct_lastRevision c)"
    show ?thesis
    proof (cases "?quiet \<or> (\<exists>e. wantedObjects yaml resp = Inl e) \<or> wantedObjects yaml resp = Inr []")
      case True
      with assms Inr Some have "sent = [] \<and> c' = c"
        by (auto simp: sync_def wantedObjects_def andThen_def wrapError_def Let_def split: if_splits sum.splits)
      then show ?thesis by simp
    next
      case False
      then obtain objs where objs: "wantedObjects yaml resp = Inr objs" "objs \<noteq> []" and q: "\<not> ?quiet"
        by (cases "wantedObjects yaml resp") auto
      from objs obtain classes pools where dec: "decodeManifests yaml (kc_NodeClassYaml resp) = Inr classes"
        "decodeManifests yaml (kc_NodePoolYaml resp) = Inr pools" "objs = classes @ pools"
        by (auto simp: wantedObjects_def andThen_def split: sum.splits)
      obtain ar asent where run: "applyAll patch ?rev objs = (ar, asent)" by fastforce
      have "sync yaml patch fetched c = (case ar of Some e \<Rightarrow> (Some e, c, asent)
          | None \<Rightarrow> (None, c\<lparr>ct_lastRevision := ?rev\<rparr>, asent))"
        using Inr Some dec objs q run
        by (auto simp: sync_def wrapError_def Let_def split: option.splits)
      with assms have res: "(r, c', sent) = (case ar of Some e \<Rightarrow> (Some e, c, asent)
          | None \<Rightarrow> (None, c\<lparr>ct_lastRevision := ?rev\<rparr>, asent))" by simp
      show ?thesis
      proof (cases ar)
        case None
        from applyAll_None [of patch ?rev objs asent] run None
        have a: "asent = map (marked ?rev) objs" "\<forall>o' \<in> set asent. patch o' = None" by blast+
        have "sent = asent" "r = None" "c' = c\<lparr>ct_lastRevision := ?rev\<rparr>" using res None by simp_all
        with a objs q Inr Some show ?thesis
          by (intro conjI impI exI [of _ resp] exI [of _ objs] exI [of _ "length objs"]) auto
      next
        case e: (Some e)
        from applyAll_Some [of patch ?rev objs e asent] run e obtain n where
          a: "n < length objs" "asent = map (marked ?rev) (take (Suc n) objs)" by blast
        have "sent = asent" "r = Some e" "c' = c" using res e by simp_all
        with a objs q Inr Some show ?thesis
          by (intro conjI impI exI [of _ resp] exI [of _ objs] exI [of _ "Suc n"]) auto
      qed
    qed
  qed
qed

definition aResponse :: "string \<Rightarrow> KarpenterConfigResponse" where
  "aResponse revision = \<lparr>kc_ClusterName = ''c1'', kc_AutoScaling = True, kc_Revision = revision,
     kc_NodeClassYaml = ''cls'', kc_NodePoolYaml = ''pool'', kc_Warnings = []\<rparr>"

definition aManifest :: "string \<Rightarrow> string \<Rightarrow> unit manifest" where
  "aManifest kind name = \<lparr>mf_Kind = kind, mf_APIVersion = ''v1'', mf_Name = name,
     mf_Labels = Map.empty, mf_Annotations = Map.empty, mf_Body = ()\<rparr>"

definition aYaml :: "string \<Rightarrow> unit document list" where
  "aYaml s = (if s = ''cls'' then [EmptyDoc, Doc (aManifest ''RafayNodeClass'' ''cls'')]
     else if s = ''pool'' then [Doc (aManifest ''NodePool'' ''p1'')] else [])"

definition aConfig :: nodeConfig where
  "aConfig = NewController_nodeconfig ''c'' ''p'' 0"

lemma trim_words: "trimSpace ''cls'' = ''cls''" "trimSpace ''pool'' = ''pool''" "trimSpace ''r1'' = ''r1''"
  by (code_simp)+

lemma aSync:
  "sync aYaml (\<lambda>_. None) (Inr (Some (aResponse ''r1''))) aConfig =
     (None, aConfig\<lparr>ct_lastRevision := ''r1''\<rparr>,
      [marked ''r1'' (aManifest ''RafayNodeClass'' ''cls''), marked ''r1'' (aManifest ''NodePool'' ''p1'')])"
  by (simp add: sync_def aResponse_def trim_words decodeManifests_def aYaml_def aManifest_def Let_def
    aConfig_def NewController_nodeconfig_def apply_manifest_def)

theorem sync_all_or_retry_witness:
  "\<exists>objs. wantedObjects aYaml (aResponse ''r1'') = Inr objs \<and>
     snd (snd (sync aYaml (\<lambda>_. None) (Inr (Some (aResponse ''r1''))) aConfig)) = map (marked ''r1'') objs"
proof -
  have rev: "trimSpace (kc_Revision (aResponse ''r1'')) = ''r1''" by (simp add: aResponse_def trim_words)
  from conjunct1 [OF sync_all_or_retry [OF aSync]] obtain resp objs where
    "aResponse ''r1'' = resp" "wantedObjects aYaml resp = Inr objs"
    "[marked ''r1'' (aManifest ''RafayNodeClass'' ''cls''), marked ''r1'' (aManifest ''NodePool'' ''p1'')] =
      map (marked (trimSpace (kc_Revision resp))) objs" by auto
  then show ?thesis unfolding aSync using rev by auto
qed

text \<open>
  The sync is idempotent: after a sync that applied a revision, the same answer of the broker
  leads to no write, however the API server and the decoder would answer, until the revision changes.
\<close>
theorem sync_idempotent:
  assumes "sync yaml patch (Inr (Some resp)) c = (None, c', sent)" and "sent \<noteq> []"
    and "trimSpace (kc_Revision resp) \<noteq> []"
    and "trimSpace (kc_Revision resp') = trimSpace (kc_Revision resp)"
  shows "sync yaml' patch' (Inr (Some resp')) c' = (None, c', [])"
proof -
  from sync_all_or_retry [OF assms(1)] assms(2) have "ct_lastRevision c' = trimSpace (kc_Revision resp)" by auto
  with assms(3,4) show ?thesis by (simp add: sync_def Let_def)
qed

theorem sync_idempotent_witness:
  "sync aYaml (\<lambda>_. Some ContextDone) (Inr (Some (aResponse ''r1''))) (aConfig\<lparr>ct_lastRevision := ''r1''\<rparr>) =
     (None, aConfig\<lparr>ct_lastRevision := ''r1''\<rparr>, [])"
  by (rule sync_idempotent [OF aSync]) (simp_all add: aResponse_def trim_words)

section \<open>The retry delay\<close>

definition backoff :: "nat \<Rightarrow> int" where
  "backoff k = min (initialRetryDelay * 2 ^ k) maxRetryDelay"

text \<open>The failures in a row just before a round.\<close>

definition failuresBefore :: "round list \<Rightarrow> nat \<Rightarrow> nat" where
  "failuresBefore rs i = length (takeWhile rd_failed (rev (take i rs)))"

fun streak :: "nat \<Rightarrow> round list \<Rightarrow> nat \<Rightarrow> nat" where
  "streak k rs 0 = k"
| "streak k [] (Suc i) = 0"
| "streak k (r # rs) (Suc i) = streak (if rd_failed r then Suc k else 0) rs i"

lemma backoff_0: "backoff 0 = initialRetryDelay"
  by (simp add: backoff_def initialRetryDelay_def maxRetryDelay_def second_def)

lemma backoff_Suc: "(if maxRetryDelay < backoff k * 2 then maxRetryDelay else backoff k * 2) = backoff (Suc k)"
proof -
  have "0 < maxRetryDelay" by (simp add: maxRetryDelay_def second_def)
  then show ?thesis by (simp add: backoff_def min_def)
qed

lemma streak_Suc: "i < length rs \<Longrightarrow> streak k rs (Suc i) = (if rd_failed (rs ! i) then Suc (streak k rs i) else 0)"
proof (induction rs arbitrary: k i)
  case (Cons r rs)
  then show ?case by (cases i) simp_all
qed simp

lemma streak_failures: "i \<le> length rs \<Longrightarrow> streak 0 rs i = failuresBefore rs i"
proof (induction i)
  case 0
  then show ?case by (simp add: failuresBefore_def)
next
  case (Suc i)
  then have "failuresBefore rs (Suc i) = (if rd_failed (rs ! i) then Suc (failuresBefore rs i) else 0)"
    by (simp add: failuresBefore_def take_Suc_conv_app_nth)
  with Suc show ?case by (simp add: streak_Suc)
qed

definition ends :: "round \<Rightarrow> bool" where
  "ends r \<longleftrightarrow> rd_doneWaiting r \<or> (rd_failed r \<and> rd_cancelled r)"

lemma Start_loop_waits:
  "Start_loop interval (backoff k) rs = (waits, returned) \<Longrightarrow>
   (returned \<longleftrightarrow> (\<exists>r \<in> set rs. ends r)) \<and> length waits \<le> length rs \<and>
   (\<forall>i < length waits. waits ! i = (if rd_failed (rs ! i) then backoff (streak k rs i) else interval))"
proof (induction rs arbitrary: k waits returned)
  case Nil
  then show ?case by simp
next
  case (Cons r rs)
  let ?k = "if rd_failed r then Suc k else 0"
  obtain w b where rec: "Start_loop interval (backoff ?k) rs = (w, b)" by fastforce
  note ih = Cons.IH [OF rec]
  show ?case
  proof (cases "ends r")
    case True
    with Cons.prems show ?thesis by (auto simp: ends_def Let_def split: if_splits prod.splits)
  next
    case False
    with Cons.prems rec have "waits = (if rd_failed r then backoff k else interval) # w" "returned = b"
      by (auto simp: ends_def backoff_Suc backoff_0 Let_def split: if_splits)
    with ih False show ?thesis by (auto simp: nth_Cons split: nat.splits)
  qed
qed

text \<open>
  The loop never gives up and never hammers the broker: in any run of \<open>Start\<close> the wait after a
  round is the sync interval when the sync succeeded, and after \<open>k\<close> failures in a row before a failed
  one it is five seconds doubled \<open>k\<close> times, at most two minutes; the delay starts over after a
  success; and \<open>Start\<close> returns only when its context ends.
\<close>
theorem retry_backoff:
  assumes "Start_nodeconfig c rs = (waits, returned)"
  shows "(returned \<longleftrightarrow> (\<exists>r \<in> set rs. rd_doneWaiting r \<or> (rd_failed r \<and> rd_cancelled r))) \<and>
    (\<forall>i < length waits. waits ! i =
       (if rd_failed (rs ! i) then min (initialRetryDelay * 2 ^ failuresBefore rs i) maxRetryDelay
        else ct_syncInterval c))"
proof -
  from assms have "Start_loop (ct_syncInterval c) (backoff 0) rs = (waits, returned)"
    by (simp add: Start_nodeconfig_def backoff_0)
  from Start_loop_waits [OF this] show ?thesis
    by (auto simp: ends_def streak_failures backoff_def)
qed

theorem retry_backoff_witness:
  "fst (Start_nodeconfig aConfig [\<lparr>rd_failed = True, rd_cancelled = False, rd_doneWaiting = False\<rparr>,
      \<lparr>rd_failed = True, rd_cancelled = False, rd_doneWaiting = True\<rparr>]) = [5 * second, 10 * second] \<and>
   snd (Start_nodeconfig aConfig [\<lparr>rd_failed = True, rd_cancelled = False, rd_doneWaiting = False\<rparr>,
      \<lparr>rd_failed = True, rd_cancelled = False, rd_doneWaiting = True\<rparr>])"
proof -
  let ?rs = "[\<lparr>rd_failed = True, rd_cancelled = False, rd_doneWaiting = False\<rparr>,
      \<lparr>rd_failed = True, rd_cancelled = False, rd_doneWaiting = True\<rparr>]"
  obtain w b where s: "Start_nodeconfig aConfig ?rs = (w, b)" by fastforce
  from retry_backoff [OF s] have "b" by simp
  moreover from s have "w = [5 * second, 10 * second]"
    by (auto simp: Start_nodeconfig_def Let_def initialRetryDelay_def maxRetryDelay_def second_def)
  ultimately show ?thesis by (simp add: s)
qed

text \<open>
  The sync interval is positive whatever the environment holds: an unset, malformed, zero or
  negative \<^verbatim>\<open>KARPENTER_CONFIG_SYNC_INTERVAL\<close> gives ten minutes, and a controller built with any
  interval waits a positive time between syncs.
\<close>
theorem sync_interval_positive:
  "0 < SyncIntervalFromEnv env \<and> 0 < ct_syncInterval (NewController_nodeconfig clusterID projectID d)"
  by (auto simp: SyncIntervalFromEnv_def NewController_nodeconfig_def defaultSyncInterval_def second_def
    Let_def split: sum.splits)

end
