(* ===== verification/Main_Config.thy ===== *)
theory Main_Config
  imports Node_Adoption Node_Config
begin

text \<open>
  The start of the program, \<^verbatim>\<open>cmd/controller/main.go\<close>, up to the objects it builds: the settings
  read from the environment, the checks that end the process, and the list of controllers; and
  \<^verbatim>\<open>pkg/broker/credentials.go\<close>, the names taken from the client certificate. Reading and parsing
  certificate files is a parameter, and so is the fresh session id.
\<close>

section \<open>Certificates\<close>

record subject =
  sj_Organization :: "string list"
  sj_OrganizationalUnit :: "string list"

text \<open>
  \<open>ce_Cert\<close> reads and parses a certificate file; the other two load the key pair and the certificates
  of the authority into TLS credentials.
\<close>

record 'c certEnv =
  ce_Cert :: "string \<Rightarrow> subject result"
  ce_KeyPair :: "string \<Rightarrow> string \<Rightarrow> unit result"
  ce_NewTLS :: "string \<Rightarrow> string \<Rightarrow> string \<Rightarrow> string \<Rightarrow> 'c result"

definition getServerHostFromCert :: "'c certEnv \<Rightarrow> string \<Rightarrow> string result" where
  "getServerHostFromCert ce certPath =
     andThen (ce_Cert ce certPath) (\<lambda>cert.
       (case sj_OrganizationalUnit cert of
          ou # _ \<Rightarrow> Inr ou
        | [] \<Rightarrow> Inl (Errorf ''invalid cert: no OU for server host'' [])))"

definition LoadCredentials :: "'c certEnv \<Rightarrow> string \<Rightarrow> string \<Rightarrow> string \<Rightarrow> ('c \<times> string) result" where
  "LoadCredentials ce certPath keyPath caPath =
     andThen (wrapError ''unable to load cert/key: %w'' [] (ce_KeyPair ce certPath keyPath)) (\<lambda>_.
     andThen (getServerHostFromCert ce certPath) (\<lambda>serverHost.
     andThen (ce_NewTLS ce serverHost certPath keyPath caPath) (\<lambda>creds. Inr (creds, serverHost))))"

definition EdgeHashIDFromOrganization :: "string \<Rightarrow> string" where
  "EdgeHashIDFromOrganization org0 =
     (let org = trimSpace org0 in if org = [] then [] else takeWhile (\<lambda>c. c \<noteq> CHR ''.'') org)"

definition GetEdgeIDFromClientCert :: "'c certEnv \<Rightarrow> string \<Rightarrow> string result" where
  "GetEdgeIDFromClientCert ce certPath =
     andThen (wrapError ''read client cert: %w'' [] (ce_Cert ce certPath)) (\<lambda>cert.
       (case sj_Organization cert of
          [] \<Rightarrow> Inl (Errorf ''certificate %s has no Subject Organization (O); edge-broker requires O=<edge-id> (same as edge-client TLS)'' [certPath])
        | o0 # _ \<Rightarrow>
            (let org = trimSpace o0 in
             if org = [] then Inl (Errorf ''certificate %s has empty Subject Organization (O)'' [certPath])
             else
               (let hash = EdgeHashIDFromOrganization org in
                if hash = [] then Inl (Errorf ''certificate %s: Subject O %q yields empty edge id (first DNS label)'' [certPath, org])
                else Inr hash))))"

section \<open>Settings\<close>

type_synonym environ = "string \<rightharpoonup> string"

definition defaultEdgeClientServerPort :: int where "defaultEdgeClientServerPort = 5448"

definition Getenv :: "environ \<Rightarrow> string \<Rightarrow> string" where
  "Getenv env name = lookup env name"

definition envPortOrDefault :: "environ \<Rightarrow> string \<Rightarrow> int \<Rightarrow> int" where
  "envPortOrDefault env name def =
     (let p = trimSpace (Getenv env name) in
      if p = [] then def else (case Atoi p of Inl _ \<Rightarrow> def | Inr v \<Rightarrow> v))"

definition brokerPort :: "environ \<Rightarrow> bool \<Rightarrow> int" where
  "brokerPort env grpcInsecure =
     (if grpcInsecure then envPortOrDefault env ''EDGE_BROKER_GRPC_PORT'' 0
      else if trimSpace (Getenv env ''SERVER_PORT'') \<noteq> []
      then envPortOrDefault env ''SERVER_PORT'' defaultEdgeClientServerPort
      else if trimSpace (Getenv env ''EDGE_CLIENT_SERVER_PORT'') \<noteq> []
      then envPortOrDefault env ''EDGE_CLIENT_SERVER_PORT'' defaultEdgeClientServerPort
      else defaultEdgeClientServerPort)"

text \<open>The edge id of a client with TLS: the certificate's, or \<^verbatim>\<open>EDGE_ID\<close> in its normal form.\<close>

definition chooseEdgeID :: "'c certEnv \<Rightarrow> string \<Rightarrow> string \<Rightarrow> string result" where
  "chooseEdgeID ce certPath edgeID =
     andThen (GetEdgeIDFromClientCert ce certPath) (\<lambda>certHash.
       (if edgeID = [] then Inr certHash
        else (let envHash = EdgeHashIDFromOrganization edgeID in
              if envHash = [] then Inr certHash else Inr envHash)))"

definition isInsecure :: "environ \<Rightarrow> bool" where
  "isInsecure env =
     (case env ''EDGE_BROKER_GRPC_INSECURE'' of None \<Rightarrow> False | Some v \<Rightarrow> EqualFold (trimSpace v) ''true'')"

definition certFolderOf :: "environ \<Rightarrow> string" where
  "certFolderOf env =
     (let f = trimSpace (Getenv env ''CERT_FOLDER'') in
      if f = [] then trimSpace (Getenv env ''EDGE_CLIENT_CERT_FOLDER'') else f)"

datatype controllerName = RafayNodeClassCtrl | NodeProviderIDCtrl | HeadroomCtrl | NodeAdoptionCtrl
  | NodeConfigCtrl | BatchResumeCtrl

record settings =
  se_clusterID :: string
  se_projectID :: string
  se_client :: BrokerClient
  se_batcher :: NodeBatcher
  se_provider :: CloudProvider
  se_headroomNamespace :: string
  se_headroomConfigNamespace :: string
  se_nodeconfig :: "nodeConfig option"
  se_controllers :: "controllerName list"

definition withPath :: "string \<Rightarrow> string \<Rightarrow> string" where
  "withPath folder file = (if folder \<noteq> [] then folder @ ''/'' @ file else [])"

text \<open>The function of \<^verbatim>\<open>NewBatchFailureHandler\<close>, as the batcher knows it.\<close>

definition batchFailureHandler :: nat where "batchFailureHandler = 0"

text \<open>The broker client, or the error with which \<^verbatim>\<open>klog.Exitf\<close> ends the process.\<close>

definition main_client :: "'c certEnv \<Rightarrow> string \<Rightarrow> environ \<Rightarrow> BrokerClient result" where
  "main_client ce session env =
     (let certFolder = certFolderOf env; grpcInsecure = isInsecure env;
          dialHost = trimSpace (Getenv env ''EDGE_BROKER_GRPC_HOST'') in
      if (\<not> grpcInsecure \<or> dialHost = []) \<and> certFolder = []
      then Inl (Errorf ''set CERT_FOLDER or EDGE_CLIENT_CERT_FOLDER (same TLS material as edge-client), or set EDGE_BROKER_GRPC_INSECURE=true with EDGE_BROKER_GRPC_HOST'' [])
      else
        (let certPath = withPath certFolder ''client.crt''; keyPath = withPath certFolder ''client.key'';
             caPath = withPath certFolder ''ca.crt''; port = brokerPort env grpcInsecure;
             edgeID0 = trimSpace (Getenv env ''EDGE_ID''); streamID0 = trimSpace (Getenv env ''STREAM_ID'');
             streamID = (if streamID0 = [] then session else streamID0) in
         andThen (if \<not> grpcInsecure \<and> certPath \<noteq> []
                  then wrapError ''edge-broker reads client id from TLS cert Subject Organization (O): %v'' []
                         (chooseEdgeID ce certPath edgeID0)
                  else Inr edgeID0) (\<lambda>edgeID.
           Inr (NewBrokerClient certPath keyPath caPath port edgeID streamID dialHost grpcInsecure))))"

definition orDefault :: "string \<Rightarrow> string \<Rightarrow> string" where
  "orDefault v def = (if v = [] then def else v)"

definition main :: "'c certEnv \<Rightarrow> string \<Rightarrow> environ \<Rightarrow> settings result" where
  "main ce session env =
     andThen (main_client ce session env) (\<lambda>client.
       (let clusterID = Getenv env ''RAFAY_CLUSTER_ID''; projectID = Getenv env ''RAFAY_PROJECT_ID'';
            headroomNamespace = orDefault (trimSpace (Getenv env ''HEADROOM_NAMESPACE'')) ''karpenter'';
            adopt = EnabledFromEnv (Getenv env ''KARPENTER_ADOPT_EXISTING_NODES'');
            bootstrap = EnabledFromEnv_nodeconfig (Getenv env ''KARPENTER_CONFIG_BOOTSTRAP'')
        in Inr
          \<lparr>se_clusterID = clusterID, se_projectID = projectID, se_client = client,
           se_batcher = SetFailureHandler (Some batchFailureHandler) NewNodeBatcher,
           se_provider = NewCloudProvider clusterID projectID,
           se_headroomNamespace = headroomNamespace,
           se_headroomConfigNamespace = orDefault (trimSpace (Getenv env ''HEADROOM_CONFIG_NAMESPACE'')) headroomNamespace,
           se_nodeconfig = (if bootstrap then Some (NewController_nodeconfig clusterID projectID
             (SyncIntervalFromEnv (Getenv env ''KARPENTER_CONFIG_SYNC_INTERVAL''))) else None),
           se_controllers = [RafayNodeClassCtrl, NodeProviderIDCtrl, HeadroomCtrl] @
             (if adopt then [NodeAdoptionCtrl] else []) @ (if bootstrap then [NodeConfigCtrl] else []) @
             [BatchResumeCtrl]\<rparr>))"

section \<open>Properties\<close>

lemma EdgeHash_no_dot: "CHR ''.'' \<notin> set (EdgeHashIDFromOrganization org)"
  by (auto simp: EdgeHashIDFromOrganization_def Let_def dest: set_takeWhileD)

lemma GetEdgeID_ok:
  assumes "GetEdgeIDFromClientCert ce p = Inr h"
  shows "h \<noteq> [] \<and> CHR ''.'' \<notin> set h"
proof -
  from assms obtain cert where "ce_Cert ce p = Inr cert"
    by (auto simp: GetEdgeIDFromClientCert_def andThen_Inr wrapError_Inr)
  with assms show ?thesis using EdgeHash_no_dot
    by (cases "sj_Organization cert") (auto simp: GetEdgeIDFromClientCert_def Let_def split: if_splits)
qed

lemma chooseEdgeID_ok: "chooseEdgeID ce p e = Inr h \<Longrightarrow> h \<noteq> [] \<and> CHR ''.'' \<notin> set h"
  using GetEdgeID_ok EdgeHash_no_dot
  by (auto simp: chooseEdgeID_def andThen_Inr Let_def split: if_splits)

text \<open>
  The program starts only with a usable way to the broker: whenever \<open>main\<close> gets past its checks,
  the client either dials without TLS to a named host, or has the three certificate files; with TLS it
  always has them, and its edge id is a non-empty label without a dot, so a certificate without an
  organisation ends the process; TLS is given up only for an explicit
  \<^verbatim>\<open>EDGE_BROKER_GRPC_INSECURE\<close> of true, in any case; the namespaces are never empty; and with
  unset or malformed ports the client dials 5448 with TLS and 5449 without.
\<close>
theorem startup_safe:
  assumes "main ce session env = Inr s"
  shows "(bc_GRPCInsecure (se_client s) \<longrightarrow>
            (\<exists>v. env ''EDGE_BROKER_GRPC_INSECURE'' = Some v \<and> map lowerASCII (trimSpace v) = ''true'')) \<and>
         (bc_CertPath (se_client s) = [] \<longrightarrow> bc_GRPCInsecure (se_client s) \<and> bc_DialHost (se_client s) \<noteq> []) \<and>
         (\<not> bc_GRPCInsecure (se_client s) \<longrightarrow>
            bc_EdgeID (se_client s) \<noteq> [] \<and> CHR ''.'' \<notin> set (bc_EdgeID (se_client s)) \<and>
            (\<exists>folder. folder \<noteq> [] \<and> bc_CertPath (se_client s) = folder @ ''/client.crt'' \<and>
               bc_KeyPath (se_client s) = folder @ ''/client.key'' \<and> bc_CAPath (se_client s) = folder @ ''/ca.crt'')) \<and>
         se_headroomNamespace s \<noteq> [] \<and> se_headroomConfigNamespace s \<noteq> [] \<and>
         ((\<forall>name \<in> {''SERVER_PORT'', ''EDGE_CLIENT_SERVER_PORT'', ''EDGE_BROKER_GRPC_PORT''}.
             \<exists>e. Atoi (trimSpace (Getenv env name)) = Inl e) \<longrightarrow>
          dialPort (se_client s) = (if bc_GRPCInsecure (se_client s) then 5449 else 5448))"
proof -
  from assms obtain c where c: "main_client ce session env = Inr c" "se_client s = c"
    "se_headroomNamespace s \<noteq> []" "se_headroomConfigNamespace s \<noteq> []"
    by (auto simp: main_def andThen_Inr Let_def orDefault_def)
  have folder: "certFolderOf env \<noteq> [] \<or> (isInsecure env \<and> trimSpace (Getenv env ''EDGE_BROKER_GRPC_HOST'') \<noteq> [])"
    using c(1) by (auto simp: main_client_def Let_def split: if_splits)
  have sel: "bc_GRPCInsecure c = isInsecure env" "bc_CertPath c = withPath (certFolderOf env) ''client.crt''"
    "bc_KeyPath c = withPath (certFolderOf env) ''client.key''" "bc_CAPath c = withPath (certFolderOf env) ''ca.crt''"
    "bc_DialHost c = trimSpace (Getenv env ''EDGE_BROKER_GRPC_HOST'')"
    "bc_BrokerPort c = brokerPort env (isInsecure env)"
    using c(1) by (auto simp: main_client_def andThen_Inr NewBrokerClient_def Let_def split: if_splits)
  have edge: "bc_EdgeID c \<noteq> [] \<and> CHR ''.'' \<notin> set (bc_EdgeID c)" if "\<not> isInsecure env"
  proof -
    from that folder have "withPath (certFolderOf env) ''client.crt'' \<noteq> []" by (simp add: withPath_def)
    with c(1) that obtain e where "chooseEdgeID ce (withPath (certFolderOf env) ''client.crt'')
        (trimSpace (Getenv env ''EDGE_ID'')) = Inr e" "bc_EdgeID c = e"
      by (auto simp: main_client_def andThen_Inr wrapError_Inr NewBrokerClient_def Let_def split: if_splits)
    with chooseEdgeID_ok show ?thesis by blast
  qed
  have ins: "isInsecure env \<Longrightarrow> \<exists>v. env ''EDGE_BROKER_GRPC_INSECURE'' = Some v \<and> map lowerASCII (trimSpace v) = ''true''"
    by (auto simp: isInsecure_def EqualFold_def split: option.splits)
  have port: "dialPort c = (if isInsecure env then 5449 else 5448)"
    if "\<forall>name \<in> {''SERVER_PORT'', ''EDGE_CLIENT_SERVER_PORT'', ''EDGE_BROKER_GRPC_PORT''}.
      \<exists>e. Atoi (trimSpace (Getenv env name)) = Inl e"
    using that by (auto simp: dialPort_def sel brokerPort_def envPortOrDefault_def Let_def
      defaultEdgeClientServerPort_def defaultEdgeBrokerRPCPort_def defaultEdgeClientTLSPort_def)
  show ?thesis unfolding c(2) using folder edge ins c(3,4) port
    by (auto simp: withPath_def sel)
qed

definition plainEnv :: environ where
  "plainEnv = [''EDGE_BROKER_GRPC_INSECURE'' \<mapsto> ''True'', ''EDGE_BROKER_GRPC_HOST'' \<mapsto> ''h'']"

definition noCerts :: "unit certEnv" where
  "noCerts = \<lparr>ce_Cert = (\<lambda>_. Inl ContextDone), ce_KeyPair = (\<lambda>_ _. Inl ContextDone), ce_NewTLS = (\<lambda>_ _ _ _. Inl ContextDone)\<rparr>"

lemma plain_words: "trimSpace ''True'' = ''True''" "trimSpace ''h'' = ''h''" "EqualFold ''True'' ''true''"
  by (code_simp)+

theorem startup_safe_witness:
  "\<exists>s. main noCerts ''id'' plainEnv = Inr s \<and> bc_GRPCInsecure (se_client s) \<and> dialPort (se_client s) = 5449"
proof -
  have none: "Getenv plainEnv name = []" if "name \<notin> {''EDGE_BROKER_GRPC_INSECURE'', ''EDGE_BROKER_GRPC_HOST''}" for name
    using that by (simp add: Getenv_def plainEnv_def lookup_def)
  have host: "trimSpace (Getenv plainEnv ''EDGE_BROKER_GRPC_HOST'') = ''h''" "isInsecure plainEnv"
    by (simp_all add: Getenv_def plainEnv_def plain_words isInsecure_def)
  then obtain s where s: "main noCerts ''id'' plainEnv = Inr s"
    by (simp add: main_def main_client_def Let_def)
  moreover have "bc_GRPCInsecure (se_client s)" using s host
    by (auto simp: main_def main_client_def Let_def NewBrokerClient_def)
  moreover have "Atoi [] = Inl (Errorf ''strconv.Atoi: parsing %q: invalid syntax'' [[]])"
    by (simp add: Atoi_def splitSign_def)
  then have "\<forall>name \<in> {''SERVER_PORT'', ''EDGE_CLIENT_SERVER_PORT'', ''EDGE_BROKER_GRPC_PORT''}.
      \<exists>e. Atoi (trimSpace (Getenv plainEnv name)) = Inl e" by (auto simp: none)
  with startup_safe [OF s] have "dialPort (se_client s) = (if bc_GRPCInsecure (se_client s) then 5449 else 5448)"
    by blast
  ultimately show ?thesis by auto
qed

text \<open>The comment of \<^verbatim>\<open>envPortOrDefault\<close> speaks of a port number; no range is checked.\<close>

theorem port_out_of_range_kept:
  "envPortOrDefault [''SERVER_PORT'' \<mapsto> ''70000''] ''SERVER_PORT'' defaultEdgeClientServerPort = 70000"
proof -
  have "trimSpace ''70000'' = ''70000''" by code_simp
  then show ?thesis by (simp add: envPortOrDefault_def Getenv_def Atoi_def splitSign_def isDigit_def decimal_def digitVal_def)
qed

end
