(* ===== verification/Broker_Conn.thy ===== *)
theory Broker_Conn
  imports Main_Config
begin

text \<open>
  How the program dials the broker: \<^verbatim>\<open>pkg/broker/conn.go\<close>, the wrappers of
  \<^verbatim>\<open>pkg/broker/credentials.go\<close>, and the client \<^verbatim>\<open>main\<close> builds, put together.
  \<^verbatim>\<open>grpc.NewClient\<close> and the loading of TLS material are parameters.
\<close>

section \<open>The session\<close>

text \<open>\<^verbatim>\<open>pkg/broker/sessionid.go\<close>, over the UUID library.\<close>

definition NewSessionID :: "('w \<Rightarrow> string \<times> 'w) \<Rightarrow> 'w \<Rightarrow> string \<times> 'w" where
  "NewSessionID newUUID w = newUUID w"

section \<open>Numbers in decimal\<close>

text \<open>The verb \<^verbatim>\<open>%d\<close>.\<close>

definition digitChar :: "nat \<Rightarrow> char" where
  "digitChar d = char_of (48 + int d)"

fun natDigits :: "nat \<Rightarrow> string" where
  "natDigits n = (if n < 10 then [digitChar n] else natDigits (n div 10) @ [digitChar (n mod 10)])"

declare natDigits.simps [simp del]

definition formatInt :: "int \<Rightarrow> string" where
  "formatInt i = (if i < 0 then ''-'' @ natDigits (nat (- i)) else natDigits (nat i))"

lemma digitChar_facts:
  assumes "d < 10"
  shows "digitVal (digitChar d) = int d" and "isDigit (digitChar d)" and "digitChar d \<noteq> CHR '':''"
    and "digitChar d \<noteq> CHR ''-''" and "digitChar d \<noteq> CHR ''+''"
proof -
  have o: "of_char (digitChar d) = (48 + int d :: int)" using assms by (simp add: digitChar_def)
  show "digitVal (digitChar d) = int d" "isDigit (digitChar d)"
    using assms by (simp_all add: digitVal_def isDigit_def o)
  show "digitChar d \<noteq> CHR '':''" "digitChar d \<noteq> CHR ''-''" "digitChar d \<noteq> CHR ''+''"
    using o assms by (auto dest: arg_cong [of _ _ "of_char :: char \<Rightarrow> int"])
qed

lemma decimal_snoc: "decimal (s @ [c]) = decimal s * 10 + digitVal c"
  by (simp add: decimal_def)

lemma natDigits_facts:
  "decimal (natDigits n) = int n \<and> list_all isDigit (natDigits n) \<and> natDigits n \<noteq> [] \<and>
   CHR '':'' \<notin> set (natDigits n) \<and> hd (natDigits n) \<noteq> CHR ''-'' \<and> hd (natDigits n) \<noteq> CHR ''+''"
proof (induction n rule: natDigits.induct)
  case (1 n)
  show ?case
  proof (cases "n < 10")
    case True
    then show ?thesis using digitChar_facts [OF True]
      by (subst (1 2 3 4 5 6) natDigits.simps) (simp add: decimal_def)
  next
    case False
    let ?h = "natDigits (n div 10)" and ?c = "digitChar (n mod 10)"
    have m: "n mod 10 < 10" by simp
    note c = digitChar_facts [OF m] and IH = "1.IH" [OF False]
    have d: "natDigits n = ?h @ [?c]" using False by (subst natDigits.simps) simp
    have "decimal (natDigits n) = int (n div 10) * 10 + int (n mod 10)"
      using IH c(1) by (simp add: d decimal_snoc)
    also have "\<dots> = int n" by presburger
    finally show ?thesis using IH c by (simp add: d)
  qed
qed

lemma splitSign_digits: "s \<noteq> [] \<Longrightarrow> hd s \<noteq> CHR ''-'' \<Longrightarrow> hd s \<noteq> CHR ''+'' \<Longrightarrow> splitSign s = (False, s)"
  by (cases s) (simp_all add: splitSign_def)

lemma Atoi_formatInt:
  assumes "- (2 ^ 63) \<le> i" and "i \<le> 2 ^ 63 - 1"
  shows "Atoi (formatInt i) = Inr i"
proof (cases "i < 0")
  case True
  with assms natDigits_facts [of "nat (- i)"] show ?thesis
    by (simp add: formatInt_def Atoi_def splitSign_def)
next
  case False
  with assms natDigits_facts [of "nat i"] show ?thesis
    by (simp add: formatInt_def Atoi_def splitSign_digits)
qed

section \<open>The dial options\<close>

definition maxMessageSize :: int where
  "maxMessageSize = 20 * 1024 * 1024"

text \<open>Without credentials the connection is plaintext.\<close>

record 'c dialOptions =
  do_Credentials :: "'c option"
  do_KeepaliveTime :: int
  do_KeepaliveTimeout :: int
  do_PermitWithoutStream :: bool
  do_MaxCallRecvMsgSize :: int
  do_MaxCallSendMsgSize :: int

type_synonym ('c, 'w) newClient = "string \<Rightarrow> 'c dialOptions \<Rightarrow> 'w \<Rightarrow> conn result \<times> 'w"

definition dialTarget :: "string \<Rightarrow> int \<Rightarrow> string" where
  "dialTarget host port = host @ '':'' @ formatInt port"

definition NewInsecureGrpcClientConn :: "('c, 'w) newClient \<Rightarrow> string \<Rightarrow> int \<Rightarrow> 'w \<Rightarrow> conn result \<times> 'w" where
  "NewInsecureGrpcClientConn newClient host port =
     (let addr = dialTarget host port in
      newClient addr
        \<lparr>do_Credentials = None, do_KeepaliveTime = 5 * 60 * second, do_KeepaliveTimeout = 30 * second,
         do_PermitWithoutStream = False, do_MaxCallRecvMsgSize = maxMessageSize,
         do_MaxCallSendMsgSize = maxMessageSize\<rparr>)"

definition Dial :: "('c, 'w) newClient \<Rightarrow> string \<Rightarrow> int \<Rightarrow> 'c \<Rightarrow> 'w \<Rightarrow> conn result \<times> 'w" where
  "Dial newClient host port creds =
     (let addr = dialTarget host port in
      newClient addr
        \<lparr>do_Credentials = Some creds, do_KeepaliveTime = 5 * 60 * second, do_KeepaliveTimeout = 30 * second,
         do_PermitWithoutStream = False, do_MaxCallRecvMsgSize = maxMessageSize,
         do_MaxCallSendMsgSize = maxMessageSize\<rparr>)"

definition NewSecureGrpcClientConn :: "('c, 'w) newClient \<Rightarrow> string \<Rightarrow> int \<Rightarrow> 'c \<Rightarrow> 'w \<Rightarrow> conn result \<times> 'w" where
  "NewSecureGrpcClientConn newClient host port creds = Dial newClient host port creds"

definition GetEdgeClientCredentials :: "'c certEnv \<Rightarrow> string \<Rightarrow> string \<Rightarrow> string \<Rightarrow> ('c \<times> string) result" where
  "GetEdgeClientCredentials ce certPath keyPath caPath = LoadCredentials ce certPath keyPath caPath"

definition GetServerHostFromCert :: "'c certEnv \<Rightarrow> string \<Rightarrow> string result" where
  "GetServerHostFromCert ce certPath = getServerHostFromCert ce certPath"

text \<open>The functions \<^verbatim>\<open>dialBroker\<close> calls, as this package defines them.\<close>

definition brokerPackage :: "nat certEnv \<Rightarrow> (nat, 'w) newClient \<Rightarrow> 'w grpcEnv \<Rightarrow> 'w grpcEnv" where
  "brokerPackage ce newClient env = env
     \<lparr>ge_dialInsecure := NewInsecureGrpcClientConn newClient,
      ge_dialSecure := NewSecureGrpcClientConn newClient,
      ge_serverHost := GetServerHostFromCert ce,
      ge_credentials := GetEdgeClientCredentials ce\<rparr>"

section \<open>Properties\<close>

text \<open>
  The target names the host and the port: for a host without a colon they can be read back.
  An IPv6 literal is not put into brackets, so its target reads as a longer address.
\<close>
theorem dial_target_roundtrip:
  assumes "CHR '':'' \<notin> set host" and "- (2 ^ 63) \<le> port" and "port \<le> 2 ^ 63 - 1"
  shows "\<exists>p. cut (dialTarget host port) (CHR '':'') = (host, Some p) \<and> Atoi p = Inr port"
  using cut_append [OF assms(1), of "formatInt port"] Atoi_formatInt [OF assms(2,3)]
  by (simp add: dialTarget_def)

theorem dial_target_roundtrip_witness:
  "\<exists>p. cut (dialTarget ''h'' 5448) (CHR '':'') = (''h'', Some p) \<and> Atoi p = Inr 5448"
  using dial_target_roundtrip [of "''h''" 5448] by simp

lemma IPv6_not_bracketed: "dialTarget ''::1'' 5448 = ''::1:5448''"
  by (simp add: dialTarget_def formatInt_def natDigits.simps digitChar_def) (code_simp)


text \<open>A process without certificates that dials a plaintext broker; the world counts the dials.\<close>

definition noTLS :: "nat certEnv" where
  "noTLS = \<lparr>ce_Cert = (\<lambda>_. Inl ContextDone), ce_KeyPair = (\<lambda>_ _. Inl ContextDone), ce_NewTLS = (\<lambda>_ _ _ _. Inl ContextDone)\<rparr>"


end
