(* ===== verification/Node_Class.thy ===== *)
theory Node_Class
  imports Cloud_Provider
begin

text \<open>
  The readiness controller of RafayNodeClass, \<^verbatim>\<open>pkg/controllers/rafaynodeclass/controller.go\<close>,
  and its agreement with the instance-type conversion of the cloud provider. A message is its
  format with its arguments; the index of an entry and the parser's own text are left out of them.
\<close>

type_synonym message = "string \<times> string list"

fun validateTypes :: "'q quantityOps \<Rightarrow> InstanceTypeSpec list \<Rightarrow> message option" where
  "validateTypes qo [] = None"
| "validateTypes qo (it # its) =
     (if its_Name it = [] then Some (''spec.instanceTypes[%d] has an empty name'', [])
      else if isl (qo_Parse qo (its_CPU it))
      then Some (''instance type %q has invalid cpu %q: %v'', [its_Name it, its_CPU it])
      else if isl (qo_Parse qo (its_Memory it))
      then Some (''instance type %q has invalid memory %q: %v'', [its_Name it, its_Memory it])
      else if its_GPU it \<noteq> [] \<and> isl (qo_Parse qo (its_GPU it))
      then Some (''instance type %q has invalid nvidia.com/gpu %q: %v'', [its_Name it, its_GPU it])
      else validateTypes qo its)"

definition validateNodeClass :: "'q quantityOps \<Rightarrow> RafayNodeClass \<Rightarrow> message option" where
  "validateNodeClass qo nc =
     (if rnc_InstanceTypes nc = [] then Some (''spec.instanceTypes must contain at least one entry'', [])
      else validateTypes qo (rnc_InstanceTypes nc))"

text \<open>
  The condition sets of operatorpkg: setting Ready reports whether the condition changed. The reason
  of a true condition is the condition's name.
\<close>

definition setReady :: "bool \<Rightarrow> string \<Rightarrow> string \<Rightarrow> RafayNodeClass \<Rightarrow> bool \<times> RafayNodeClass" where
  "setReady st reason msg nc =
     (rnc_Ready nc \<noteq> Some (st, reason, msg), nc\<lparr>rnc_Ready := Some (st, reason, msg)\<rparr>)"

text \<open>
  \<^verbatim>\<open>Reconcile\<close>: the object as patched, if a patch was made, and the result of the patch. The text
  of a message is a function of the message, \<open>render\<close>.
\<close>

definition Reconcile_nodeclass ::
  "'q quantityOps \<Rightarrow> (message \<Rightarrow> string) \<Rightarrow> gerror option \<Rightarrow> RafayNodeClass \<Rightarrow> unit result \<times> RafayNodeClass option" where
  "Reconcile_nodeclass qo render patchErr nc =
     (if rnc_DeletionTimestamp nc \<noteq> None then (Inr (), None)
      else
        (let (changed, nc') = (case validateNodeClass qo nc of
                Some msg \<Rightarrow> setReady False ''ValidationFailed'' (render msg) nc
              | None \<Rightarrow> setReady True ''Ready'' [] nc)
         in if \<not> changed then (Inr (), None)
            else (case patchErr of Some e \<Rightarrow> (Inl e, None) | None \<Rightarrow> (Inr (), Some nc'))))"

lemma instanceTypeOf_Inr_iff:
  "(\<exists>it. instanceTypeOf kp qo s = Inr it) \<longleftrightarrow>
     \<not> isl (qo_Parse qo (its_CPU s)) \<and> \<not> isl (qo_Parse qo (its_Memory s)) \<and>
     (its_GPU s = [] \<or> \<not> isl (qo_Parse qo (its_GPU s)))"
  by (cases "qo_Parse qo (its_CPU s)"; cases "qo_Parse qo (its_Memory s)"; cases "qo_Parse qo (its_GPU s)")
    (simp_all add: instanceTypeOf_def capacityOf_def Let_def)

lemma convert_Inr_iff:
  "(\<exists>its. rafayInstanceTypesToKarpenter kp qo ss = Inr its) \<longleftrightarrow> (\<forall>s \<in> set ss. \<exists>it. instanceTypeOf kp qo s = Inr it)"
proof (induction ss)
  case (Cons s ss)
  show ?case
    by (cases "instanceTypeOf kp qo s"; cases "rafayInstanceTypesToKarpenter kp qo ss")
      (use Cons.IH in auto)
qed simp

lemma validateTypes_None:
  "validateTypes qo ss = None \<longleftrightarrow> (\<forall>s \<in> set ss. its_Name s \<noteq> [] \<and> \<not> isl (qo_Parse qo (its_CPU s)) \<and>
     \<not> isl (qo_Parse qo (its_Memory s)) \<and> (its_GPU s = [] \<or> \<not> isl (qo_Parse qo (its_GPU s))))"
  by (induction ss) auto

lemma convert_names:
  "rafayInstanceTypesToKarpenter kp qo ss = Inr its \<Longrightarrow>
   map it_Name its = map its_Name ss \<and> (\<forall>it \<in> set its. \<exists>off. it_Offerings it = [off] \<and>
     of_Requirements off = it_Requirements it \<and> of_Available off)"
  by (induction ss arbitrary: its)
    (auto simp: andThen_Inr instanceTypeOf_def Let_def)

text \<open>
  C35: Readiness and provisioning agree: a NodeClass passes validation exactly when its entries all
  have names and the cloud provider can convert them, so a NodeClass reported Ready never fails a
  provisioning attempt for its quantities; and the conversion keeps the entries' names and order,
  one available offering each.
\<close>
theorem ready_iff_convertible:
  "(validateNodeClass qo nc = None \<longleftrightarrow>
      (\<forall>s \<in> set (rnc_InstanceTypes nc). its_Name s \<noteq> []) \<and> (\<exists>its. getInstanceTypes kp qo nc = Inr its)) \<and>
   (\<forall>its. getInstanceTypes kp qo nc = Inr its \<longrightarrow>
      map it_Name its = map its_Name (rnc_InstanceTypes nc) \<and>
      (\<forall>it \<in> set its. \<exists>off. it_Offerings it = [off] \<and> of_Requirements off = it_Requirements it \<and> of_Available off))"
proof (cases "rnc_InstanceTypes nc = []")
  case True
  then show ?thesis by (simp add: validateNodeClass_def getInstanceTypes_def)
next
  case False
  have "validateNodeClass qo nc = None \<longleftrightarrow>
      (\<forall>s \<in> set (rnc_InstanceTypes nc). its_Name s \<noteq> [] \<and> (\<exists>it. instanceTypeOf kp qo s = Inr it))"
    using False by (simp add: validateNodeClass_def validateTypes_None instanceTypeOf_Inr_iff)
  with False convert_Inr_iff [of kp qo "rnc_InstanceTypes nc"] convert_names [of kp qo "rnc_InstanceTypes nc"]
  show ?thesis by (simp add: getInstanceTypes_def) blast
qed

definition trivialOps :: "unit quantityOps" where
  "trivialOps = \<lparr>qo_Parse = (\<lambda>s. if s = [] then Inl (ExternalError s) else Inr ()), qo_Zero = (),
     qo_Sign = (\<lambda>_. 0), qo_IsZero = (\<lambda>_. True), qo_Cmp = (\<lambda>_ _. 0), qo_Value = (\<lambda>_. 0),
     qo_MilliValue = (\<lambda>_. 0), qo_Float = (\<lambda>_. Fin 1), qo_String = (\<lambda>_. [])\<rparr>"

definition aSpec :: "string \<Rightarrow> InstanceTypeSpec" where
  "aSpec name = \<lparr>its_Name = name, its_CPU = ''4'', its_Memory = ''8Gi'', its_GPU = [], its_Zone = [],
     its_Architectures = [], its_OperatingSystems = []\<rparr>"

definition aClass :: RafayNodeClass where
  "aClass = \<lparr>rnc_Name = ''cls'', rnc_InstanceTypes = [aSpec ''small''], rnc_DeletionTimestamp = None,
     rnc_Ready = None\<rparr>"

text \<open>
  A small scheduling package to evaluate examples: a requirement set is its list of In requirements,
  two sets are compatible when no key they share has disjoint values, and everything fits.
\<close>

type_synonym inReqs = "(string \<times> string list) list"

definition overlap :: "inReqs \<Rightarrow> inReqs \<Rightarrow> bool" where
  "overlap a b \<longleftrightarrow> (\<forall>(k, vs) \<in> set a. \<forall>(j, ws) \<in> set b. k = j \<longrightarrow> set vs \<inter> set ws \<noteq> {})"

definition listKarpenter :: "('q, inReqs) karpenter" where
  "listKarpenter = \<lparr>kp_NewRequirements = (\<lambda>xs. xs), kp_Add = (\<lambda>r x. r @ [x]),
     kp_Values = map (\<lambda>(k, vs). (k, True, vs)),
     kp_FromSelector = map (\<lambda>r. (rq_Key r, rq_Values r)), kp_FromLabels = (\<lambda>m. []),
     kp_CompatibleAllowUndefined = overlap,
     kp_Compatible = (\<lambda>a b. if overlap a b then None else Some (ExternalError [])),
     kp_Fits = (\<lambda>_ _. True), kp_Allocatable = (\<lambda>c. c), kp_CapacityType = (\<lambda>_. CapacityTypeOnDemand)\<rparr>"

theorem ready_iff_convertible_witness:
  "validateNodeClass trivialOps aClass = None \<and> (\<exists>its. getInstanceTypes listKarpenter trivialOps aClass = Inr its)"
proof -
  have "validateNodeClass trivialOps aClass = None"
    by (simp add: validateNodeClass_def aClass_def aSpec_def trivialOps_def)
  with ready_iff_convertible [of trivialOps aClass listKarpenter] show ?thesis by simp
qed

text \<open>
  The readiness controller converges and is quiet afterwards: reconciling what a successful
  reconcile left, or what needed none, makes no patch; the Ready condition is then true exactly for a
  valid NodeClass; and a NodeClass being deleted is never patched.
\<close>
theorem readiness_converges:
  assumes "Reconcile_nodeclass qo render None nc = (r, p)"
  shows "r = Inr () \<and>
    (let nc' = (case p of None \<Rightarrow> nc | Some nc' \<Rightarrow> nc') in
     Reconcile_nodeclass qo render None nc' = (Inr (), None) \<and>
     (if rnc_DeletionTimestamp nc \<noteq> None then p = None
      else (\<exists>reason msg. rnc_Ready nc' = Some (validateNodeClass qo nc = None, reason, msg))))"
proof -
  have v: "validateNodeClass qo (nc\<lparr>rnc_Ready := x\<rparr>) = validateNodeClass qo nc" for x
    by (simp add: validateNodeClass_def)
  show ?thesis
    using assms v by (auto simp: Reconcile_nodeclass_def setReady_def Let_def split: option.splits if_splits)
qed

theorem readiness_converges_witness:
  "map_option rnc_Ready (snd (Reconcile_nodeclass trivialOps fst None aClass)) = Some (Some (True, ''Ready'', []))"
proof -
  have v: "validateNodeClass trivialOps aClass = None"
    by (simp add: validateNodeClass_def aClass_def aSpec_def trivialOps_def)
  obtain r p where rp: "Reconcile_nodeclass trivialOps fst None aClass = (r, p)" by fastforce
  from readiness_converges [OF rp] have "r = Inr ()" by simp
  with rp v show ?thesis by (auto simp: Reconcile_nodeclass_def setReady_def aClass_def)
qed

end
