(* ===== verification/Cloud_Properties.thy ===== *)
theory Cloud_Properties
  imports Node_Class Batcher_Exec
begin

text \<open>
  What \<^verbatim>\<open>Create\<close>, \<^verbatim>\<open>Delete\<close>, \<^verbatim>\<open>List\<close> and the failure handler guarantee, alone and together
  with the batcher.
\<close>

section \<open>The cheapest compatible instance type\<close>

lemma insertStable_set: "set (insertStable lt x xs) = insert x (set xs)"
  by (induction xs) auto

lemma sliceStable_set: "set (sliceStable lt xs) = set xs"
  by (induction xs) (auto simp: insertStable_set)

text \<open>The head of a stable sort: nothing is smaller, and everything before it is greater.\<close>

lemma hd_insertStable: "hd (insertStable lt x (y # ys)) = (if lt y x then y else x)"
  by simp

definition first_least :: "('a \<Rightarrow> 'a \<Rightarrow> bool) \<Rightarrow> 'a list \<Rightarrow> 'a \<Rightarrow> bool" where
  "first_least lt xs m \<longleftrightarrow> (\<exists>pre post. xs = pre @ m # post \<and> (\<forall>x \<in> set xs. \<not> lt x m) \<and> (\<forall>x \<in> set pre. lt m x))"

lemma sliceStable_head:
  assumes trans: "\<And>a b c. lt a b \<Longrightarrow> lt b c \<Longrightarrow> lt a c" and irr: "\<And>a. \<not> lt a a"
    and ntrans: "\<And>a b c. a \<in> S \<Longrightarrow> b \<in> S \<Longrightarrow> c \<in> S \<Longrightarrow> \<not> lt a b \<Longrightarrow> \<not> lt b c \<Longrightarrow> \<not> lt a c"
  shows "set xs \<subseteq> S \<Longrightarrow> sliceStable lt xs = m # ms \<Longrightarrow> first_least lt xs m"
proof (induction xs arbitrary: m ms)
  case (Cons x xs)
  show ?case
  proof (cases "sliceStable lt xs")
    case Nil
    then have "xs = []" by (metis sliceStable_set set_empty)
    with Cons.prems irr show ?thesis by (auto simp: first_least_def intro!: exI [of _ "[]"])
  next
    case (Cons y ys)
    have IH: "first_least lt xs y" using Cons.IH [OF _ Cons] Cons.prems(1) by simp
    then obtain pre post where y: "xs = pre @ y # post" "\<forall>z \<in> set xs. \<not> lt z y" "\<forall>z \<in> set pre. lt y z"
      by (auto simp: first_least_def)
    show ?thesis
    proof (cases "lt y x")
      case True
      with Cons.prems(2) Cons have m: "m = y" by simp
      have "x # xs = (x # pre) @ y # post" using y by simp
      moreover have "\<forall>z \<in> set (x # xs). \<not> lt z y" using y(2) True trans [of y x y] irr by auto
      moreover have "\<forall>z \<in> set (x # pre). lt y z" using y True by auto
      ultimately show ?thesis unfolding first_least_def m by blast
    next
      case False
      with Cons.prems(2) Cons have m: "m = x" by simp
      have "\<not> lt z x" if "z \<in> set xs" for z
        using ntrans [of z y x] that y False Cons.prems(1) by auto
      then have "\<forall>z \<in> set (x # xs). \<not> lt z x" using irr by auto
      then show ?thesis unfolding first_least_def m by (intro exI [of _ "[]"] exI [of _ xs]) simp
    qed
  qed
qed simp

text \<open>
  C15: \<open>Create\<close> provisions the smallest fit: the instance type it selects is one of the NodeClass's,
  compatible with the claim's requirements and large enough for its requests; no compatible one has a
  lower price, and among the equally cheap it is the first of the NodeClass. It reports insufficient
  capacity only when none is compatible.
\<close>
theorem create_selects_cheapest:
  assumes "resolveNodeClassFromNodeClaim k nc = Inr cls" and "getInstanceTypes kp qo cls = Inr its"
    and prices: "\<forall>it \<in> set its. cheapestOffering it \<noteq> NaN"
  shows "case selectInstanceType kp qo k nc of
      Inr sel \<Rightarrow> first_least byPrice (filterCompatibleInstanceTypes kp its nc) sel \<and> sel \<in> set its \<and>
        kp_CompatibleAllowUndefined kp (kp_FromSelector kp (nc_Requirements nc)) (it_Requirements sel) \<and>
        kp_Fits kp (nc_Requests nc) (it_Allocatable kp sel)
    | Inl e \<Rightarrow> (\<exists>e'. e = InsufficientCapacityError e') \<and> filterCompatibleInstanceTypes kp its nc = []"
proof (cases "sliceStable byPrice (filterCompatibleInstanceTypes kp its nc)")
  case Nil
  then have "filterCompatibleInstanceTypes kp its nc = []" by (metis sliceStable_set set_empty)
  with assms(1,2) Nil show ?thesis by (simp add: selectInstanceType_def)
next
  case (Cons sel rest)
  let ?S = "set (filterCompatibleInstanceTypes kp its nc)"
  have "first_least byPrice (filterCompatibleInstanceTypes kp its nc) sel"
  proof (rule sliceStable_head [OF _ _ _ subset_refl Cons])
    show "byPrice a b \<Longrightarrow> byPrice b c \<Longrightarrow> byPrice a c" for a b c :: "('a, 'b) InstanceType"
      by (auto simp: byPrice_def intro: float_less_trans)
    show "\<not> byPrice a a" for a :: "('a, 'b) InstanceType" by (simp add: byPrice_def)
    show "\<not> byPrice a c" if "b \<in> ?S" "\<not> byPrice a b" "\<not> byPrice b c" for a b c
      using that prices float_not_less_trans unfolding byPrice_def filterCompatibleInstanceTypes_def Let_def
      by (metis (no_types, lifting) filter_is_subset subsetD)
  qed
  moreover have "sel \<in> ?S" using sliceStable_set [of byPrice] Cons by (metis list.set_intros(1))
  ultimately show ?thesis using assms(1,2) Cons
    by (auto simp: selectInstanceType_def filterCompatibleInstanceTypes_def Let_def)
qed

definition anyClaim :: "string \<Rightarrow> string \<Rightarrow> string \<Rightarrow> unit NodeClaim" where
  "anyClaim uid pool pid = zeroNodeClaim\<lparr>nc_Name := uid, nc_UID := uid,
     nc_Labels := [NodePoolLabelKey \<mapsto> pool, LabelInstanceTypeStable \<mapsto> ''small''],
     nc_NodeClassRef := Some \<lparr>ref_Group = ''karpenter.rafay.io'', ref_Kind = ''RafayNodeClass'', ref_Name = ''cls''\<rparr>,
     nc_ProviderID := pid\<rparr>"

definition aKube :: "unit NodeClaim list \<Rightarrow> unit Node list \<Rightarrow> unit kube" where
  "aKube claims nodes = \<lparr>k_claims = Inr claims, k_nodes = Inr nodes, k_cachedNodes = Inr nodes,
     k_cachedClaims = Inr claims,
     k_nodeClass = (\<lambda>n. if n = ''cls'' then Inr aClass else Inl (ExternalError n))\<rparr>"

lemma aClaim_class: "resolveNodeClassFromNodeClaim (aKube cs ns) (anyClaim u p pid) = Inr aClass"
  by (simp add: resolveNodeClassFromNodeClaim_def anyClaim_def zeroNodeClaim_def aKube_def)

definition smallType :: "(unit, inReqs) InstanceType" where
  "smallType = (case instanceTypeOf listKarpenter trivialOps (aSpec ''small'') of Inr it \<Rightarrow> it | Inl e \<Rightarrow> undefined)"

lemma smallType: "instanceTypeOf listKarpenter trivialOps (aSpec ''small'') = Inr smallType"
  by (simp add: smallType_def instanceTypeOf_def capacityOf_def aSpec_def trivialOps_def Let_def)

lemma aClass_types: "getInstanceTypes listKarpenter trivialOps aClass = Inr [smallType]"
  by (simp add: getInstanceTypes_def aClass_def smallType)

lemma aClaim_compatible: "filterCompatibleInstanceTypes listKarpenter [smallType] (anyClaim u p pid) = [smallType]"
  by (simp add: filterCompatibleInstanceTypes_def listKarpenter_def anyClaim_def zeroNodeClaim_def overlap_def)

text \<open>A price of non-negative finite amounts is a number.\<close>

definition nonneg :: "float64 \<Rightarrow> bool" where
  "nonneg v \<longleftrightarrow> v = Inf True \<or> (\<exists>y. v = Fin y \<and> 0 \<le> y)"

lemma nonneg_fround: "0 \<le> x \<Longrightarrow> nonneg (fround x)"
proof (cases "fround x")
  case (Inf b)
  moreover assume "0 \<le> x"
  ultimately show ?thesis by (auto simp: nonneg_def fround_def Let_def split: if_splits)
next
  case (Fin y)
  moreover assume "0 \<le> x"
  ultimately show ?thesis using fround_nonneg [of x y] by (simp add: nonneg_def)
qed simp

lemma nonneg_fmul: "nonneg v \<Longrightarrow> 0 < c \<Longrightarrow> nonneg (fmul v (Fin c))"
  unfolding nonneg_def [of v] by (auto intro!: nonneg_fround mult_nonneg_nonneg simp: nonneg_def [of "Inf True"])

lemma nonneg_fadd: "nonneg v \<Longrightarrow> nonneg w \<Longrightarrow> fadd v w \<noteq> NaN"
  by (auto simp: nonneg_def)

lemma price_not_NaN: "0 \<le> x \<Longrightarrow> 0 \<le> y \<Longrightarrow> qo_Float qo cpu = Fin x \<Longrightarrow> qo_Float qo mem = Fin y \<Longrightarrow>
  priceOf qo cpu mem \<noteq> NaN"
  unfolding priceOf_def
  by (rule nonneg_fadd) (auto intro!: nonneg_fmul nonneg_fround simp: nonneg_def [of "Fin x"] simp del: fmul.simps)

theorem create_selects_cheapest_witness:
  "\<exists>sel. selectInstanceType listKarpenter trivialOps (aKube [] []) (anyClaim ''u'' ''p1'' []) = Inr sel \<and>
     first_least byPrice [smallType] sel"
proof -
  have "cheapestOffering smallType = priceOf trivialOps () ()"
    by (simp add: smallType_def instanceTypeOf_def capacityOf_def aSpec_def trivialOps_def Let_def cheapestOffering_def)
  moreover have "priceOf trivialOps () () \<noteq> NaN"
    by (rule price_not_NaN [of 1 1]) (simp_all add: trivialOps_def)
  ultimately have "\<forall>it \<in> set [smallType]. cheapestOffering it \<noteq> NaN" by simp
  from create_selects_cheapest [OF aClaim_class [of "[]" "[]" "''u''" "''p1''" "[]"] aClass_types this]
  show ?thesis by (auto simp: aClaim_compatible split: sum.splits)
qed

section \<open>Create, Delete and the batcher\<close>

lemma enqueue_queue:
  "nb_queue (snd (enqueueItem item b)) = nb_queue b \<or> nb_queue (snd (enqueueItem item b)) = nb_queue b @ [item]"
  by (auto simp: enqueueItem_def makeChan_def sendChan_def enqueue_join_def Let_def split: option.splits)

text \<open>
  \<open>Create\<close> asks the broker for a machine at most once per claim and never for an adopted one. For
  a claim carrying the adoption annotation the batcher is untouched and the result is the annotated
  provider ID with the labels and annotations as they were. Otherwise a success carries the pending
  ID of the claim's own UID, and the queue gains nothing or exactly one add for that UID.
\<close>
theorem create_asks_once:
  assumes "Create kp qo k cp wait (Some nc) b = (r, b')"
  shows "(lookup (nc_Annotations nc) AdoptedProviderIDAnnotationKey \<noteq> [] \<longrightarrow> b' = b \<and>
      (\<forall>out. r = Inr out \<longrightarrow> nc_ProviderID out = lookup (nc_Annotations nc) AdoptedProviderIDAnnotationKey \<and>
         nc_Labels out = nc_Labels nc \<and> nc_Annotations out = nc_Annotations nc)) \<and>
    (lookup (nc_Annotations nc) AdoptedProviderIDAnnotationKey = [] \<longrightarrow>
      (\<forall>out. r = Inr out \<longrightarrow> nc_ProviderID out = PendingProviderIDPrefix @ nc_UID nc \<and> nc_UID out = nc_UID nc) \<and>
      (nb_queue b' = nb_queue b \<or> (\<exists>item. nb_queue b' = nb_queue b @ [item] \<and>
         bi_operationID item = nc_UID nc \<and> bi_kind item = opKindAdd \<and>
         ar_ClusterID (bi_req item) = cp_clusterID cp \<and> ar_OperationID (bi_req item) = nc_UID nc)))"
proof (cases "selectInstanceType kp qo k nc")
  case (Inl e)
  with assms show ?thesis by (auto simp: Create_def)
next
  case (Inr sel)
  show ?thesis
  proof (cases "lookup (nc_Annotations nc) AdoptedProviderIDAnnotationKey = []")
    case False
    with assms Inr show ?thesis by (auto simp: Create_def Let_def adoptedClaim_def)
  next
    case True
    obtain ch b1 where e: "Enqueue (nc_UID nc) (addRequest cp sel nc) b = (ch, b1)" by fastforce
    have "b' = b1" "\<And>out. r = Inr out \<Longrightarrow> nc_ProviderID out = PendingProviderIDPrefix @ nc_UID nc \<and> nc_UID out = nc_UID nc"
      using assms Inr True e
      by (auto simp: Create_def Let_def pendingClaim_def split: sum.splits option.splits if_splits)
    moreover have "nb_queue b1 = nb_queue b \<or> (\<exists>item. nb_queue b1 = nb_queue b @ [item] \<and>
         bi_operationID item = nc_UID nc \<and> bi_kind item = opKindAdd \<and>
         ar_ClusterID (bi_req item) = cp_clusterID cp \<and> ar_OperationID (bi_req item) = nc_UID nc)"
      using e enqueue_queue [of "\<lparr>bi_operationID = nc_UID nc, bi_kind = opKindAdd,
          bi_req = addRequest cp sel nc, bi_removeReq = zeroRemoveReq\<rparr>" b]
      by (auto simp: Enqueue_def addRequest_def)
    ultimately show ?thesis using True by blast
  qed
qed

definition aProvider :: CloudProvider where
  "aProvider = \<lparr>cp_clusterID = ''c'', cp_projectID = ''p''\<rparr>"

definition adoptedExample :: "unit NodeClaim" where
  "adoptedExample = (anyClaim ''u'' ''p1'' [])\<lparr>nc_Annotations := [AdoptedProviderIDAnnotationKey \<mapsto> ''rafay://p1/small/h'']\<rparr>"

theorem create_asks_once_witness:
  "snd (Create listKarpenter trivialOps (aKube [] []) aProvider (\<lambda>ch b. Inl ContextDone)
     (Some adoptedExample) NewNodeBatcher) = NewNodeBatcher"
proof -
  obtain r b' where c: "Create listKarpenter trivialOps (aKube [] []) aProvider (\<lambda>ch b. Inl ContextDone)
     (Some adoptedExample) NewNodeBatcher = (r, b')" by fastforce
  have "lookup (nc_Annotations adoptedExample) AdoptedProviderIDAnnotationKey \<noteq> []"
    by (simp add: adoptedExample_def)
  with create_asks_once [OF c] c show ?thesis by simp
qed

lemma enqueueRemoval_next:
  "enqueueRemoval cp wait pid nc b = (e, b') \<Longrightarrow>
   nb_nextChan b' = Suc (nb_nextChan b) \<and>
   (nb_queue b' = nb_queue b \<or> (\<exists>item. nb_queue b' = nb_queue b @ [item] \<and>
      bi_operationID item = removeOperation (nc_UID nc) \<and> bi_kind item = opKindRemove \<and>
      rr_ProviderID (bi_removeReq item) = pid))"
proof -
  assume a: "enqueueRemoval cp wait pid nc b = (e, b')"
  let ?item = "\<lparr>bi_operationID = removeOperation (nc_UID nc), bi_kind = opKindRemove, bi_req = zeroAddReq,
      bi_removeReq = removeRequest cp pid nc\<rparr>"
  have n: "nb_nextChan (snd (enqueueItem ?item b)) = Suc (nb_nextChan b)"
    by (simp add: enqueueItem_def makeChan_def sendChan_def Let_def split: option.splits)
  from a have "b' = snd (enqueueItem ?item b)"
    by (auto simp: enqueueRemoval_def EnqueueRemove_def split: prod.splits sum.splits)
  with n enqueue_queue [of ?item b] show ?thesis by (auto simp: removeRequest_def)
qed



section \<open>List and the failure handler\<close>

text \<open>
  \<open>List\<close> hides no machine: with the broker client, which cannot list, it returns one claim for
  each Node of the cluster whose provider ID has the provider's prefix, in order, with that ID, and
  nothing else; Karpenter's garbage collection deletes a registered claim whose ID is missing.
\<close>
theorem list_complete:
  assumes "k_cachedNodes k = Inr nodes"
  shows "\<exists>out. List_claims qo k ListNodes cp = Inr out \<and>
    map nc_ProviderID out = filter (\<lambda>pid. hasPrefix pid ProviderIDPrefix) (map nd_ProviderID nodes)"
proof -
  have p: "rafayProviderPrefix = ProviderIDPrefix" "ProviderIDPrefix \<noteq> []"
    by (simp_all add: rafayProviderPrefix_def ProviderIDPrefix_def)
  then have "hasPrefix [] ProviderIDPrefix \<longleftrightarrow> False" by (simp add: hasPrefix_def)
  then have "(\<not> (pid = [] \<or> \<not> hasPrefix pid rafayProviderPrefix)) \<longleftrightarrow> hasPrefix pid ProviderIDPrefix" for pid
    using p by auto
  then show ?thesis using assms
    by (simp add: List_claims_def ListNodes_def listNodesFromKube_def nodeInfoToNodeClaim_def
        kubeNodeToNodeInfo_def zeroNodeClaim_def filter_map comp_def)
qed

definition aNode :: "string \<Rightarrow> string \<Rightarrow> string \<Rightarrow> int \<Rightarrow> unit Node" where
  "aNode name pool pid created = \<lparr>nd_Name = name, nd_Labels = [nodepoolNameLabel \<mapsto> pool, skuNameLabel \<mapsto> ''small''],
     nd_ProviderID = pid, nd_CreationTimestamp = created, nd_DeletionTimestamp = None,
     nd_Capacity = Map.empty, nd_Allocatable = Map.empty, nd_Conditions = [(''Ready'', ''True'')],
     nd_ResourceVersion = ''1''\<rparr>"

theorem list_complete_witness:
  "\<exists>out. List_claims trivialOps (aKube [] [aNode ''h'' ''p1'' ''rafay://p1/small/h'' 5]) ListNodes aProvider = Inr out \<and>
     map nc_ProviderID out = [''rafay://p1/small/h'']"
proof -
  have k: "k_cachedNodes (aKube [] [aNode ''h'' ''p1'' ''rafay://p1/small/h'' 5]) = Inr [aNode ''h'' ''p1'' ''rafay://p1/small/h'' 5]"
    by (simp add: aKube_def)
  from list_complete [OF k, of trivialOps aProvider] show ?thesis
    by (simp add: aNode_def hasPrefix_def ProviderIDPrefix_def)
qed

lemma NewBatchFailureHandler_deletes:
  "NewBatchFailureHandler k op kind detail = Some nc \<Longrightarrow> kind = opKindAdd \<and> nc_UID nc = op \<and>
   (nc_ProviderID nc = [] \<or> is_pending (nc_ProviderID nc)) \<and> nc_DeletionTimestamp nc = None \<and>
   (\<exists>claims. k_claims k = Inr claims \<and> nc \<in> set claims)"
  by (auto simp: NewBatchFailureHandler_def opKindAdd_def find_Some_iff split: if_splits sum.splits option.splits)

text \<open>
  The failure handler deletes at most the one claim the failed add was for: only for an add, only
  a claim with exactly that UID, not being deleted, and without a real provider ID, so a claim whose
  node exists is never lost to a late failure report.
\<close>
theorem failure_handler_safe:
  assumes "NewBatchFailureHandler k op kind detail = Some nc"
  shows "kind = opKindAdd \<and> nc_UID nc = op \<and> (nc_ProviderID nc = [] \<or> is_pending (nc_ProviderID nc)) \<and>
    nc_DeletionTimestamp nc = None \<and> (\<exists>claims. k_claims k = Inr claims \<and> nc \<in> set claims)"
  using assms by (rule NewBatchFailureHandler_deletes)

theorem failure_handler_safe_witness:
  "\<exists>nc. NewBatchFailureHandler (aKube [anyClaim ''u'' ''p1'' (PendingProviderIDPrefix @ ''u'')] []) ''u'' ''add'' ''x'' = Some nc \<and>
     nc_DeletionTimestamp nc = None"
proof -
  have "NewBatchFailureHandler (aKube [anyClaim ''u'' ''p1'' (PendingProviderIDPrefix @ ''u'')] []) ''u'' ''add'' ''x''
      = Some (anyClaim ''u'' ''p1'' (PendingProviderIDPrefix @ ''u''))"
    by (simp add: NewBatchFailureHandler_def aKube_def anyClaim_def zeroNodeClaim_def)
  with failure_handler_safe [OF this] show ?thesis by blast
qed

text \<open>
  A claim that \<open>Create\<close> has not touched yet, with an empty provider ID, is deleted too, although
  the handler's comment speaks only of claims still carrying a pending ID.
\<close>
theorem failure_handler_deletes_unlaunched:
  "NewBatchFailureHandler (aKube [anyClaim ''u'' ''p1'' []] []) ''u'' ''add'' ''x'' = Some (anyClaim ''u'' ''p1'' [])"
  by (simp add: NewBatchFailureHandler_def aKube_def anyClaim_def zeroNodeClaim_def)

section \<open>Matching nodes\<close>

text \<open>
  C17: Deleting and binding agree on which nodes are a claim's: for a claim with a pool, each finds a
  node exactly when one belongs to the claim by pool, SKU and creation time and is not already used,
  what it finds is the provider ID of such a node, and neither ever picks the real provider ID of
  another claim.
\<close>
theorem matching_exact:
  assumes "lookup (nc_Labels nc) NodePoolLabelKey \<noteq> []"
  shows "(deleteFinds claims nodes nc \<noteq> [] \<longleftrightarrow> (\<exists>n \<in> set nodes. belongs nc (otherIDs claims nc) n)) \<and>
    (bindFinds claims nodes nc \<noteq> [] \<longleftrightarrow> (\<exists>n \<in> set nodes. belongs nc (allIDs claims nc) n)) \<and>
    (\<forall>c \<in> set claims. nc_UID c \<noteq> nc_UID nc \<and> \<not> is_pending (nc_ProviderID c) \<and> nc_ProviderID c \<noteq> [] \<longrightarrow>
       deleteFinds claims nodes nc \<noteq> nc_ProviderID c \<and> bindFinds claims nodes nc \<noteq> nc_ProviderID c)"
  using deleting.complete_iff [OF assms] binding.complete_iff [OF assms]
    deleting.never_taken [of claims nodes nc] binding.never_taken [of claims nodes nc] by metis

theorem matching_exact_witness:
  "bindFinds [] [aNode ''h'' ''p1'' ''rafay://p1/small/h'' 5] (anyClaim ''u'' ''p1'' []) \<noteq> []"
proof -
  have l: "lookup (nc_Labels (anyClaim ''u'' ''p1'' [])) NodePoolLabelKey \<noteq> []"
    by (simp add: anyClaim_def label_keys)
  have "belongs (anyClaim ''u'' ''p1'' []) (allIDs [] (anyClaim ''u'' ''p1'' [])) (aNode ''h'' ''p1'' ''rafay://p1/small/h'' 5)"
    by (simp add: belongs_def anyClaim_def zeroNodeClaim_def aNode_def allIDs_def realIDs_def NodeClaimSKUs_def label_keys)
  with matching_exact [OF l, of "[]" "[aNode ''h'' ''p1'' ''rafay://p1/small/h'' 5]"] show ?thesis by simp
qed

end
