(* ===== verification/Adoption_Properties.thy ===== *)
theory Adoption_Properties
  imports Node_Adoption Cloud_Properties
begin

text \<open>
  What adoption promises: it takes only free, ready workers of a managed pool, takes each machine once,
  never the node a scale-out waits for, and misses none; and the two ways in which a machine can still
  end up with two claims.
\<close>

lemma list_all2_second: "list_all2 P xs ys \<Longrightarrow> y \<in> set ys \<Longrightarrow> \<exists>x \<in> set xs. P x y"
  by (induction rule: list_all2_induct) auto

lemma subseq_set: "subseq xs ys \<Longrightarrow> set xs \<subseteq> set ys"
  by (induction rule: list_emb.induct) auto

lemma distinct_subseq: "subseq xs ys \<Longrightarrow> distinct ys \<Longrightarrow> distinct xs"
  by (induction rule: list_emb.induct) (auto dest: subseq_set)

lemma adopted_annotation:
  "claimFor kp env np ref pend n nc \<Longrightarrow>
   lookup (nc_Annotations nc) AdoptedProviderIDAnnotationKey = effectiveID np n"
  by (auto simp: claimFor_def)

lemma pending_not_belongs:
  assumes "\<not> claimedByPendingClaim (poolPending pool claims) n (lookup (nd_Labels n) skuNameLabel)"
    and "c \<in> set claims" and "is_pending (nc_ProviderID c)" and "nc_DeletionTimestamp c = None"
    and "lookup (nc_Labels c) NodePoolLabelKey = pool"
  shows "\<not> belongs c used n"
  using assms unfolding claimedByPendingClaim_def poolPending_def belongs_def list_ex_iff by auto

text \<open>The node a claim of the pass was created for, and what the pass knew of the pool.\<close>

lemma created_for_node:
  assumes "Reconcile_adoption kp env k np = (r, st)" and "nc \<in> set (as_created st)"
    and "k_cachedNodes k = Inr nodes" and "k_claims k = Inr claims"
  obtains ref n where "n \<in> set nodes" "nd_Labels n nodepoolNameLabel = Some (np_Name np)"
    "claimFor kp env np ref (poolPending (np_Name np) claims) n nc"
    "np_NodeClassRef np = Some ref" "ref_Group ref = GroupName" "ref_Kind ref = ''RafayNodeClass''"
    "np_DeletionTimestamp np = None" "lookup (np_Annotations np) autoScalingAnnotationKey \<noteq> ''false''"
proof -
  from assms(2) have "as_created st \<noteq> [] \<or> r = RequeueAfter resyncInterval" by auto
  from Reconcile_adoption_runs [OF assms(1) this] assms(3,4) obtain ref e where
    run: "adoptNodes kp env np ref (poolPending (np_Name np) claims)
       (matchingLabel nodepoolNameLabel (np_Name np) nodes) (adoptStart claims) = (e, st)"
    and pool: "np_NodeClassRef np = Some ref" "ref_Group ref = GroupName" "ref_Kind ref = ''RafayNodeClass''"
      "np_DeletionTimestamp np = None" "lookup (np_Annotations np) autoScalingAnnotationKey \<noteq> ''false''"
    by (metis sum.inject(2))
  have "types_ok env np (adoptStart claims)" by (simp add: types_ok_def adoptStart_def)
  from adoptNodes_created [OF run this] obtain ms cs where
    sub: "subseq ms (matchingLabel nodepoolNameLabel (np_Name np) nodes)" and "as_created st = cs"
    and all: "list_all2 (claimFor kp env np ref (poolPending (np_Name np) claims)) ms cs"
    by (auto simp: adoptStart_def)
  with assms(2) list_all2_second [OF all] obtain n where n: "n \<in> set ms"
    and f: "claimFor kp env np ref (poolPending (np_Name np) claims) n nc" by blast
  from n sub have "n \<in> set nodes" "nd_Labels n nodepoolNameLabel = Some (np_Name np)"
    using subseq_set [OF sub] by (auto simp: matchingLabel_def)
  with f pool that show thesis by blast
qed


text \<open>
  The IDs adopted in a pass: for the nodes without a provider ID it is enough to know something of those
  whose patch was accepted.
\<close>

lemma adopted_ids_fresh:
  assumes "Reconcile_adoption kp env k np = (r, st)"
    and "k_cachedNodes k = Inr nodes" and "k_claims k = Inr claims" and "distinct nodes"
    and "\<And>m. \<lbrakk>m \<in> set (matchingLabel nodepoolNameLabel (np_Name np) nodes); nd_ProviderID m = [];
      ae_Patch env (sentNode np m) = None\<rbrakk> \<Longrightarrow> effectiveID np m \<notin> claimedIDs claims"
    and "\<And>m n. \<lbrakk>m \<in> set (matchingLabel nodepoolNameLabel (np_Name np) nodes);
      n \<in> set (matchingLabel nodepoolNameLabel (np_Name np) nodes); nd_ProviderID m = [];
      ae_Patch env (sentNode np m) = None; effectiveID np n = effectiveID np m\<rbrakk> \<Longrightarrow> n = m"
  shows "distinct (map (\<lambda>nc. lookup (nc_Annotations nc) AdoptedProviderIDAnnotationKey) (as_created st)) \<and>
    (\<lambda>nc. lookup (nc_Annotations nc) AdoptedProviderIDAnnotationKey) ` set (as_created st) \<inter> claimedIDs claims = {}"
proof (cases "as_created st = []")
  case True
  then show ?thesis by simp
next
  case False
  then have "as_created st \<noteq> [] \<or> r = RequeueAfter resyncInterval" by simp
  from Reconcile_adoption_runs [OF assms(1) this] assms(2,3) obtain ref e where
    run: "adoptNodes kp env np ref (poolPending (np_Name np) claims)
       (matchingLabel nodepoolNameLabel (np_Name np) nodes) (adoptStart claims) = (e, st)"
    by (metis sum.inject(2))
  have "types_ok env np (adoptStart claims)" by (simp add: types_ok_def adoptStart_def)
  from adoptNodes_created [OF run this] obtain ms cs where
    sub: "subseq ms (matchingLabel nodepoolNameLabel (np_Name np) nodes)" and cs: "as_created st = cs"
    and all: "list_all2 (claimFor kp env np ref (poolPending (np_Name np) claims)) ms cs"
    and fresh: "freshIDs np (claimedIDs claims) ms"
    by (auto simp: adoptStart_def)
  have mem: "set ms \<subseteq> set (matchingLabel nodepoolNameLabel (np_Name np) nodes)" using subseq_set [OF sub] .
  have d: "distinct ms" using distinct_subseq [OF sub] assms(4) by (simp add: matchingLabel_def)
  have patched: "nd_ProviderID m = [] \<longrightarrow> ae_Patch env (sentNode np m) = None" if "m \<in> set ms" for m
    using all that by (induction rule: list_all2_induct) (auto simp: claimFor_def)
  have "distinct (map (effectiveID np) ms) \<and> effectiveID np ` set ms \<inter> claimedIDs claims = {}"
    using mem patched assms(5,6) by (intro freshIDs_distinct [OF fresh d]) blast+
  moreover have "map (\<lambda>nc. lookup (nc_Annotations nc) AdoptedProviderIDAnnotationKey) cs = map (effectiveID np) ms"
    using all by (induction rule: list_all2_induct) (auto simp: adopted_annotation)
  ultimately show ?thesis unfolding cs by (metis set_map)
qed


text \<open>
  One pass adopts each machine once: the provider IDs of the claims it creates are pairwise
  different, and none is one that a listed claim speaks for, in its status or in its adoption
  annotation. For the nodes without a provider ID this rests on the ID built for them being no
  claim's and no other node's.
\<close>
theorem adopts_each_machine_once:
  assumes "Reconcile_adoption kp env k np = (r, st)"
    and "k_cachedNodes k = Inr nodes" and "k_claims k = Inr claims" and "distinct nodes"
    and "\<forall>m \<in> set nodes. nd_ProviderID m = [] \<longrightarrow> effectiveID np m \<notin> claimedIDs claims"
    and "\<forall>m \<in> set nodes. \<forall>n \<in> set nodes. nd_ProviderID m = [] \<longrightarrow> effectiveID np n = effectiveID np m \<longrightarrow> n = m"
  shows "distinct (map (\<lambda>nc. lookup (nc_Annotations nc) AdoptedProviderIDAnnotationKey) (as_created st)) \<and>
    (\<lambda>nc. lookup (nc_Annotations nc) AdoptedProviderIDAnnotationKey) ` set (as_created st) \<inter> claimedIDs claims = {}"
  using assms(5,6) by (intro adopted_ids_fresh [OF assms(1-4)]) (auto simp: matchingLabel_def)

text \<open>
  C27: Adoption misses no worker: after a pass that reports no error, every node of the pool that may
  be adopted is spoken for, by a claim that was listed or by one the pass created.
\<close>
theorem adoption_complete:
  assumes "Reconcile_adoption kp env k np = (RequeueAfter resyncInterval, st)"
    and "k_cachedNodes k = Inr nodes" and "k_claims k = Inr claims" and "np_NodeClassRef np = Some ref"
    and "n \<in> set nodes" and "nd_Labels n nodepoolNameLabel = Some (np_Name np)"
    and "adoptable kp env np ref (poolPending (np_Name np) claims) n it"
  shows "effectiveID np n \<in> claimedIDs claims \<or>
    (\<exists>nc \<in> set (as_created st). lookup (nc_Annotations nc) AdoptedProviderIDAnnotationKey = effectiveID np n)"
proof -
  have "as_created st \<noteq> [] \<or> RequeueAfter resyncInterval = RequeueAfter resyncInterval" by simp
  from Reconcile_adoption_runs [OF assms(1) this] assms(2-4) have
    run: "adoptNodes kp env np ref (poolPending (np_Name np) claims)
       (matchingLabel nodepoolNameLabel (np_Name np) nodes) (adoptStart claims) = (None, st)"
    and errs: "as_errs st = []" by (metis option.inject sum.inject(2))+
  have ok: "types_ok env np (adoptStart claims)" by (simp add: types_ok_def adoptStart_def)
  have "n \<in> set (matchingLabel nodepoolNameLabel (np_Name np) nodes)"
    using assms(5,6) by (simp add: matchingLabel_def)
  from adoptNodes_complete [OF run ok errs this assms(7)] have "effectiveID np n \<in> as_claimed st" .
  moreover from adoptNodes_created [OF run ok] obtain ms cs where cs: "as_created st = cs"
    and all: "list_all2 (claimFor kp env np ref (poolPending (np_Name np) claims)) ms cs"
    and "as_claimed st = claimedIDs claims \<union> effectiveID np ` set ms" by (auto simp: adoptStart_def)
  ultimately have "effectiveID np n \<in> claimedIDs claims \<or> (\<exists>m \<in> set ms. effectiveID np n = effectiveID np m)"
    by auto
  moreover have "\<exists>nc \<in> set cs. lookup (nc_Annotations nc) AdoptedProviderIDAnnotationKey = effectiveID np m"
    if "m \<in> set ms" for m
    using all that by (induction rule: list_all2_induct) (auto simp: adopted_annotation)
  ultimately show ?thesis unfolding cs by metis
qed

section \<open>A small pool\<close>

definition adoptWorld :: "(unit, inReqs) adoptEnv" where
  "adoptWorld = \<lparr>ae_ToNodeClaim = (\<lambda>np. zeroNodeClaim\<lparr>nc_NodeClassRef := np_NodeClassRef np\<rparr>),
     ae_NodeClassLabelKey = (\<lambda>g k. g @ ''/'' @ k),
     ae_ReadyStatus = (\<lambda>n. case map_of (nd_Conditions n) ''Ready'' of None \<Rightarrow> [] | Some s \<Rightarrow> s),
     ae_HasCompatible = (\<lambda>_ _. True), ae_InstanceTypes = (\<lambda>np. Inr [smallType]),
     ae_Patch = (\<lambda>_. None), ae_Create = (\<lambda>_. None), ae_ListAll = None\<rparr>"

definition pool1 :: NodePool where
  "pool1 = \<lparr>np_Name = ''p1'', np_UID = ''pu'', np_Annotations = Map.empty, np_DeletionTimestamp = None,
     np_NodeClassRef = Some \<lparr>ref_Group = GroupName, ref_Kind = ''RafayNodeClass'', ref_Name = ''cls''\<rparr>,
     np_TemplateLabels = Map.empty, np_TemplateAnnotations = Map.empty, np_Requirements = []\<rparr>"

definition worker :: "string \<Rightarrow> unit Node" where
  "worker pid = \<lparr>nd_Name = ''h1'', nd_Labels = [nodepoolNameLabel \<mapsto> ''p1'', skuNameLabel \<mapsto> ''small''],
     nd_ProviderID = pid, nd_CreationTimestamp = 5, nd_DeletionTimestamp = None,
     nd_Capacity = Map.empty, nd_Allocatable = Map.empty, nd_Conditions = [(''Ready'', ''True'')],
     nd_ResourceVersion = ''1''\<rparr>"

definition workerID :: string where "workerID = ''rafay://p1/small/h1''"

lemma worker_ids: "BuildProviderID ''p1'' ''small'' ''h1'' = workerID" "workerID \<noteq> []"
  "hasPrefix workerID ProviderIDPrefix" "\<not> is_pending workerID" "effectiveID pool1 (worker []) = workerID"
  "effectiveID pool1 (worker workerID) = workerID"
  by (simp_all add: BuildProviderID_def workerID_def hasPrefix_def ProviderIDPrefix_def
    PendingProviderIDPrefix_def effectiveID_def worker_def pool1_def label_keys)

definition adoptedWorker :: "string \<Rightarrow> unit NodeClaim" where
  "adoptedWorker pid = (adoptedNodeClaim listKarpenter adoptWorld pool1
      \<lparr>ref_Group = GroupName, ref_Kind = ''RafayNodeClass'', ref_Name = ''cls''\<rparr> (worker pid) ''small'' smallType)
     \<lparr>nc_Annotations := [adoptedNodeAnnotationKey \<mapsto> ''h1'', AdoptedProviderIDAnnotationKey \<mapsto> workerID]\<rparr>"

lemma smallType_name [simp]: "it_Name smallType = ''small''"
  by (simp add: smallType_def instanceTypeOf_def capacityOf_def aSpec_def trivialOps_def Let_def)

text \<open>The same world with a patch of its own.\<close>

definition patchWorld :: "(unit Node \<Rightarrow> gerror option) \<Rightarrow> (unit, inReqs) adoptEnv" where
  "patchWorld f = adoptWorld\<lparr>ae_Patch := f\<rparr>"

lemma worker_adoptable_patched:
  "validateAdoptable listKarpenter (patchWorld f) pool1 smallType ls = None"
  "isReady (patchWorld f) (worker pid)" "\<not> isControlPlane (worker pid)" "lookup (nd_Labels (worker pid)) skuNameLabel = ''small''"
  by (simp_all add: validateAdoptable_def listKarpenter_def pool1_def overlap_def patchWorld_def adoptWorld_def isReady_def
    worker_def isControlPlane_def label_keys)

lemma worker_taken_patched:
  assumes "pid = [] \<or> pid = workerID" and "poolPending ''p1'' claims = []"
    and "pid \<noteq> [] \<longrightarrow> workerID \<notin> claimedIDs claims" and patch: "f (sentNode pool1 (worker pid)) = None"
  shows "\<exists>st. Reconcile_adoption listKarpenter (patchWorld f) (aKube claims [worker pid]) pool1
      = (RequeueAfter resyncInterval, st) \<and> as_created st = [adoptedWorker pid] \<and>
        as_patches st = [sentNode pool1 (worker pid)]"
proof -
  define n where "n = worker pid"
  have m: "matchingLabel nodepoolNameLabel ''p1'' [n] = [n]"
    by (simp add: matchingLabel_def worker_def label_keys n_def)
  have ps: "prepareNode (patchWorld f) n ''p1'' ''small'' = (Inr workerID, [sentNode pool1 n])"
    using assms(1) worker_ids patch
    by (auto simp: prepareNode_def Let_def n_def patchWorld_def sentNode_def equalNodes_def setRegistered_def)
      (auto simp: worker_def NodeRegisteredLabelKey_def label_keys)
  have sel: "nd_ProviderID n = pid" "nd_DeletionTimestamp n = None"
    "nd_Name n = ''h1''" "np_Name pool1 = ''p1''" "ae_InstanceTypes (patchWorld f) pool1 = Inr [smallType]"
    "ae_Create (patchWorld f) nc = None" "ae_ListAll (patchWorld f) = None" "np_TemplateAnnotations pool1 = Map.empty" for nc
    by (simp_all add: worker_def pool1_def patchWorld_def adoptWorld_def n_def)
  have ad: "isReady (patchWorld f) n" "\<not> isControlPlane n" "lookup (nd_Labels n) skuNameLabel = ''small''"
    unfolding n_def by (rule worker_adoptable_patched)+
  let ?ref = "\<lparr>ref_Group = GroupName, ref_Kind = ''RafayNodeClass'', ref_Name = ''cls''\<rparr>"
  define nc where "nc = adoptedNodeClaim listKarpenter (patchWorld f) pool1 ?ref n ''small'' smallType"
  have ann: "nc_Annotations nc = [adoptedNodeAnnotationKey \<mapsto> ''h1'']"
    by (simp add: nc_def adoptedNodeClaim_def sel)
  have adw: "nc\<lparr>nc_Annotations := [adoptedNodeAnnotationKey \<mapsto> ''h1'', AdoptedProviderIDAnnotationKey \<mapsto> workerID]\<rparr>
      = adoptedWorker pid" by (simp add: adoptedWorker_def nc_def n_def adoptedNodeClaim_def patchWorld_def)
  have own: "pid \<noteq> [] \<longrightarrow> hasPrefix pid ProviderIDPrefix \<and> pid \<notin> claimedIDs claims"
    using assms(1,3) worker_ids by auto
  have take: "as_created (takeNode (patchWorld f) pool1 n ''small'' nc st) = as_created st @ [adoptedWorker pid] \<and>
      as_patches (takeNode (patchWorld f) pool1 n ''small'' nc st) = as_patches st @ [sentNode pool1 n] \<and>
      as_errs (takeNode (patchWorld f) pool1 n ''small'' nc st) = as_errs st" for st :: "(unit, inReqs) adoptSt"
    by (simp add: takeNode_def sel ps ann adw Let_def)
  have ex: "examineType listKarpenter (patchWorld f) pool1 ?ref n ''small'' st = takeNode (patchWorld f) pool1 n ''small'' nc st"
    if "as_types st = [smallType]" for st
    using that by (simp add: examineType_def worker_adoptable_patched(1) nc_def [symmetric] Let_def)
  have "adoptNode listKarpenter (patchWorld f) pool1 ?ref [] n (adoptStart claims) =
      (None, takeNode (patchWorld f) pool1 n ''small'' nc ((adoptStart claims)\<lparr>as_types := [smallType]\<rparr>))"
    using own by (auto simp: adoptNode_def Let_def sel ad claimedByPendingClaim_def ex adoptStart_def)
  then obtain st where st: "adoptNode listKarpenter (patchWorld f) pool1 ?ref [] n (adoptStart claims) = (None, st)"
    "as_created st = [adoptedWorker pid]" "as_patches st = [sentNode pool1 n]" "as_errs st = []" by (simp add: take) (simp add: adoptStart_def)
  moreover have "np_DeletionTimestamp pool1 = None" "np_NodeClassRef pool1 = Some ?ref" "np_Annotations pool1 = Map.empty"
    by (simp_all add: pool1_def)
  ultimately show ?thesis using assms(2)
    by (simp add: Reconcile_adoption_def sel aKube_def m n_def [symmetric])
qed

lemma adoptWorld_patch: "patchWorld (\<lambda>_. None) = adoptWorld"
  by (simp add: patchWorld_def adoptWorld_def)

lemma worker_adoptable:
  "validateAdoptable listKarpenter adoptWorld pool1 smallType ls = None"
  "isReady adoptWorld (worker pid)" "\<not> isControlPlane (worker pid)" "lookup (nd_Labels (worker pid)) skuNameLabel = ''small''"
  unfolding adoptWorld_patch [symmetric] by (rule worker_adoptable_patched)+

lemma worker_taken:
  assumes "pid = [] \<or> pid = workerID" and "poolPending ''p1'' claims = []"
    and "pid \<noteq> [] \<longrightarrow> workerID \<notin> claimedIDs claims"
  shows "\<exists>st. Reconcile_adoption listKarpenter adoptWorld (aKube claims [worker pid]) pool1
      = (RequeueAfter resyncInterval, st) \<and> as_created st = [adoptedWorker pid]"
  using worker_taken_patched [OF assms, where f = "\<lambda>_. None"] adoptWorld_patch by auto

lemma no_claims: "poolPending p [] = []" "claimedIDs [] = {}"
  by (simp_all add: poolPending_def claimedIDs_def)

lemma adopted_id: "lookup (nc_Annotations (adoptedWorker pid)) AdoptedProviderIDAnnotationKey = workerID"
  by (simp add: adoptedWorker_def)


theorem adopts_each_machine_once_witness:
  "\<exists>st. Reconcile_adoption listKarpenter adoptWorld (aKube [] [worker workerID]) pool1
       = (RequeueAfter resyncInterval, st) \<and> as_created st \<noteq> [] \<and>
     distinct (map (\<lambda>nc. lookup (nc_Annotations nc) AdoptedProviderIDAnnotationKey) (as_created st))"
proof -
  from worker_taken [of workerID "[]"] obtain st where
    st: "Reconcile_adoption listKarpenter adoptWorld (aKube [] [worker workerID]) pool1 = (RequeueAfter resyncInterval, st)"
    "as_created st = [adoptedWorker workerID]" by (auto simp: no_claims)
  have k: "k_cachedNodes (aKube [] [worker workerID]) = Inr [worker workerID]" "k_claims (aKube [] [worker workerID]) = Inr []"
    by (simp_all add: aKube_def)
  have "nd_ProviderID (worker workerID) \<noteq> []" using worker_ids(2) by (simp add: worker_def)
  then have "\<forall>m \<in> set [worker workerID]. nd_ProviderID m = [] \<longrightarrow> effectiveID pool1 m \<notin> claimedIDs ([] :: unit NodeClaim list)"
    "\<forall>m \<in> set [worker workerID]. \<forall>n \<in> set [worker workerID]. nd_ProviderID m = [] \<longrightarrow>
       effectiveID pool1 n = effectiveID pool1 m \<longrightarrow> n = m" by simp_all
  from adopts_each_machine_once [OF st(1) k _ this] have
    "distinct (map (\<lambda>nc. lookup (nc_Annotations nc) AdoptedProviderIDAnnotationKey) (as_created st))"
    by (simp only: distinct_singleton simp_thms)
  with st show ?thesis by auto
qed

lemma worker_fits: "adoptable listKarpenter adoptWorld pool1
    \<lparr>ref_Group = GroupName, ref_Kind = ''RafayNodeClass'', ref_Name = ''cls''\<rparr> [] (worker []) smallType"
  by (simp add: adoptable_def worker_adoptable claimedByPendingClaim_def)
    (simp add: worker_def adoptWorld_def)

theorem adoption_complete_witness:
  "\<exists>st. Reconcile_adoption listKarpenter adoptWorld (aKube [] [worker []]) pool1 = (RequeueAfter resyncInterval, st) \<and>
     (\<exists>nc \<in> set (as_created st). lookup (nc_Annotations nc) AdoptedProviderIDAnnotationKey = workerID)"
proof -
  from worker_taken [of "[]" "[]"] obtain st where
    st: "Reconcile_adoption listKarpenter adoptWorld (aKube [] [worker []]) pool1 = (RequeueAfter resyncInterval, st)"
    by (auto simp: no_claims)
  have k: "k_cachedNodes (aKube [] [worker []]) = Inr [worker []]" "k_claims (aKube [] [worker []]) = Inr []"
    by (simp_all add: aKube_def)
  have ref: "np_NodeClassRef pool1 = Some \<lparr>ref_Group = GroupName, ref_Kind = ''RafayNodeClass'', ref_Name = ''cls''\<rparr>"
    by (simp add: pool1_def)
  have lab: "nd_Labels (worker []) nodepoolNameLabel = Some (np_Name pool1)"
    by (simp add: worker_def pool1_def label_keys)
  have "worker [] \<in> set [worker []]" by simp
  from adoption_complete [OF st k ref this lab, unfolded no_claims, OF worker_fits]
  show ?thesis using st worker_ids(5) by auto
qed

section \<open>Two claims for one machine\<close>

lemma smallType_reqs: "it_Requirements smallType =
    [(LabelInstanceTypeStable, [''small'']), (LabelTopologyZone, [''default'']), (CapacityTypeLabelKey, [CapacityTypeOnDemand])]"
  by (simp add: smallType_def instanceTypeOf_def capacityOf_def aSpec_def trivialOps_def Let_def
    requirementsOf_def addValues_def trimmed_def listKarpenter_def zoneOf_def)

text \<open>
  C28: Adoption and the provider-ID controller can give one machine to two claims: while a claim is in
  \<open>Create\<close> and not yet pending, adoption takes a free node of its pool that is newer than the claim;
  when the claim becomes pending, the provider-ID controller, which reads only
  \<^verbatim>\<open>status.providerID\<close> and not the adoption annotation, binds it to the same node; and \<open>Create\<close> of
  the adopted claim returns that node's ID, too.
\<close>
theorem adoption_and_binding_share_a_machine:
  "\<exists>st B A' b bound B'.
     (let A = anyClaim ''a'' ''p1'' []; n = worker workerID in
      Reconcile_adoption listKarpenter adoptWorld (aKube [A] [n]) pool1 = (RequeueAfter resyncInterval, st) \<and>
      as_created st = [B] \<and>
      Create listKarpenter trivialOps (aKube [A] [n]) aProvider (\<lambda>ch b. Inr (ackResult ''b1'')) (Some A)
        NewNodeBatcher = (Inr A', b) \<and>
      Reconcile_npid (aKube [A', B] [n]) (\<lambda>_. Patched) A' = (Finished, Some bound) \<and>
      Create listKarpenter trivialOps (aKube [bound, B] [n]) aProvider (\<lambda>ch b. Inl ContextDone)
        (Some (B\<lparr>nc_UID := ''b''\<rparr>)) b = (Inr B', b) \<and>
      nc_UID bound = ''a'' \<and> nc_UID B' = ''b'' \<and>
      isReal (nc_ProviderID bound) \<and> nc_ProviderID bound = nc_ProviderID B')"
proof -
  let ?A = "anyClaim ''a'' ''p1'' []" and ?n = "worker workerID"
  have pend: "poolPending ''p1'' [?A] = []" and ids: "claimedIDs [?A] = {}"
    by (simp_all add: poolPending_def claimedIDs_def claimIDs_def anyClaim_def zeroNodeClaim_def
      hasPrefix_def PendingProviderIDPrefix_def)
  with worker_taken [of workerID "[?A]"] obtain st where
    st: "Reconcile_adoption listKarpenter adoptWorld (aKube [?A] [?n]) pool1 = (RequeueAfter resyncInterval, st)"
    "as_created st = [adoptedWorker workerID]" by auto
  have sortS: "sliceStable byPrice [smallType] = [smallType]" by simp
  have selA: "selectInstanceType listKarpenter trivialOps (aKube cs ns) ?A = Inr smallType" for cs ns
    by (simp add: selectInstanceType_def aClaim_class aClass_types aClaim_compatible)
  let ?B = "(adoptedWorker workerID)\<lparr>nc_UID := ''b''\<rparr>"
  have selB: "selectInstanceType listKarpenter trivialOps (aKube cs ns) ?B = Inr smallType" for cs ns
  proof -
    have "resolveNodeClassFromNodeClaim (aKube cs ns) ?B = Inr aClass"
      by (simp add: resolveNodeClassFromNodeClaim_def adoptedWorker_def adoptedNodeClaim_def adoptWorld_def
        pool1_def aKube_def)
    moreover have "filterCompatibleInstanceTypes listKarpenter [smallType] ?B = [smallType]"
      by (simp add: filterCompatibleInstanceTypes_def adoptedWorker_def adoptedNodeClaim_def pool1_def
        pinInstanceType_def listKarpenter_def overlap_def smallType_reqs label_keys Let_def)
    ultimately show ?thesis by (simp add: selectInstanceType_def aClass_types)
  qed
  let ?A' = "pendingClaim listKarpenter smallType ''b1'' ?A"
  obtain b where A': "Create listKarpenter trivialOps (aKube [?A] [?n]) aProvider (\<lambda>ch b. Inr (ackResult ''b1'')) (Some ?A)
        NewNodeBatcher = (Inr ?A', b)"
  proof -
    obtain ch b where "Enqueue (nc_UID ?A) (addRequest aProvider smallType ?A) NewNodeBatcher = (ch, b)" by fastforce
    moreover have "nc_Annotations ?A = Map.empty" by (simp add: anyClaim_def zeroNodeClaim_def)
    ultimately show thesis using that [of b]
      by (simp add: Create_def selA ackResult_def Let_def)
  qed
  have bound: "Reconcile_npid (aKube [?A', adoptedWorker workerID] [?n]) (\<lambda>_. Patched) ?A' =
      (Finished, Some (?A'\<lparr>nc_ProviderID := workerID\<rparr>))"
  proof -
    have labs: "lookup (nc_Labels ?A') NodePoolLabelKey = ''p1''" "lookup (nc_Labels ?A') LabelInstanceTypeStable = ''small''"
      "nc_ProviderID ?A' = PendingProviderIDPrefix @ ''a''" "nc_DeletionTimestamp ?A' = None" "nc_CreationTimestamp ?A' = 0"
      by (simp_all add: pendingClaim_def anyClaim_def zeroNodeClaim_def requirementsToLabels_def
        smallType_reqs listKarpenter_def lookup_def label_keys Let_def)
    then have sku: "''small'' \<in> NodeClaimSKUs ?A'" by (simp add: NodeClaimSKUs_def)
    have "nc_ProviderID (adoptedWorker workerID) = []"
      by (simp add: adoptedWorker_def adoptedNodeClaim_def adoptWorld_def zeroNodeClaim_def)
    then have used: "realIDs [?A', adoptedWorker workerID] = {}" by (auto simp: realIDs_def labs)
    have n: "matchingLabel nodepoolNameLabel ''p1'' [?n] = [?n]" "nd_ProviderID ?n = workerID" "nd_CreationTimestamp ?n = 5"
      by (simp_all add: matchingLabel_def worker_def label_keys)
    have "reconcileFinds (aKube [?A', adoptedWorker workerID] [?n]) ?A' = Inr workerID"
      unfolding reconcileFinds_def labs Let_def using sku worker_ids(2)
      by (auto simp: aKube_def n used worker_adoptable labs)
    then show ?thesis using sku worker_ids(2) by (auto simp: Reconcile_npid_def labs Let_def)
  qed
  have B': "Create listKarpenter trivialOps (aKube [?A'\<lparr>nc_ProviderID := workerID\<rparr>, adoptedWorker workerID] [?n]) aProvider (\<lambda>ch b. Inl ContextDone)
        (Some ?B) b = (Inr (adoptedClaim listKarpenter smallType workerID ?B), b)"
    by (simp add: Create_def selB adopted_id Let_def worker_ids)
  have ids: "nc_UID ?A' = ''a''" "nc_ProviderID (adoptedClaim listKarpenter smallType workerID ?B) = workerID"
    "nc_UID (adoptedClaim listKarpenter smallType workerID ?B) = ''b''" "isReal workerID"
    using worker_ids by (simp_all add: pendingClaim_def anyClaim_def zeroNodeClaim_def adoptedClaim_def isReal_def Let_def)
  show ?thesis unfolding Let_def
    using st A' bound B' ids by (intro exI conjI) (assumption | simp)+
qed

text \<open>
  A node created again under an old name, whose provider ID is still empty, is adopted although a
  claim already holds the ID that is built for it: the built ID is not compared with the claimed ones.
\<close>

theorem recreated_node_adopted_again:
  "\<exists>st. Reconcile_adoption listKarpenter adoptWorld (aKube [anyClaim ''old'' ''p1'' workerID] [worker []]) pool1
       = (RequeueAfter resyncInterval, st) \<and> as_created st = [adoptedWorker []] \<and>
     lookup (nc_Annotations (adoptedWorker [])) AdoptedProviderIDAnnotationKey = workerID \<and>
     workerID \<in> claimedIDs [anyClaim ''old'' ''p1'' workerID]"
proof -
  have "poolPending ''p1'' [anyClaim ''old'' ''p1'' workerID] = []"
    using worker_ids by (simp add: poolPending_def anyClaim_def)
  moreover have "workerID \<in> claimedIDs [anyClaim ''old'' ''p1'' workerID]"
    using worker_ids by (auto simp: claimedIDs_def claimIDs_def anyClaim_def Let_def)
  ultimately show ?thesis
    using worker_taken [of "[]" "[anyClaim ''old'' ''p1'' workerID]"] adopted_id [of "[]"] by simp
qed

end
