(* ===== verification/Headroom_Config.thy ===== *)
theory Headroom_Config
  imports Kube_Model "HOL-Library.List_Lexorder" "HOL-Library.Char_ord"
begin

text \<open>
  The headroom policy, \<^verbatim>\<open>pkg/controllers/headroom/config.go\<close>: parsing one ConfigMap into pool
  policies. The YAML decoder, \<^verbatim>\<open>strconv.ParseFloat\<close> and quantities are parameters. The data of a
  ConfigMap is an association list in the order the map iteration happens to have.
\<close>

section \<open>Data\<close>

definition defaultPodCPU :: string where "defaultPodCPU = ''500m''"
definition defaultPodMemory :: string where "defaultPodMemory = ''512Mi''"
definition minPodCPU :: string where "minPodCPU = ''1m''"
definition minPodMemory :: string where "minPodMemory = ''1Mi''"
definition wellKnownKeys :: "string list" where "wellKnownKeys = [''policy'', ''config'']"

record toleration =
  tol_Key :: string
  tol_Operator :: string
  tol_Value :: string
  tol_Effect :: string

record poolPolicyYAML =
  py_Name :: string
  py_CPU :: string
  py_Memory :: string
  py_PodCPU :: string
  py_PodMemory :: string
  py_GPU :: string
  py_PodGPU :: string
  py_MinPods :: int
  py_Tolerations :: "toleration list"

record 'q parsedPoolPolicy =
  pp_Name :: string
  pp_CPU :: float64
  pp_Memory :: float64
  pp_GPU :: float64
  pp_PodCPU :: 'q
  pp_PodMemory :: 'q
  pp_PodGPU :: 'q
  pp_MinPods :: int
  pp_Tolerations :: "toleration list"

record 'q parsers =
  ps_Yaml :: "string \<Rightarrow> poolPolicyYAML list result"
  ps_Float :: "string \<Rightarrow> float64 result"
  ps_Quantity :: "'q quantityOps"

section \<open>Fields\<close>

definition trimSuffix :: "string \<Rightarrow> string \<Rightarrow> string" where
  "trimSuffix s p = (if hasPrefix (rev s) (rev p) then take (length s - length p) s else s)"

definition parsePercent :: "'q parsers \<Rightarrow> string \<Rightarrow> float64 result" where
  "parsePercent ps s0 =
     (let s1 = trimSpace s0 in
      if s1 = [] then Inr (Fin 0)
      else
        (let s = trimSuffix s1 ''%'' in
         case ps_Float ps (trimSpace s) of
           Inl e \<Rightarrow> Inl (Wrapf ''invalid percent %q: %w'' [s] e)
         | Inr v \<Rightarrow>
             (if v < Fin 0 \<or> Fin 100 < v
              then Inl (Errorf ''percent %q out of range [0, 100]'' [s])
              else Inr (fdivc v 100))))"

definition parseQuantity :: "'q parsers \<Rightarrow> string \<Rightarrow> string \<Rightarrow> 'q result" where
  "parseQuantity ps s0 def =
     (let s1 = trimSpace s0; s = (if s1 = [] then def else s1) in
      if s = [] then Inr (qo_Zero (ps_Quantity ps))
      else wrapError ''invalid quantity %q: %w'' [s] (qo_Parse (ps_Quantity ps) s))"

definition validOperator :: "string \<Rightarrow> bool" where
  "validOperator s \<longleftrightarrow> s \<in> {'''', ''Exists'', ''Equal''}"

definition validEffect :: "string \<Rightarrow> bool" where
  "validEffect s \<longleftrightarrow> s \<in> {'''', ''NoSchedule'', ''PreferNoSchedule'', ''NoExecute''}"

text \<open>The index of an entry is only part of the message.\<close>

fun parseTolerations :: "toleration list \<Rightarrow> toleration list result" where
  "parseTolerations [] = Inr []"
| "parseTolerations (t # ts) =
     (if \<not> validOperator (tol_Operator t)
      then Inl (Errorf ''entry %d: invalid operator %q'' [tol_Operator t])
      else if \<not> validEffect (tol_Effect t)
      then Inl (Errorf ''entry %d: invalid effect %q'' [tol_Effect t])
      else andThen (parseTolerations ts) (\<lambda>rest. Inr (t # rest)))"

section \<open>Pools\<close>

text \<open>The body of the loop over the pools, for one entry with a name not seen before.\<close>

definition parsePool :: "'q parsers \<Rightarrow> poolPolicyYAML \<Rightarrow> 'q parsedPoolPolicy result" where
  "parsePool ps p =
     (let qo = ps_Quantity ps; n = py_Name p in
      andThen (wrapError ''pool %q cpu: %w'' [n] (parsePercent ps (py_CPU p))) (\<lambda>cpu.
      andThen (wrapError ''pool %q memory: %w'' [n] (parsePercent ps (py_Memory p))) (\<lambda>mem.
      andThen (if py_GPU p \<noteq> [] then wrapError ''pool %q gpu: %w'' [n] (parsePercent ps (py_GPU p))
               else Inr (Fin 0)) (\<lambda>gpu.
      andThen (wrapError ''pool %q podCPU: %w'' [n] (parseQuantity ps (py_PodCPU p) defaultPodCPU)) (\<lambda>podCPU.
      if qo_Cmp qo podCPU (mustParse qo minPodCPU) < 0
      then Inl (Errorf ''pool %q podCPU: must be >= %s, got %q'' [n, minPodCPU, qo_String qo podCPU])
      else
      andThen (wrapError ''pool %q podMemory: %w'' [n] (parseQuantity ps (py_PodMemory p) defaultPodMemory)) (\<lambda>podMem.
      if qo_Cmp qo podMem (mustParse qo minPodMemory) < 0
      then Inl (Errorf ''pool %q podMemory: must be >= %s, got %q'' [n, minPodMemory, qo_String qo podMem])
      else
      andThen (wrapError ''pool %q podGPU: %w'' [n] (parseQuantity ps (py_PodGPU p) [])) (\<lambda>podGPU.
      if qo_Sign qo podGPU < 0
      then Inl (Errorf ''pool %q podGPU: must be >= 0, got %q'' [n, qo_String qo podGPU])
      else if py_MinPods p < 0
      then Inl (Errorf ''pool %q minPods: must be >= 0, got %d'' [n])
      else
      andThen (wrapError ''pool %q tolerations: %w'' [n] (parseTolerations (py_Tolerations p))) (\<lambda>tols.
      Inr \<lparr>pp_Name = n, pp_CPU = cpu, pp_Memory = mem, pp_GPU = gpu, pp_PodCPU = podCPU,
           pp_PodMemory = podMem, pp_PodGPU = podGPU, pp_MinPods = py_MinPods p,
           pp_Tolerations = tols\<rparr>))))))))"

fun parsePools :: "'q parsers \<Rightarrow> string set \<Rightarrow> poolPolicyYAML list \<Rightarrow> 'q parsedPoolPolicy list result" where
  "parsePools ps seen [] = Inr []"
| "parsePools ps seen (p # rest) =
     (if py_Name p = [] then parsePools ps seen rest
      else if py_Name p \<in> seen
      then Inl (Errorf ''pool %q: duplicate pool name'' [py_Name p])
      else
        andThen (parsePool ps p) (\<lambda>parsed.
        andThen (parsePools ps (insert (py_Name p) seen) rest) (\<lambda>out. Inr (parsed # out))))"

definition unmarshalPools :: "'q parsers \<Rightarrow> string \<Rightarrow> 'q parsedPoolPolicy list result" where
  "unmarshalPools ps data = andThen (ps_Yaml ps data) (parsePools ps {})"

section \<open>The ConfigMap\<close>

definition isWellKnownKey :: "string \<Rightarrow> bool" where
  "isWellKnownKey key \<longleftrightarrow> key \<in> set wellKnownKeys"

definition candidateKeys :: "(string \<times> string) list \<Rightarrow> string list" where
  "candidateKeys data =
     filter (\<lambda>key. key \<in> fst ` set data) wellKnownKeys
     @ sort (filter (\<lambda>key. \<not> isWellKnownKey key) (map fst data))"

text \<open>The scan: the pools found so far, and the errors.\<close>

definition scanKey ::
  "'q parsers \<Rightarrow> (string \<times> string) list \<Rightarrow> string \<Rightarrow> 'q parsedPoolPolicy list option \<times> gerror list \<Rightarrow>
   'q parsedPoolPolicy list option \<times> gerror list" where
  "scanKey ps data key = (\<lambda>(pools, errs).
     case unmarshalPools ps (case map_of data key of None \<Rightarrow> [] | Some d \<Rightarrow> d) of
       Inl e \<Rightarrow> (pools, errs @ [Wrapf ''key %q: %w'' [key] e])
     | Inr got \<Rightarrow>
         (if got = [] then (pools, errs)
          else (case pools of None \<Rightarrow> (Some got, errs) | Some ps \<Rightarrow> (pools, errs))))"

definition parseHeadroomConfig ::
  "'q parsers \<Rightarrow> (string \<times> string) list \<Rightarrow> 'q parsedPoolPolicy list result" where
  "parseHeadroomConfig ps data =
     (case fold (scanKey ps data) (candidateKeys data) (None, []) of
        (Some pools, errs) \<Rightarrow> Inr pools
      | (None, errs) \<Rightarrow>
          (if errs \<noteq> []
           then Inl (Wrapf ''configmap %s/%s: no data key yields a valid pools list: %w'' [] (Joined errs))
           else Inr []))"

section \<open>What parsing guarantees\<close>

text \<open>A percentage is a fraction in the unit interval, or not a number.\<close>

definition fraction_ok :: "float64 \<Rightarrow> bool" where
  "fraction_ok v \<longleftrightarrow> v = NaN \<or> (\<exists>y. v = Fin y \<and> 0 \<le> y \<and> y \<le> 1)"

lemma parsePercent_range:
  assumes "parsePercent ps s = Inr v"
  shows "fraction_ok v"
proof (cases "trimSpace s = []")
  case True
  with assms show ?thesis by (auto simp: parsePercent_def fraction_ok_def)
next
  case False
  with assms obtain w where w: "\<not> w < Fin 0" "\<not> Fin 100 < w" "v = fdivc w 100"
    by (auto simp: parsePercent_def Let_def split: sum.splits if_splits)
  show ?thesis
  proof (cases w)
    case (Fin x)
    with w fround_unit [of "x / 100"] show ?thesis by (simp add: fraction_ok_def)
  qed (use w in \<open>auto simp: fraction_ok_def split: if_splits\<close>)
qed

definition policy_ok :: "'q quantityOps \<Rightarrow> 'q parsedPoolPolicy \<Rightarrow> bool" where
  "policy_ok qo p \<longleftrightarrow> pp_Name p \<noteq> [] \<and> fraction_ok (pp_CPU p) \<and> fraction_ok (pp_Memory p) \<and>
     fraction_ok (pp_GPU p) \<and> \<not> qo_Cmp qo (pp_PodCPU p) (mustParse qo minPodCPU) < 0 \<and>
     \<not> qo_Cmp qo (pp_PodMemory p) (mustParse qo minPodMemory) < 0 \<and> \<not> qo_Sign qo (pp_PodGPU p) < 0 \<and>
     0 \<le> pp_MinPods p \<and>
     (\<forall>t \<in> set (pp_Tolerations p). validOperator (tol_Operator t) \<and> validEffect (tol_Effect t))"

lemma parseTolerations_Inr:
  "parseTolerations ts = Inr us \<Longrightarrow>
   us = ts \<and> (\<forall>t \<in> set ts. validOperator (tol_Operator t) \<and> validEffect (tol_Effect t))"
  by (induction ts arbitrary: us) (auto split: if_splits simp: andThen_Inr)

lemma parsePool_Inr:
  assumes "parsePool ps p = Inr q" and "py_Name p \<noteq> []"
  shows "pp_Name q = py_Name p \<and> policy_ok (ps_Quantity ps) q"
proof -
  have zero: "fraction_ok (Fin 0)" by (simp add: fraction_ok_def)
  from assms(1) obtain cpu mem gpu podCPU podMem podGPU tols where
    pc: "parsePercent ps (py_CPU p) = Inr cpu" "parsePercent ps (py_Memory p) = Inr mem"
    "(if py_GPU p \<noteq> [] then parsePercent ps (py_GPU p) else Inr (Fin 0)) = Inr gpu"
    and tl: "parseTolerations (py_Tolerations p) = Inr tols"
    and bounds: "\<not> qo_Cmp (ps_Quantity ps) podCPU (mustParse (ps_Quantity ps) minPodCPU) < 0"
    "\<not> qo_Cmp (ps_Quantity ps) podMem (mustParse (ps_Quantity ps) minPodMemory) < 0"
    "\<not> qo_Sign (ps_Quantity ps) podGPU < 0" "\<not> py_MinPods p < 0"
    and q: "q = \<lparr>pp_Name = py_Name p, pp_CPU = cpu, pp_Memory = mem, pp_GPU = gpu, pp_PodCPU = podCPU,
       pp_PodMemory = podMem, pp_PodGPU = podGPU, pp_MinPods = py_MinPods p, pp_Tolerations = tols\<rparr>"
    unfolding parsePool_def Let_def by (auto simp: andThen_Inr wrapError_Inr split: if_splits)
  have "fraction_ok gpu" using pc(3) zero parsePercent_range by (auto split: if_splits)
  moreover note parsePercent_range [OF pc(1)] parsePercent_range [OF pc(2)] parseTolerations_Inr [OF tl]
  ultimately show ?thesis using bounds assms(2) unfolding q policy_ok_def by simp
qed

lemma parsePools_Inr:
  "parsePools ps seen raw = Inr out \<Longrightarrow>
   (\<forall>q \<in> set out. policy_ok (ps_Quantity ps) q) \<and> distinct (map pp_Name out) \<and>
   set (map pp_Name out) \<inter> seen = {} \<and> map pp_Name out = filter (\<lambda>n. n \<noteq> []) (map py_Name raw)"
proof (induction ps seen raw arbitrary: out rule: parsePools.induct)
  case (2 ps seen p rest)
  show ?case
  proof (cases "py_Name p = [] \<or> py_Name p \<in> seen")
    case True
    with 2 show ?thesis by (auto split: if_splits)
  next
    case False
    with "2.prems" obtain q out' where q: "parsePool ps p = Inr q"
      "parsePools ps (insert (py_Name p) seen) rest = Inr out'" "out = q # out'"
      by (auto simp: andThen_Inr)
    from False parsePool_Inr [OF q(1)] have h: "pp_Name q = py_Name p" "policy_ok (ps_Quantity ps) q" by auto
    have t: "\<forall>q \<in> set out'. policy_ok (ps_Quantity ps) q" "distinct (map pp_Name out')"
        "set (map pp_Name out') \<inter> insert (py_Name p) seen = {}"
        "map pp_Name out' = filter (\<lambda>n. n \<noteq> []) (map py_Name rest)"
      using "2.IH"(2) q False by blast+
    from t(3) have d: "py_Name p \<notin> set (map pp_Name out')" "set (map pp_Name out') \<inter> seen = {}" by blast+
    show ?thesis unfolding q(3)
    proof (intro conjI)
      show "\<forall>q \<in> set (q # out'). policy_ok (ps_Quantity ps) q" using t(1) h(2) by simp
      show "distinct (map pp_Name (q # out'))" using t(2) d(1) h(1) by simp
      show "set (map pp_Name (q # out')) \<inter> seen = {}" using d(2) h(1) False by auto
      show "map pp_Name (q # out') = filter (\<lambda>n. n \<noteq> []) (map py_Name (p # rest))" using t(4) h(1) False by simp
    qed
  qed
qed simp

end
