(* ===== verification/Headroom.thy ===== *)
theory Headroom
  imports Headroom_Config
begin

text \<open>
  The headroom controller, \<^verbatim>\<open>pkg/controllers/headroom/controller.go\<close>: the replica computation
  in \<^verbatim>\<open>float64\<close> and \<^verbatim>\<open>int64\<close>, and one full sync as a function of the cluster's
  headroom objects. API failures are choices of the environment.
\<close>

definition headroomLabel :: string where "headroomLabel = ''rafay.io/headroom''"
definition headroomPoolLabel :: string where "headroomPoolLabel = ''rafay.io/headroom-pool''"
definition karpenterNodePoolLabel :: string where "karpenterNodePoolLabel = ''karpenter.sh/nodepool''"
definition pauseImage :: string where "pauseImage = ''registry.k8s.io/pause:3.9''"
definition priorityClassName :: string where "priorityClassName = ''rafay-headroom''"
definition priorityValue :: int where "priorityValue = - 1000"
definition maxHeadroomReplicas :: int where "maxHeadroomReplicas = 5000"
definition resyncInterval_headroom :: int where "resyncInterval_headroom = 5 * 60 * second"
definition gpuResourceNames :: "string list" where
  "gpuResourceNames = [''nvidia.com/gpu'', ''amd.com/gpu'']"
definition cpuName :: string where "cpuName = ''cpu''"
definition memoryName :: string where "memoryName = ''memory''"

section \<open>Ready nodes and their resources\<close>

fun isNodeReady_conds :: "(string \<times> string) list \<Rightarrow> bool" where
  "isNodeReady_conds [] \<longleftrightarrow> False"
| "isNodeReady_conds ((ty, st) # cs) \<longleftrightarrow> (if ty = ''Ready'' then st = ''True'' else isNodeReady_conds cs)"

definition isNodeReady :: "'q Node \<Rightarrow> bool" where
  "isNodeReady n \<longleftrightarrow> isNodeReady_conds (nd_Conditions n)"

definition filterReady :: "'q Node list \<Rightarrow> 'q Node list" where
  "filterReady nodes = filter isNodeReady nodes"

text \<open>Two's complement \<^verbatim>\<open>int64\<close> addition.\<close>

definition int64 :: "int \<Rightarrow> int" where
  "int64 x = (x + 2 ^ 63) mod 2 ^ 64 - 2 ^ 63"

record poolAllocatable =
  pa_cpuMilli :: int
  pa_memBytes :: int
  pa_gpu :: int
  pa_gpuKey :: string

definition resourceOr0 :: "'q quantityOps \<Rightarrow> (string \<rightharpoonup> 'q) \<Rightarrow> string \<Rightarrow> 'q" where
  "resourceOr0 qo alloc key = (case alloc key of None \<Rightarrow> qo_Zero qo | Some q \<Rightarrow> q)"

definition addGpu :: "'q quantityOps \<Rightarrow> (string \<rightharpoonup> 'q) \<Rightarrow> string \<Rightarrow> poolAllocatable \<Rightarrow> poolAllocatable" where
  "addGpu qo alloc key tot =
     (case alloc key of
        None \<Rightarrow> tot
      | Some q \<Rightarrow> if qo_IsZero qo q then tot
          else tot\<lparr>pa_gpu := int64 (pa_gpu tot + qo_Value qo q), pa_gpuKey := key\<rparr>)"

definition addNode :: "'q quantityOps \<Rightarrow> 'q Node \<Rightarrow> poolAllocatable \<Rightarrow> poolAllocatable" where
  "addNode qo n tot =
     (let alloc = nd_Allocatable n;
          t1 = tot\<lparr>pa_cpuMilli := int64 (pa_cpuMilli tot + qo_MilliValue qo (resourceOr0 qo alloc cpuName)),
                     pa_memBytes := int64 (pa_memBytes tot + qo_Value qo (resourceOr0 qo alloc memoryName))\<rparr>
      in fold (addGpu qo alloc) gpuResourceNames t1)"

definition sumAllocatable :: "'q quantityOps \<Rightarrow> 'q Node list \<Rightarrow> poolAllocatable" where
  "sumAllocatable qo nodes =
     fold (addNode qo) nodes \<lparr>pa_cpuMilli = 0, pa_memBytes = 0, pa_gpu = 0, pa_gpuKey = []\<rparr>"

section \<open>Replicas\<close>

definition toFloat :: "int \<Rightarrow> float64" where
  "toFloat i = fround (of_int i)"

text \<open>\<^verbatim>\<open>float64(perPod)\<close> is not zero when \<^verbatim>\<open>perPod\<close> is positive.\<close>

definition fdivi :: "float64 \<Rightarrow> int \<Rightarrow> float64" where
  "fdivi x k = (case toFloat k of Fin c \<Rightarrow> fdivc x c | _ \<Rightarrow> NaN)"

text \<open>\<^verbatim>\<open>math.Ceil\<close>; infinities and not-a-number are kept.\<close>

fun fceil :: "float64 \<Rightarrow> float64" where
  "fceil (Fin x) = Fin (of_int \<lceil>x\<rceil>)"
| "fceil v = v"

text \<open>
  The conversion \<^verbatim>\<open>int64(n)\<close> of a value the guards leave: finite and at most the cap. Any other
  conversion is unspecified in Go; the fallback is never reached from a finite buffer.
\<close>

definition ceilDiv :: "float64 \<Rightarrow> int \<Rightarrow> int" where
  "ceilDiv buffer perPod =
     (if perPod \<le> 0 \<or> buffer \<le> Fin 0 then 0
      else
        (let n = fceil (fdivi buffer perPod) in
         if Fin (of_int maxHeadroomReplicas) < n then maxHeadroomReplicas
         else (case n of Fin x \<Rightarrow> \<lfloor>x\<rfloor> | _ \<Rightarrow> 0)))"

definition desiredReplicas :: "'q quantityOps \<Rightarrow> 'q parsedPoolPolicy \<Rightarrow> poolAllocatable \<Rightarrow> int \<Rightarrow> int" where
  "desiredReplicas qo pool tot readyNodes =
     (let n1 = (if readyNodes > 0 \<and> Fin 0 < pp_CPU pool
                then max 0 (ceilDiv (fmul (toFloat (pa_cpuMilli tot)) (pp_CPU pool)) (qo_MilliValue qo (pp_PodCPU pool)))
                else 0);
          n2 = (if readyNodes > 0 \<and> Fin 0 < pp_Memory pool
                then max n1 (ceilDiv (fmul (toFloat (pa_memBytes tot)) (pp_Memory pool)) (qo_Value qo (pp_PodMemory pool)))
                else n1);
          n3 = (if readyNodes > 0 \<and> Fin 0 < pp_GPU pool \<and> \<not> qo_IsZero qo (pp_PodGPU pool)
                then max n2 (ceilDiv (fmul (toFloat (pa_gpu tot)) (pp_GPU pool)) (qo_Value qo (pp_PodGPU pool)))
                else n2);
          n4 = max n3 (pp_MinPods pool);
          n5 = (if n4 < 0 then 0 else n4)
      in if n5 > maxHeadroomReplicas then maxHeadroomReplicas else n5)"

definition perPodRequests :: "'q quantityOps \<Rightarrow> 'q parsedPoolPolicy \<Rightarrow> string \<Rightarrow> (string \<rightharpoonup> 'q)" where
  "perPodRequests qo pool gpuKey =
     (let reqs = [cpuName \<mapsto> pp_PodCPU pool, memoryName \<mapsto> pp_PodMemory pool]
      in if \<not> qo_IsZero qo (pp_PodGPU pool) \<and> gpuKey \<noteq> [] then reqs(gpuKey \<mapsto> pp_PodGPU pool) else reqs)"

section \<open>The Deployment\<close>

text \<open>\<open>ctr_Defaults\<close> and \<open>dep_Defaults\<close> stand for the fields this controller never writes.\<close>

record 'q container =
  ctr_Name :: string
  ctr_Image :: string
  ctr_PullPolicy :: string
  ctr_Requests :: "string \<rightharpoonup> 'q"
  ctr_Limits :: "string \<rightharpoonup> 'q"
  ctr_Defaults :: string

record 'q deployment =
  dep_Name :: string
  dep_Labels :: labels
  dep_Selector :: "labels option"
  dep_Replicas :: "int option"
  dep_TmplLabels :: labels
  dep_PriorityClass :: string
  dep_Preemption :: "string option"
  dep_Grace :: "int option"
  dep_NodeSelector :: labels
  dep_Tolerations :: "toleration list"
  dep_Spread :: "(int \<times> string \<times> string \<times> labels) list"
  dep_Containers :: "'q container list"
  dep_Defaults :: string

definition zeroContainer :: "'q container" where
  "zeroContainer = \<lparr>ctr_Name = [], ctr_Image = [], ctr_PullPolicy = [], ctr_Requests = Map.empty,
     ctr_Limits = Map.empty, ctr_Defaults = []\<rparr>"

definition zeroDeployment :: "string \<Rightarrow> 'q deployment" where
  "zeroDeployment name = \<lparr>dep_Name = name, dep_Labels = Map.empty, dep_Selector = None,
     dep_Replicas = None, dep_TmplLabels = Map.empty, dep_PriorityClass = [], dep_Preemption = None,
     dep_Grace = None, dep_NodeSelector = Map.empty, dep_Tolerations = [], dep_Spread = [],
     dep_Containers = [], dep_Defaults = []\<rparr>"

definition deploymentName :: "string \<Rightarrow> string" where
  "deploymentName poolName = ''headroom-'' @ poolName"

definition podLabels :: "string \<Rightarrow> labels" where
  "podLabels pool = [headroomLabel \<mapsto> ''true'', headroomPoolLabel \<mapsto> pool]"

definition mutateContainer :: "(string \<rightharpoonup> 'q) \<Rightarrow> 'q container \<Rightarrow> 'q container" where
  "mutateContainer requests c =
     c\<lparr>ctr_Name := ''pause'', ctr_Image := pauseImage, ctr_PullPolicy := ''IfNotPresent'',
       ctr_Requests := requests, ctr_Limits := requests\<rparr>"

text \<open>The function \<^verbatim>\<open>CreateOrUpdate\<close> applies to the fetched or the empty object.\<close>

definition mutateDeployment ::
  "'q parsedPoolPolicy \<Rightarrow> int \<Rightarrow> (string \<rightharpoonup> 'q) \<Rightarrow> 'q deployment \<Rightarrow> 'q deployment" where
  "mutateDeployment pool replicas requests dep =
     (let n = pp_Name pool;
          cs = (if length (dep_Containers dep) \<noteq> 1 then [zeroContainer] else dep_Containers dep)
      in dep\<lparr>dep_Labels := podLabels n,
             dep_Selector := (case dep_Selector dep of None \<Rightarrow> Some (podLabels n) | Some s \<Rightarrow> Some s),
             dep_Replicas := Some replicas, dep_TmplLabels := podLabels n,
             dep_PriorityClass := priorityClassName, dep_Preemption := Some ''Never'',
             dep_Grace := Some 0, dep_NodeSelector := [karpenterNodePoolLabel \<mapsto> n],
             dep_Tolerations := pp_Tolerations pool,
             dep_Spread := [(1, ''kubernetes.io/hostname'', ''ScheduleAnyway'', [headroomPoolLabel \<mapsto> n])],
             dep_Containers := [mutateContainer requests (hd cs)]\<rparr>)"

section \<open>The sync\<close>

record pod =
  pod_Name :: string
  pod_Labels :: labels
  pod_Owners :: "string list"

text \<open>The objects in the pod namespace, and the PriorityClass: its value and its policy.\<close>

record 'q cluster =
  cl_deployments :: "'q deployment list"
  cl_pods :: "pod list"
  cl_priorityClass :: "(int \<times> string option) option"

text \<open>
  What the API answers: the ConfigMap (\<open>None\<close> when not found), the nodes of a pool, and the errors
  of writes and lists. \<open>he_createClassErr\<close> is an error of the creation other than that the class
  exists. The namespace of the pods is a field of the controller.
\<close>

record 'q henv =
  he_configMap :: "(string \<times> string) list option result"
  he_nodes :: "string \<Rightarrow> 'q Node list result"
  he_applyErr :: "string \<Rightarrow> gerror option"
  he_listPodsErr :: "gerror option"
  he_listDeploymentsErr :: "gerror option"
  he_deleteFails :: "string \<Rightarrow> bool"
  he_createClassErr :: "gerror option"
  he_getClassErr :: "gerror option"
  he_podNamespace :: string

text \<open>
  The check of an existing class: the error of reading it, and the warnings, each with the format and
  the values in it. The class is its value and its preemption policy.
\<close>

type_synonym classWarning = "string \<times> int \<times> string"

definition checkPriorityClassDrift ::
  "gerror option \<Rightarrow> int \<times> string option \<Rightarrow> gerror option \<times> classWarning list" where
  "checkPriorityClassDrift getErr existing =
     (case getErr of
        Some e \<Rightarrow> (Some (Wrapf ''get existing PriorityClass %q: %w'' [priorityClassName] e), [])
      | None \<Rightarrow> (None,
          (if fst existing \<noteq> priorityValue then [(''value'', fst existing, [])] else []) @
          (if snd existing = None \<or> snd existing \<noteq> Some ''Never''
           then [(''preemptionPolicy'', 0, case snd existing of None \<Rightarrow> [] | Some p \<Rightarrow> p)] else [])))"

text \<open>
  The creation comes first and fails when the class exists. The result is the error and the warnings,
  which the sync only logs.
\<close>

definition ensurePriorityClass ::
  "'q henv \<Rightarrow> 'q cluster \<Rightarrow> (gerror option \<times> classWarning list) \<times> 'q cluster" where
  "ensurePriorityClass env c =
     (case he_createClassErr env of
        Some e \<Rightarrow> ((Some e, []), c)
      | None \<Rightarrow> (case cl_priorityClass c of
          Some existing \<Rightarrow> (checkPriorityClassDrift (he_getClassErr env) existing, c)
        | None \<Rightarrow> ((None, []), c\<lparr>cl_priorityClass := Some (priorityValue, Some ''Never'')\<rparr>)))"

definition loadPools :: "'q parsers \<Rightarrow> 'q henv \<Rightarrow> 'q parsedPoolPolicy list result" where
  "loadPools ps env =
     andThen (he_configMap env) (\<lambda>cm. case cm of None \<Rightarrow> Inr [] | Some data \<Rightarrow> parseHeadroomConfig ps data)"

definition applyDeployment :: "'q deployment \<Rightarrow> ('q deployment \<Rightarrow> 'q deployment) \<Rightarrow> 'q cluster \<Rightarrow> 'q cluster" where
  "applyDeployment zero f c =
     (if \<exists>d \<in> set (cl_deployments c). dep_Name d = dep_Name zero
      then c\<lparr>cl_deployments := map (\<lambda>d. if dep_Name d = dep_Name zero then f d else d) (cl_deployments c)\<rparr>
      else c\<lparr>cl_deployments := cl_deployments c @ [f zero]\<rparr>)"

definition reconcilePool ::
  "'q quantityOps \<Rightarrow> 'q henv \<Rightarrow> 'q parsedPoolPolicy \<Rightarrow> 'q cluster \<Rightarrow> gerror option \<times> 'q cluster" where
  "reconcilePool qo env pool c =
     (case he_nodes env (pp_Name pool) of
        Inl e \<Rightarrow> (Some (Wrapf ''list nodes: %w'' [] e), c)
      | Inr nodes \<Rightarrow>
          (let ready = filterReady nodes; tot = sumAllocatable qo ready;
               replicas = desiredReplicas qo pool tot (int (length ready));
               requests = perPodRequests qo pool (pa_gpuKey tot);
               name = deploymentName (pp_Name pool)
           in case he_applyErr env name of
                Some e \<Rightarrow> (Some (Wrapf ''apply deployment %s/%s: %w'' [he_podNamespace env, name] e), c)
              | None \<Rightarrow> (None, applyDeployment (zeroDeployment name) (mutateDeployment pool replicas requests) c)))"

fun reconcilePools ::
  "'q quantityOps \<Rightarrow> 'q henv \<Rightarrow> 'q parsedPoolPolicy list \<Rightarrow> 'q cluster \<Rightarrow> gerror list \<times> 'q cluster" where
  "reconcilePools qo env [] c = ([], c)"
| "reconcilePools qo env (pool # pools) c =
     (case reconcilePool qo env pool c of
        (e, c1) \<Rightarrow> (case reconcilePools qo env pools c1 of
           (es, c2) \<Rightarrow> ((case e of None \<Rightarrow> es | Some e' \<Rightarrow> Wrapf ''pool %q: %w'' [pp_Name pool] e' # es), c2)))"

definition cleanupLegacyPods :: "'q henv \<Rightarrow> 'q cluster \<Rightarrow> gerror list \<times> 'q cluster" where
  "cleanupLegacyPods env c =
     (case he_listPodsErr env of
        Some e \<Rightarrow> ([Wrapf ''list headroom pods: %w'' [] e], c)
      | None \<Rightarrow> ([], c\<lparr>cl_pods := filter (\<lambda>p. pod_Labels p headroomLabel \<noteq> Some ''true'' \<or>
          pod_Owners p \<noteq> [] \<or> he_deleteFails env (pod_Name p)) (cl_pods c)\<rparr>))"

definition cleanupStaleDeployments ::
  "'q henv \<Rightarrow> 'q parsedPoolPolicy list \<Rightarrow> 'q cluster \<Rightarrow> gerror list \<times> 'q cluster" where
  "cleanupStaleDeployments env pools c =
     (case he_listDeploymentsErr env of
        Some e \<Rightarrow> ([Wrapf ''list headroom deployments: %w'' [] e], c)
      | None \<Rightarrow> ([], c\<lparr>cl_deployments := filter (\<lambda>d. dep_Labels d headroomLabel \<noteq> Some ''true'' \<or>
          lookup (dep_Labels d) headroomPoolLabel \<in> pp_Name ` set pools \<or>
          he_deleteFails env (dep_Name d)) (cl_deployments c)\<rparr>))"

definition Reconcile_headroom :: "'q parsers \<Rightarrow> 'q henv \<Rightarrow> 'q cluster \<Rightarrow> int result \<times> 'q cluster" where
  "Reconcile_headroom ps env c =
     (let c0 = snd (ensurePriorityClass env c) in
      case loadPools ps env of
        Inl e \<Rightarrow> (Inl (Wrapf ''load config: %w'' [] e), c0)
      | Inr pools \<Rightarrow>
          (let (es1, c1) = reconcilePools (ps_Quantity ps) env pools c0;
               (es2, c2) = cleanupLegacyPods env c1;
               (es3, c3) = cleanupStaleDeployments env pools c2;
               errs = es1 @ es2 @ es3
           in if errs \<noteq> [] then (Inl (Joined errs), c3) else (Inr resyncInterval_headroom, c3)))"

end
