(* ===== verification/Headroom_Properties.thy ===== *)
theory Headroom_Properties
  imports Headroom
begin

text \<open>
  What the headroom controller guarantees: the replica count, the meaning of the policy ConfigMap,
  and what a sync leaves in the cluster.
\<close>

section \<open>A concrete quantity\<close>

text \<open>Quantities in thousandths, with a parser of two numerals, to evaluate examples.\<close>

definition exParse :: "string \<Rightarrow> int result" where
  "exParse s = (if s = ''500m'' then Inr 500 else if s = ''1m'' then Inr 1
     else if s = ''512Mi'' then Inr 512000 else if s = ''1Mi'' then Inr 1000
     else Inl (ExternalError s))"

definition exOps :: "int quantityOps" where
  "exOps = \<lparr>qo_Parse = exParse, qo_Zero = 0, qo_Sign = sgn, qo_IsZero = (\<lambda>q. q = 0),
     qo_Cmp = (\<lambda>a b. sgn (a - b)), qo_Value = (\<lambda>q. q div 1000), qo_MilliValue = (\<lambda>q. q),
     qo_Float = (\<lambda>q. fround (of_int q / 1000)), qo_String = (\<lambda>q. [])\<rparr>"

definition exPolicy :: "int parsedPoolPolicy" where
  "exPolicy = \<lparr>pp_Name = ''p1'', pp_CPU = fdivc (Fin 7) 100, pp_Memory = Fin 0, pp_GPU = Fin 0,
     pp_PodCPU = 500, pp_PodMemory = 512000, pp_PodGPU = 0, pp_MinPods = 2, pp_Tolerations = []\<rparr>"

section \<open>Replicas\<close>

lemma desiredReplicas_form:
  "\<exists>m. 0 \<le> m \<and> (ready \<le> 0 \<longrightarrow> m = 0) \<and>
     desiredReplicas qo pool tot ready = min maxHeadroomReplicas (max m (pp_MinPods pool))"
proof -
  define n1 where "n1 = (if ready > 0 \<and> Fin 0 < pp_CPU pool
    then max 0 (ceilDiv (fmul (toFloat (pa_cpuMilli tot)) (pp_CPU pool)) (qo_MilliValue qo (pp_PodCPU pool)))
    else 0)"
  define n2 where "n2 = (if ready > 0 \<and> Fin 0 < pp_Memory pool
    then max n1 (ceilDiv (fmul (toFloat (pa_memBytes tot)) (pp_Memory pool)) (qo_Value qo (pp_PodMemory pool)))
    else n1)"
  define n3 where "n3 = (if ready > 0 \<and> Fin 0 < pp_GPU pool \<and> \<not> qo_IsZero qo (pp_PodGPU pool)
    then max n2 (ceilDiv (fmul (toFloat (pa_gpu tot)) (pp_GPU pool)) (qo_Value qo (pp_PodGPU pool)))
    else n2)"
  have "0 \<le> n1" by (simp add: n1_def)
  then have "0 \<le> n2" by (simp add: n2_def le_max_iff_disj)
  then have "0 \<le> n3" by (simp add: n3_def le_max_iff_disj)
  moreover have "ready \<le> 0 \<Longrightarrow> n3 = 0" by (simp add: n1_def n2_def n3_def)
  moreover have "desiredReplicas qo pool tot ready =
      (let n4 = max n3 (pp_MinPods pool); n5 = (if n4 < 0 then 0 else n4)
       in if n5 > maxHeadroomReplicas then maxHeadroomReplicas else n5)"
    unfolding desiredReplicas_def n1_def n2_def n3_def Let_def ..
  ultimately show ?thesis by (intro exI [of _ n3]) (auto simp: Let_def)
qed

text \<open>
  C29: The replica count is always usable: whatever the policy, the allocatable totals (overflown,
  negative) and the per-pod sizes are, it lies between 0 and 5000, is at least the configured floor
  up to that cap, and is exactly the floor when no node is ready.
\<close>
theorem replicas_in_range:
  "let n = desiredReplicas qo pool tot ready in
   0 \<le> n \<and> n \<le> maxHeadroomReplicas \<and> min (pp_MinPods pool) maxHeadroomReplicas \<le> n \<and>
   (ready \<le> 0 \<longrightarrow> n = min maxHeadroomReplicas (max 0 (pp_MinPods pool)))"
  using desiredReplicas_form [of ready qo pool tot] by (auto simp: Let_def maxHeadroomReplicas_def)

theorem replicas_in_range_witness:
  "desiredReplicas exOps exPolicy \<lparr>pa_cpuMilli = 0, pa_memBytes = 0, pa_gpu = 0, pa_gpuKey = []\<rparr> 0 = 2"
  using replicas_in_range [of exOps exPolicy "\<lparr>pa_cpuMilli = 0, pa_memBytes = 0, pa_gpu = 0, pa_gpuKey = []\<rparr>" 0]
  by (simp add: Let_def exPolicy_def maxHeadroomReplicas_def)

lemma fceil_cap:
  "ceilDiv (Fin x) k = (if k \<le> 0 \<or> x \<le> 0 then 0 else
     (case fdivi (Fin x) k of Fin y \<Rightarrow> min maxHeadroomReplicas \<lceil>y\<rceil>
      | v \<Rightarrow> (if Fin (of_int maxHeadroomReplicas) < v then maxHeadroomReplicas else 0)))"
proof -
  have le: "Fin x \<le> Fin 0 \<longleftrightarrow> x \<le> 0" by (auto simp: less_eq_float64_def)
  have lt: "Fin (of_int maxHeadroomReplicas) < Fin (of_int i) \<longleftrightarrow> maxHeadroomReplicas < i" for i
    by (simp add: of_int_less_iff)
  show ?thesis
    by (auto simp: ceilDiv_def le Let_def lt min_def split: float64.splits)
qed

text \<open>
  The reserve is big enough, and not one pod too big, up to one rounding: for a positive buffer
  \<open>x\<close> and per-pod size \<open>k\<close> (below 2^53), unless the count is capped, \<open>n\<close> pods of size \<open>k\<close> hold the
  buffer and \<open>n - 1\<close> do not, where the quotient may be off by half a unit in its last place.
\<close>
theorem ceil_div_reserves:
  assumes "0 < x" and k: "0 < k" "k < 2 ^ 53" and "fround (x / of_int k) = Fin y"
    and n: "n = ceilDiv (Fin x) k" "n < maxHeadroomReplicas"
  shows "x / of_int k - ulpOf (x / of_int k) / 2 \<le> of_int n \<and>
    of_int (n - 1) < x / of_int k + ulpOf (x / of_int k) / 2"
proof -
  have "toFloat k = Fin (of_int k)" using fround_int [OF k] by (simp add: toFloat_def)
  then have "fdivi (Fin x) k = Fin y" using assms(4) by (simp add: fdivi_def)
  with assms have ny: "n = \<lceil>y\<rceil>" by (auto simp: fceil_cap)
  have "0 < x / of_int k" using assms(1) k by simp
  then have "\<bar>x / of_int k\<bar> = x / of_int k" by (rule abs_of_pos)
  with fround_error [OF assms(4)] have "\<bar>y - x / of_int k\<bar> \<le> ulpOf (x / of_int k) / 2" by simp
  moreover have "y \<le> of_int n" "of_int (n - 1) < y" unfolding ny by linarith+
  ultimately show ?thesis by linarith
qed

text \<open>The three roundings of the example: 7 / 100, its product with 100000, and the quotient by 500.\<close>

definition r1 :: rat where "r1 = 5044031582654956 / 2 ^ 56"
definition r2 :: rat where "r2 = 7696581394432001 / 2 ^ 40"
definition r3 :: rat where "r3 = 7881299347898369 / 2 ^ 49"

lemma round_1: "fround (7 / 100) = Fin r1"
  using fround_below_one [of 4 "7 / 100" 5044031582654956] by (simp add: r1_def)

lemma round_2: "fround (100000 * r1) = Fin r2"
  using fround_above_one [of 12 "100000 * r1" 7696581394432001] by (simp add: r1_def r2_def)

lemma round_3: "fround (r2 / 500) = Fin r3"
  using fround_above_one [of 3 "r2 / 500" 7881299347898369] by (simp add: r2_def r3_def)

lemma ceiling_r3: "\<lceil>r3\<rceil> = 15"
  unfolding r3_def by (rule ceiling_unique) simp_all

lemma toFloat_500: "toFloat 500 = Fin 500"
  using fround_int [of 500] by (simp add: toFloat_def)

lemma ceilDiv_15: "ceilDiv (Fin r2) 500 = 15"
proof -
  have "fdivi (Fin r2) 500 = Fin r3" by (simp add: fdivi_def toFloat_500 round_3)
  moreover have "\<not> r2 \<le> 0" by (simp add: r2_def)
  ultimately show ?thesis by (simp add: fceil_cap ceiling_r3 maxHeadroomReplicas_def)
qed

theorem ceil_div_reserves_witness:
  "ceilDiv (Fin r2) 500 = 15 \<and> of_int (15 - 1) < r2 / 500 + ulpOf (r2 / 500) / 2"
proof -
  have q: "fround (r2 / of_int 500) = Fin r3" using round_3 by simp
  have p: "0 < r2" by (simp add: r2_def)
  from ceil_div_reserves [OF p _ _ q ceilDiv_15 [symmetric]]
  show ?thesis using ceilDiv_15 by (simp add: maxHeadroomReplicas_def)
qed

text \<open>
  The replica count can exceed the documented formula by one: for 100 cores, a fraction of 7
  percent and pods of 500m, 7 cores make 14 pods, but the product in \<^verbatim>\<open>float64\<close> is just above
  7000 and the controller keeps 15.
\<close>
theorem replicas_rounding_extra_pod:
  "desiredReplicas exOps exPolicy \<lparr>pa_cpuMilli = 100000, pa_memBytes = 0, pa_gpu = 0, pa_gpuKey = []\<rparr> 3 = 15 \<and>
   \<lceil>(7 / 100 * 100000 / 500 :: rat)\<rceil> = 14"
proof
  have t: "toFloat 100000 = Fin 100000" using fround_int [of 100000] by (simp add: toFloat_def)
  have r: "0 < r1" by (simp add: r1_def)
  show "desiredReplicas exOps exPolicy \<lparr>pa_cpuMilli = 100000, pa_memBytes = 0, pa_gpu = 0, pa_gpuKey = []\<rparr> 3 = 15"
    using r ceilDiv_15
    by (simp add: desiredReplicas_def exPolicy_def exOps_def maxHeadroomReplicas_def round_1 round_2 t)
  show "\<lceil>(7 / 100 * 100000 / 500 :: rat)\<rceil> = 14" by simp
qed

end
