(* ===== verification/Headroom_Sync.thy ===== *)
theory Headroom_Sync
  imports Headroom_Properties
begin

text \<open>
  The policy ConfigMap and the sync: which key wins, when an error is returned, and what one full
  sync leaves of the Deployments.
\<close>

section \<open>The scan of the keys\<close>

definition dataAt :: "(string \<times> string) list \<Rightarrow> string \<Rightarrow> string" where
  "dataAt data key = (case map_of data key of None \<Rightarrow> [] | Some d \<Rightarrow> d)"

text \<open>The pools of the first key that has some.\<close>

fun firstPools :: "'q parsers \<Rightarrow> (string \<times> string) list \<Rightarrow> string list \<Rightarrow> 'q parsedPoolPolicy list option" where
  "firstPools ps data [] = None"
| "firstPools ps data (k # ks) =
     (case unmarshalPools ps (dataAt data k) of
        Inr got \<Rightarrow> if got = [] then firstPools ps data ks else Some got
      | Inl e \<Rightarrow> firstPools ps data ks)"

definition badKey :: "'q parsers \<Rightarrow> (string \<times> string) list \<Rightarrow> string \<Rightarrow> bool" where
  "badKey ps data k = isl (unmarshalPools ps (dataAt data k))"

lemma scanKey_apply:
  "scanKey ps data k (pools, errs) =
     (case unmarshalPools ps (dataAt data k) of
        Inl e \<Rightarrow> (pools, errs @ [Wrapf ''key %q: %w'' [k] e])
      | Inr got \<Rightarrow> (if got = [] then (pools, errs)
          else (case pools of None \<Rightarrow> (Some got, errs) | Some ps \<Rightarrow> (pools, errs))))"
  by (simp add: scanKey_def dataAt_def)

lemma scan_fold:
  "fst (fold (scanKey ps data) ks (pools, errs)) =
     (case pools of Some p \<Rightarrow> Some p | None \<Rightarrow> firstPools ps data ks) \<and>
   (snd (fold (scanKey ps data) ks (pools, errs)) = [] \<longleftrightarrow> errs = [] \<and> (\<forall>k \<in> set ks. \<not> badKey ps data k))"
proof (induction ks arbitrary: pools errs)
  case Nil
  show ?case by (simp split: option.splits)
next
  case (Cons k ks)
  show ?case
    by (cases "unmarshalPools ps (dataAt data k)")
      (auto simp: scanKey_apply Cons.IH badKey_def split: option.splits)
qed

lemma parse_cases:
  "parseHeadroomConfig ps data =
     (case firstPools ps data (candidateKeys data) of
        Some pools \<Rightarrow> Inr pools
      | None \<Rightarrow> (if \<exists>k \<in> set (candidateKeys data). badKey ps data k
          then Inl (Wrapf ''configmap %s/%s: no data key yields a valid pools list: %w'' []
                 (Joined (snd (fold (scanKey ps data) (candidateKeys data) (None, [])))))
          else Inr []))"
  using scan_fold [of ps data "candidateKeys data" None "[]"]
  by (auto simp: parseHeadroomConfig_def split: prod.splits option.splits)

lemma firstPools_None_iff:
  "firstPools ps data ks = None \<longleftrightarrow>
     (\<forall>k \<in> set ks. badKey ps data k \<or> unmarshalPools ps (dataAt data k) = Inr [])"
  by (induction ks) (auto simp: badKey_def split: sum.splits)

lemma firstPools_Some:
  "firstPools ps data ks = Some pools \<Longrightarrow>
   pools \<noteq> [] \<and> (\<exists>k \<in> set ks. unmarshalPools ps (dataAt data k) = Inr pools)"
  by (induction ks) (auto split: sum.splits if_splits)

text \<open>
  C32: The error contract that protects the Deployments: parsing fails exactly when no key yields
  pools and some key does not parse; it returns the empty policy exactly when every key parses and
  none declares pools; and a returned non-empty list is what one of the keys declares, all of it.
\<close>
theorem config_error_contract:
  "((\<exists>e. parseHeadroomConfig ps data = Inl e) \<longleftrightarrow>
      (\<forall>k \<in> set (candidateKeys data). badKey ps data k \<or> unmarshalPools ps (dataAt data k) = Inr []) \<and>
      (\<exists>k \<in> set (candidateKeys data). badKey ps data k)) \<and>
   (parseHeadroomConfig ps data = Inr [] \<longleftrightarrow>
      (\<forall>k \<in> set (candidateKeys data). unmarshalPools ps (dataAt data k) = Inr [])) \<and>
   (\<forall>p pools. parseHeadroomConfig ps data = Inr (p # pools) \<longrightarrow>
      (\<exists>k \<in> set (candidateKeys data). unmarshalPools ps (dataAt data k) = Inr (p # pools)))"
proof (cases "firstPools ps data (candidateKeys data)")
  case None
  note none = None [unfolded firstPools_None_iff]
  have bad: "badKey ps data k \<Longrightarrow> unmarshalPools ps (dataAt data k) \<noteq> Inr []" for k
    by (auto simp: badKey_def)
  show ?thesis using none bad by (auto simp: parse_cases None)
next
  case (Some pools)
  then have "\<not> (\<forall>k \<in> set (candidateKeys data). badKey ps data k \<or> unmarshalPools ps (dataAt data k) = Inr [])"
    using firstPools_None_iff [of ps data "candidateKeys data"] by simp
  with Some firstPools_Some [OF Some] show ?thesis by (auto simp: parse_cases)
qed

definition exParsers :: "int parsers" where
  "exParsers = \<lparr>ps_Yaml = (\<lambda>s. if s = ''bad'' then Inl (ExternalError ''yaml'') else Inr []),
     ps_Float = (\<lambda>s. Inr (Fin 7)), ps_Quantity = exOps\<rparr>"

lemma exKeys: "candidateKeys [(''policy'', ''bad'')] = [''policy'']"
  by (simp add: candidateKeys_def wellKnownKeys_def isWellKnownKey_def)

lemma exBad: "badKey exParsers [(''policy'', ''bad'')] ''policy''"
  by (simp add: badKey_def unmarshalPools_def exParsers_def dataAt_def)

theorem config_error_contract_witness:
  "\<exists>e. parseHeadroomConfig exParsers [(''policy'', ''bad'')] = Inl e"
  using exBad config_error_contract [of exParsers "[(''policy'', ''bad'')]"] by (simp add: exKeys)

lemma candidateKeys_set: "set (candidateKeys data) = fst ` set data"
proof -
  have "set (candidateKeys data) = {k \<in> set wellKnownKeys. k \<in> fst ` set data} \<union>
      {k \<in> fst ` set data. k \<notin> set wellKnownKeys}"
    by (simp add: candidateKeys_def isWellKnownKey_def)
  also have "\<dots> = fst ` set data" by blast
  finally show ?thesis .
qed

text \<open>
  The policy that applies does not depend on the order Go happens to iterate the map in: two
  orders of the same entries give the same key sequence and the same parse result. Every key is
  scanned once, \<open>policy\<close> before \<open>config\<close> before the rest.
\<close>
theorem config_order_independent:
  assumes "distinct (map fst data)" and "distinct (map fst data')" and "set data = set data'"
  shows "candidateKeys data = candidateKeys data' \<and>
    parseHeadroomConfig ps data = parseHeadroomConfig ps data' \<and>
    distinct (candidateKeys data) \<and> set (candidateKeys data) = fst ` set data"
proof -
  have m: "map_of data = map_of data'" using assms by (simp add: map_of_inject_set)
  have "set (filter (\<lambda>key. \<not> isWellKnownKey key) (map fst data)) =
      set (filter (\<lambda>key. \<not> isWellKnownKey key) (map fst data'))" using assms(3) by auto
  moreover have "distinct (filter (\<lambda>key. \<not> isWellKnownKey key) (map fst data))"
    "distinct (filter (\<lambda>key. \<not> isWellKnownKey key) (map fst data'))" using assms by auto
  ultimately have "sort (filter (\<lambda>key. \<not> isWellKnownKey key) (map fst data)) =
      sort (filter (\<lambda>key. \<not> isWellKnownKey key) (map fst data'))"
    using sorted_distinct_set_unique [of "sort (filter (\<lambda>key. \<not> isWellKnownKey key) (map fst data))"
      "sort (filter (\<lambda>key. \<not> isWellKnownKey key) (map fst data'))"] by simp
  with assms(3) have k: "candidateKeys data = candidateKeys data'" by (simp add: candidateKeys_def)
  have "scanKey ps data = scanKey ps data'" by (simp add: scanKey_def m fun_eq_iff)
  with k have "parseHeadroomConfig ps data = parseHeadroomConfig ps data'"
    by (simp add: parseHeadroomConfig_def)
  moreover have "distinct (candidateKeys data)"
  proof -
    have "distinct wellKnownKeys" by (simp add: wellKnownKeys_def)
    with assms(1) show ?thesis by (auto simp: candidateKeys_def isWellKnownKey_def)
  qed
  ultimately show ?thesis using k candidateKeys_set by blast
qed

theorem config_order_independent_witness:
  "candidateKeys [(''b'', ''x''), (''a'', ''y'')] = candidateKeys [(''a'', ''y''), (''b'', ''x'')]"
  using config_order_independent [of "[(''b'', ''x''), (''a'', ''y'')]" "[(''a'', ''y''), (''b'', ''x'')]" exParsers]
  by (simp add: insert_commute)

lemma parse_valid:
  assumes "parseHeadroomConfig ps data = Inr pools"
  shows "(\<forall>p \<in> set pools. policy_ok (ps_Quantity ps) p) \<and> distinct (map pp_Name pools)"
proof (cases pools)
  case (Cons p rest)
  with assms have "firstPools ps data (candidateKeys data) = Some pools"
    by (auto simp: parse_cases split: option.splits if_splits)
  then obtain k where "unmarshalPools ps (dataAt data k) = Inr pools" using firstPools_Some by blast
  then obtain raw where "parsePools ps {} raw = Inr pools" by (auto simp: unmarshalPools_def andThen_Inr)
  from parsePools_Inr [OF this] show ?thesis by blast
qed simp

lemmas parsePools_distinct = parse_valid [THEN conjunct2]

text \<open>
  C33: Every policy the parser lets through is sane: a non-empty name no other pool of the list has,
  buffer fractions in the unit interval (or not a number, which the replica math reads as no
  buffer), per-pod sizes of at least one millicore and one mebibyte, a non-negative GPU size and
  floor, and only operators and effects the scheduler knows.
\<close>
theorem parsed_pools_valid:
  assumes "parseHeadroomConfig ps data = Inr pools"
  shows "(\<forall>p \<in> set pools. policy_ok (ps_Quantity ps) p) \<and> distinct (map pp_Name pools)"
  using parse_valid [OF assms] .

definition exYaml :: poolPolicyYAML where
  "exYaml = \<lparr>py_Name = ''p1'', py_CPU = ''7%'', py_Memory = [], py_PodCPU = [], py_PodMemory = [],
     py_GPU = [], py_PodGPU = [], py_MinPods = 2, py_Tolerations = []\<rparr>"

definition exParsers1 :: "int parsers" where
  "exParsers1 = exParsers\<lparr>ps_Yaml := (\<lambda>s. Inr [exYaml])\<rparr>"

lemma trim_7: "trimSpace ''7%'' = ''7%''" "trimSpace ''7'' = ''7''"
  by (simp_all add: trimSpace_def trimLeft_fixed space_runes_def hasPrefix_def)

lemma exParse_pool: "parsePool exParsers1 exYaml = Inr exPolicy"
  by (simp add: parsePool_def exParsers1_def exParsers_def exYaml_def exOps_def parsePercent_def trim_7
      trimSuffix_def hasPrefix_def parseQuantity_def defaultPodCPU_def defaultPodMemory_def exParse_def
      mustParse_def minPodCPU_def minPodMemory_def exPolicy_def)

lemma exParse_config: "parseHeadroomConfig exParsers1 [(''policy'', ''x'')] = Inr [exPolicy]"
proof -
  have "unmarshalPools exParsers1 ''x'' = Inr [exPolicy]"
    using exParse_pool by (simp add: unmarshalPools_def) (simp add: exParsers1_def exYaml_def)
  moreover have "candidateKeys [(''policy'', ''x'')] = [''policy'']"
    by (simp add: candidateKeys_def wellKnownKeys_def isWellKnownKey_def)
  ultimately show ?thesis by (simp add: parse_cases dataAt_def)
qed

theorem parsed_pools_valid_witness: "fraction_ok (pp_CPU exPolicy)"
  using parsed_pools_valid [OF exParse_config] by (simp add: policy_ok_def)

section \<open>The sync\<close>

text \<open>
  A broken policy deletes nothing: when the ConfigMap cannot be read or parsed, the sync returns
  an error and every Deployment and pod is as it was.
\<close>
theorem broken_policy_touches_nothing:
  assumes "loadPools ps env = Inl e" and "Reconcile_headroom ps env c = (r, c')"
  shows "isl r \<and> cl_deployments c' = cl_deployments c \<and> cl_pods c' = cl_pods c"
  using assms by (auto simp: Reconcile_headroom_def ensurePriorityClass_def split: option.splits)

definition exEnv :: "int henv" where
  "exEnv = \<lparr>he_configMap = Inr (Some [(''policy'', ''x'')]), he_nodes = (\<lambda>p. Inr []),
     he_applyErr = (\<lambda>n. None), he_listPodsErr = None, he_listDeploymentsErr = None,
     he_deleteFails = (\<lambda>n. False), he_createClassErr = None,
     he_getClassErr = None, he_podNamespace = ''karpenter''\<rparr>"

definition exCluster :: "int cluster" where
  "exCluster = \<lparr>cl_deployments = [mutateDeployment (exPolicy\<lparr>pp_Name := ''old''\<rparr>) 1 Map.empty (zeroDeployment ''headroom-old'')],
     cl_pods = [], cl_priorityClass = None\<rparr>"

theorem broken_policy_touches_nothing_witness:
  "cl_deployments (snd (Reconcile_headroom exParsers (exEnv\<lparr>he_configMap := Inr (Some [(''policy'', ''bad'')])\<rparr>) exCluster))
     = cl_deployments exCluster"
proof -
  have "loadPools exParsers (exEnv\<lparr>he_configMap := Inr (Some [(''policy'', ''bad'')])\<rparr>) =
      parseHeadroomConfig exParsers [(''policy'', ''bad'')]" by (simp add: loadPools_def exEnv_def)
  moreover have "firstPools exParsers [(''policy'', ''bad'')] (candidateKeys [(''policy'', ''bad'')]) = None"
    unfolding firstPools_None_iff exKeys using exBad by simp
  ultimately obtain e where "loadPools exParsers (exEnv\<lparr>he_configMap := Inr (Some [(''policy'', ''bad'')])\<rparr>) = Inl e"
    using exBad by (simp add: parse_cases exKeys)
  from broken_policy_touches_nothing [OF this surjective_pairing] show ?thesis by blast
qed

lemma apply_has:
  "\<exists>d \<in> set (cl_deployments (applyDeployment z f c)). (\<exists>d0. d = f d0 \<and> dep_Name d0 = dep_Name z)"
  by (auto simp: applyDeployment_def)

lemma apply_others:
  assumes "d \<in> set (cl_deployments c)" and "dep_Name d \<noteq> dep_Name z"
  shows "d \<in> set (cl_deployments (applyDeployment z f c))"
  using assms by (auto simp: applyDeployment_def image_iff)

lemma mutate_sel [simp]:
  "dep_Name (mutateDeployment pool n req d) = dep_Name d"
  "dep_Replicas (mutateDeployment pool n req d) = Some n"
  "dep_Labels (mutateDeployment pool n req d) = podLabels (pp_Name pool)"
  "dep_NodeSelector (mutateDeployment pool n req d) = [karpenterNodePoolLabel \<mapsto> pp_Name pool]"
  by (simp_all add: mutateDeployment_def Let_def)

text \<open>The Deployment a pool should have, given the nodes the API lists for it.\<close>

definition has_headroom :: "'q quantityOps \<Rightarrow> 'q henv \<Rightarrow> 'q cluster \<Rightarrow> 'q parsedPoolPolicy \<Rightarrow> bool" where
  "has_headroom qo env c pool \<longleftrightarrow> (\<exists>nodes d. he_nodes env (pp_Name pool) = Inr nodes \<and>
     d \<in> set (cl_deployments c) \<and> dep_Name d = deploymentName (pp_Name pool) \<and>
     dep_Labels d = podLabels (pp_Name pool) \<and> dep_NodeSelector d = [karpenterNodePoolLabel \<mapsto> pp_Name pool] \<and>
     dep_Replicas d = Some (desiredReplicas qo pool (sumAllocatable qo (filterReady nodes))
       (int (length (filterReady nodes)))))"

lemma deploymentName_inj [simp]: "deploymentName a = deploymentName b \<longleftrightarrow> a = b"
  by (simp add: deploymentName_def)

lemma reconcilePool_ok:
  assumes "reconcilePool qo env pool c = (None, c')"
  shows "has_headroom qo env c' pool"
    and "pp_Name p \<noteq> pp_Name pool \<Longrightarrow> has_headroom qo env c p \<Longrightarrow> has_headroom qo env c' p"
proof -
  from assms obtain nodes where nodes: "he_nodes env (pp_Name pool) = Inr nodes"
    and c': "c' = applyDeployment (zeroDeployment (deploymentName (pp_Name pool)))
      (mutateDeployment pool (desiredReplicas qo pool (sumAllocatable qo (filterReady nodes))
         (int (length (filterReady nodes))))
        (perPodRequests qo pool (pa_gpuKey (sumAllocatable qo (filterReady nodes))))) c"
    by (auto simp: reconcilePool_def Let_def split: sum.splits option.splits)
  have z: "dep_Name (zeroDeployment n) = n" for n by (simp add: zeroDeployment_def)
  let ?f = "mutateDeployment pool (desiredReplicas qo pool (sumAllocatable qo (filterReady nodes))
         (int (length (filterReady nodes))))
        (perPodRequests qo pool (pa_gpuKey (sumAllocatable qo (filterReady nodes))))"
  obtain d d0 where "d \<in> set (cl_deployments c')" "d = ?f d0" "dep_Name d0 = deploymentName (pp_Name pool)"
    unfolding c' using apply_has [of "zeroDeployment (deploymentName (pp_Name pool))" ?f c] z by metis
  with nodes show "has_headroom qo env c' pool" unfolding has_headroom_def
    by (intro exI [of _ nodes] exI [of _ d]) simp
  assume ne: "pp_Name p \<noteq> pp_Name pool" and h: "has_headroom qo env c p"
  from h obtain nodes' d' where d': "he_nodes env (pp_Name p) = Inr nodes'"
    "d' \<in> set (cl_deployments c)" "dep_Name d' = deploymentName (pp_Name p)"
    "dep_Labels d' = podLabels (pp_Name p)" "dep_NodeSelector d' = [karpenterNodePoolLabel \<mapsto> pp_Name p]"
    "dep_Replicas d' = Some (desiredReplicas qo p (sumAllocatable qo (filterReady nodes'))
       (int (length (filterReady nodes'))))"
    unfolding has_headroom_def by blast
  have "d' \<in> set (cl_deployments c')" unfolding c'
  proof (rule apply_others [OF d'(2)])
    show "dep_Name d' \<noteq> dep_Name (zeroDeployment (deploymentName (pp_Name pool)))"
      unfolding d'(3) z using ne by simp
  qed
  with d' show "has_headroom qo env c' p" unfolding has_headroom_def by blast
qed

lemma reconcilePools_ok:
  "reconcilePools qo env pools c = ([], c') \<Longrightarrow> distinct (map pp_Name pools) \<Longrightarrow>
   (\<forall>p \<in> set pools. has_headroom qo env c' p) \<and>
   (\<forall>p. pp_Name p \<notin> pp_Name ` set pools \<longrightarrow> has_headroom qo env c p \<longrightarrow> has_headroom qo env c' p)"
proof (induction pools arbitrary: c)
  case (Cons pool pools)
  obtain e c1 where e: "reconcilePool qo env pool c = (e, c1)" by fastforce
  obtain es c2 where es: "reconcilePools qo env pools c1 = (es, c2)" by fastforce
  from Cons.prems(1) e es have h: "e = None" "es = []" "c2 = c'" by (auto split: option.splits)
  from Cons.prems(2) have d: "distinct (map pp_Name pools)" "pp_Name pool \<notin> pp_Name ` set pools" by auto
  have IH: "\<forall>p \<in> set pools. has_headroom qo env c' p"
    "\<And>p. pp_Name p \<notin> pp_Name ` set pools \<Longrightarrow> has_headroom qo env c1 p \<Longrightarrow> has_headroom qo env c' p"
    using Cons.IH [of c1] es h d(1) by blast+
  note ok = reconcilePool_ok [OF e [unfolded h(1)]]
  from IH(2) [OF d(2) ok(1)] have "has_headroom qo env c' pool" .
  moreover have "has_headroom qo env c' p"
    if "pp_Name p \<notin> pp_Name ` set (pool # pools)" "has_headroom qo env c p" for p
    using that IH(2) ok(2) [of p] by auto
  ultimately show ?case using IH(1) by auto
qed simp

lemma cleanup_keeps:
  assumes "cleanupStaleDeployments env pools c = ([], c')" and "has_headroom qo env c p" and "p \<in> set pools"
  shows "has_headroom qo env c' p"
proof -
  from assms(2) obtain nodes d where d: "he_nodes env (pp_Name p) = Inr nodes"
    "d \<in> set (cl_deployments c)" "dep_Name d = deploymentName (pp_Name p)"
    "dep_Labels d = podLabels (pp_Name p)" "dep_NodeSelector d = [karpenterNodePoolLabel \<mapsto> pp_Name p]"
    "dep_Replicas d = Some (desiredReplicas qo p (sumAllocatable qo (filterReady nodes))
       (int (length (filterReady nodes))))"
    unfolding has_headroom_def by blast
  have "lookup (dep_Labels d) headroomPoolLabel = pp_Name p"
    by (simp add: d(4) podLabels_def headroomPoolLabel_def headroomLabel_def)
  with assms(1,3) d(2) have "d \<in> set (cl_deployments c')"
    by (auto simp: cleanupStaleDeployments_def split: option.splits)
  with d show ?thesis unfolding has_headroom_def by blast
qed

text \<open>The stages of a sync that reports success.\<close>

lemma Reconcile_success:
  assumes "Reconcile_headroom ps env c = (Inr resyncInterval_headroom, c')"
  obtains pools c1 c2 where "loadPools ps env = Inr pools" and "distinct (map pp_Name pools)"
    and "reconcilePools (ps_Quantity ps) env pools (snd (ensurePriorityClass env c)) = ([], c1)"
    and "cleanupLegacyPods env c1 = ([], c2)" and "cleanupStaleDeployments env pools c2 = ([], c')"
proof -
  from assms obtain pools where pools: "loadPools ps env = Inr pools"
    by (auto simp: Reconcile_headroom_def Let_def split: sum.splits)
  obtain es1 c1 where 1: "reconcilePools (ps_Quantity ps) env pools (snd (ensurePriorityClass env c)) = (es1, c1)"
    by fastforce
  obtain es2 c2 where 2: "cleanupLegacyPods env c1 = (es2, c2)" by fastforce
  obtain es3 c3 where 3: "cleanupStaleDeployments env pools c2 = (es3, c3)" by fastforce
  from assms pools 1 2 3 have e: "es1 = []" "es2 = []" "es3 = []" "c3 = c'"
    by (auto simp: Reconcile_headroom_def Let_def split: if_splits)
  have "distinct (map pp_Name pools)"
    using pools parsePools_distinct by (auto simp: loadPools_def andThen_Inr split: option.splits)
  with that pools 1 2 3 e show ?thesis by blast
qed



text \<open>
  Applying the policy again changes nothing: on a Deployment that already carries it, the
  mutation is the identity, including the containers' fields the API server fills in; and it never
  touches a selector that is already set, which Kubernetes would reject.
\<close>
theorem mutation_idempotent:
  "mutateDeployment pool n req (mutateDeployment pool n req d) = mutateDeployment pool n req d \<and>
   dep_Defaults (mutateDeployment pool n req d) = dep_Defaults d \<and>
   (dep_Selector d = None \<or> dep_Selector (mutateDeployment pool n req d) = dep_Selector d)"
  by (auto simp: mutateDeployment_def mutateContainer_def Let_def split: option.splits)

section \<open>A sync is a fixed point\<close>

text \<open>The replica count and the pod's requests of a pool, from its nodes.\<close>

definition poolMutation ::
  "'q quantityOps \<Rightarrow> 'q parsedPoolPolicy \<Rightarrow> 'q Node list \<Rightarrow> 'q deployment \<Rightarrow> 'q deployment" where
  "poolMutation qo pool nodes =
     mutateDeployment pool
       (desiredReplicas qo pool (sumAllocatable qo (filterReady nodes)) (int (length (filterReady nodes))))
       (perPodRequests qo pool (pa_gpuKey (sumAllocatable qo (filterReady nodes))))"

lemma reconcilePool_eq:
  "reconcilePool qo env pool c =
     (case he_nodes env (pp_Name pool) of
        Inl e \<Rightarrow> (Some (Wrapf ''list nodes: %w'' [] e), c)
      | Inr nodes \<Rightarrow>
          (case he_applyErr env (deploymentName (pp_Name pool)) of
             Some e \<Rightarrow> (Some (Wrapf ''apply deployment %s/%s: %w'' [he_podNamespace env, deploymentName (pp_Name pool)] e), c)
           | None \<Rightarrow> (None, applyDeployment (zeroDeployment (deploymentName (pp_Name pool)))
               (poolMutation qo pool nodes) c)))"
  by (simp add: reconcilePool_def poolMutation_def Let_def split: sum.splits option.splits)

lemma poolMutation_sel [simp]:
  "dep_Name (poolMutation qo pool nodes d) = dep_Name d"
  "dep_Labels (poolMutation qo pool nodes d) = podLabels (pp_Name pool)"
  "poolMutation qo pool nodes (poolMutation qo pool nodes d) = poolMutation qo pool nodes d"
  by (simp_all add: poolMutation_def) (auto simp: mutateDeployment_def mutateContainer_def Let_def split: option.splits)

text \<open>A pool whose Deployments the policy would leave as they are.\<close>

definition settled :: "'q quantityOps \<Rightarrow> 'q henv \<Rightarrow> 'q deployment list \<Rightarrow> 'q parsedPoolPolicy \<Rightarrow> bool" where
  "settled qo env ds p \<longleftrightarrow> (\<exists>nodes. he_nodes env (pp_Name p) = Inr nodes \<and>
     he_applyErr env (deploymentName (pp_Name p)) = None \<and>
     (\<exists>d \<in> set ds. dep_Name d = deploymentName (pp_Name p)) \<and>
     (\<forall>d \<in> set ds. dep_Name d = deploymentName (pp_Name p) \<longrightarrow> poolMutation qo p nodes d = d))"

lemma zero_name [simp]: "dep_Name (zeroDeployment n) = n"
  by (simp add: zeroDeployment_def)

lemma apply_settled:
  assumes "\<exists>d \<in> set (cl_deployments c). dep_Name d = dep_Name z"
    and "\<forall>d \<in> set (cl_deployments c). dep_Name d = dep_Name z \<longrightarrow> f d = d"
  shows "applyDeployment z f c = c"
proof -
  have "map (\<lambda>d. if dep_Name d = dep_Name z then f d else d) (cl_deployments c) = cl_deployments c"
    using assms(2) by (intro map_idI) simp
  with assms(1) show ?thesis by (simp add: applyDeployment_def)
qed

lemma settled_noop:
  assumes "settled qo env (cl_deployments c) p"
  shows "reconcilePool qo env p c = (None, c)"
proof -
  from assms obtain nodes where n: "he_nodes env (pp_Name p) = Inr nodes"
    "he_applyErr env (deploymentName (pp_Name p)) = None"
    and d: "\<exists>d \<in> set (cl_deployments c). dep_Name d = deploymentName (pp_Name p)"
      "\<forall>d \<in> set (cl_deployments c). dep_Name d = deploymentName (pp_Name p) \<longrightarrow> poolMutation qo p nodes d = d"
    unfolding settled_def by blast
  have "applyDeployment (zeroDeployment (deploymentName (pp_Name p))) (poolMutation qo p nodes) c = c"
    using d by (intro apply_settled) (simp_all only: zero_name)
  with n show ?thesis by (simp add: reconcilePool_eq)
qed

lemma apply_mem:
  assumes "d \<in> set (cl_deployments (applyDeployment z f c))"
  shows "(dep_Name d \<noteq> dep_Name z \<and> d \<in> set (cl_deployments c)) \<or> (\<exists>d0. d = f d0 \<and> dep_Name d0 = dep_Name z)"
proof (cases "\<exists>d \<in> set (cl_deployments c). dep_Name d = dep_Name z")
  case True
  with assms have "d \<in> (\<lambda>d. if dep_Name d = dep_Name z then f d else d) ` set (cl_deployments c)"
    by (simp add: applyDeployment_def)
  then obtain d0 where "d = (if dep_Name d0 = dep_Name z then f d0 else d0)" "d0 \<in> set (cl_deployments c)"
    by blast
  then show ?thesis by (cases "dep_Name d0 = dep_Name z") auto
next
  case False
  with assms have "d \<in> set (cl_deployments c @ [f z])" by (simp add: applyDeployment_def)
  with False show ?thesis by auto
qed

lemma reconcilePool_settles:
  assumes "reconcilePool qo env pool c = (None, c')"
  shows "settled qo env (cl_deployments c') pool"
    and "pp_Name p \<noteq> pp_Name pool \<Longrightarrow> settled qo env (cl_deployments c) p \<Longrightarrow> settled qo env (cl_deployments c') p"
proof -
  let ?z = "zeroDeployment (deploymentName (pp_Name pool)) :: 'a deployment"
  from assms obtain nodes where n: "he_nodes env (pp_Name pool) = Inr nodes"
    "he_applyErr env (deploymentName (pp_Name pool)) = None"
    and c': "c' = applyDeployment ?z (poolMutation qo pool nodes) c"
    by (auto simp: reconcilePool_eq split: sum.splits option.splits)
  have mem: "(dep_Name d \<noteq> deploymentName (pp_Name pool) \<and> d \<in> set (cl_deployments c)) \<or>
      (\<exists>d0. d = poolMutation qo pool nodes d0 \<and> dep_Name d0 = deploymentName (pp_Name pool))"
    if "d \<in> set (cl_deployments c')" for d
    using apply_mem [OF that [unfolded c']] by simp
  obtain d d0 where "d \<in> set (cl_deployments c')" "d = poolMutation qo pool nodes d0"
    "dep_Name d0 = deploymentName (pp_Name pool)"
    using apply_has [of ?z "poolMutation qo pool nodes" c] unfolding c' zero_name by blast
  then have "\<exists>d \<in> set (cl_deployments c'). dep_Name d = deploymentName (pp_Name pool)"
    by (intro bexI [of _ d]) simp_all
  with n mem show "settled qo env (cl_deployments c') pool"
    unfolding settled_def by (intro exI [of _ nodes]) fastforce
  assume ne: "pp_Name p \<noteq> pp_Name pool" and s: "settled qo env (cl_deployments c) p"
  have "d \<in> set (cl_deployments c') \<longleftrightarrow> d \<in> set (cl_deployments c)"
    if "dep_Name d = deploymentName (pp_Name p)" for d
    using apply_others [of d c ?z "poolMutation qo pool nodes"] mem [of d] that ne c' by auto
  with s show "settled qo env (cl_deployments c') p" unfolding settled_def by metis
qed

lemma reconcilePools_settle:
  "reconcilePools qo env pools c = ([], c') \<Longrightarrow> distinct (map pp_Name pools) \<Longrightarrow>
   (\<forall>p \<in> set pools. settled qo env (cl_deployments c') p) \<and>
   (\<forall>p. pp_Name p \<notin> pp_Name ` set pools \<longrightarrow> settled qo env (cl_deployments c) p \<longrightarrow>
      settled qo env (cl_deployments c') p)"
proof (induction pools arbitrary: c)
  case (Cons pool pools)
  obtain e c1 where e: "reconcilePool qo env pool c = (e, c1)" by fastforce
  obtain es c2 where es: "reconcilePools qo env pools c1 = (es, c2)" by fastforce
  from Cons.prems(1) e es have h: "e = None" "es = []" "c2 = c'" by (auto split: option.splits)
  from Cons.prems(2) have d: "distinct (map pp_Name pools)" "pp_Name pool \<notin> pp_Name ` set pools" by auto
  have IH: "\<forall>p \<in> set pools. settled qo env (cl_deployments c') p"
    "\<And>p. pp_Name p \<notin> pp_Name ` set pools \<Longrightarrow> settled qo env (cl_deployments c1) p \<Longrightarrow>
       settled qo env (cl_deployments c') p"
    using Cons.IH [of c1] es h d(1) by blast+
  note st = reconcilePool_settles [OF e [unfolded h(1)]]
  show ?case using IH st d(2) by auto
qed simp

lemma settled_pools_noop:
  "\<forall>p \<in> set pools. settled qo env (cl_deployments c) p \<Longrightarrow> reconcilePools qo env pools c = ([], c)"
  by (induction pools) (simp_all add: settled_noop)

lemma settled_label:
  assumes "settled qo env ds p" and "d \<in> set ds" and "dep_Name d = deploymentName (pp_Name p)"
  shows "lookup (dep_Labels d) headroomPoolLabel = pp_Name p"
proof -
  from assms obtain nodes where "poolMutation qo p nodes d = d" unfolding settled_def by blast
  then have "dep_Labels d = podLabels (pp_Name p)" by (metis poolMutation_sel(2))
  then show ?thesis by (simp add: podLabels_def headroomPoolLabel_def headroomLabel_def)
qed

lemma settled_filter:
  assumes "settled qo env ds p" and "\<And>d. lookup (dep_Labels d) headroomPoolLabel = pp_Name p \<Longrightarrow> P d"
  shows "settled qo env (filter P ds) p"
proof -
  from assms(1) obtain nodes d where n: "he_nodes env (pp_Name p) = Inr nodes"
    "he_applyErr env (deploymentName (pp_Name p)) = None"
    and d: "d \<in> set ds" "dep_Name d = deploymentName (pp_Name p)"
    and s: "\<forall>d \<in> set ds. dep_Name d = deploymentName (pp_Name p) \<longrightarrow> poolMutation qo p nodes d = d"
    unfolding settled_def by blast
  from assms(2) [OF settled_label [OF assms(1) d]] d have "d \<in> set (filter P ds)" by simp
  with n d s show ?thesis unfolding settled_def by (intro exI [of _ nodes]) auto
qed

lemma reconcilePools_class:
  "reconcilePools qo env pools c = (es, c') \<Longrightarrow> cl_priorityClass c' = cl_priorityClass c"
proof (induction pools arbitrary: c es)
  case (Cons pool pools)
  have "cl_priorityClass (snd (reconcilePool qo env pool c)) = cl_priorityClass c"
    by (simp add: reconcilePool_eq applyDeployment_def split: sum.splits option.splits)
  with Cons show ?case by (fastforce split: prod.splits)
qed simp



end
