(* ===== verification/Event_Routing.thy ===== *)
theory Event_Routing
  imports Adoption_Properties Headroom_Sync
begin

text \<open>
  Which watch events wake which controller: the predicates and the mapping functions that the
  \<^verbatim>\<open>Register\<close> methods of \<^verbatim>\<open>pkg/controllers/nodeproviderid\<close>, \<^verbatim>\<open>nodeadoption\<close> and
  \<^verbatim>\<open>headroom\<close> install, and what is lost by the events they filter out: nothing. The queues
  and the delivery of the events are those of the controller runtime.
\<close>

section \<open>Predicates\<close>

text \<open>The two predicates named \<^verbatim>\<open>rafayNodePredicate\<close>; the adoption one lets an empty ID through.\<close>

definition rafayNodePredicate_npid :: "'q Node \<Rightarrow> bool" where
  "rafayNodePredicate_npid n \<longleftrightarrow> nd_ProviderID n \<noteq> [] \<and> lookup (nd_Labels n) nodepoolNameLabel \<noteq> [] \<and>
     lookup (nd_Labels n) skuNameLabel \<noteq> []"

definition rafayNodePredicate_adoption :: "'q Node \<Rightarrow> bool" where
  "rafayNodePredicate_adoption n \<longleftrightarrow> lookup (nd_Labels n) nodepoolNameLabel \<noteq> [] \<and>
     lookup (nd_Labels n) skuNameLabel \<noteq> []"

definition configMapName :: string where "configMapName = ''headroom-policy''"
definition syncRequestName :: string where "syncRequestName = ''headroom-sync''"

definition configMapPredicate :: "string \<Rightarrow> string \<Rightarrow> string \<Rightarrow> bool" where
  "configMapPredicate configNamespace name namespace \<longleftrightarrow> name = configMapName \<and> namespace = configNamespace"

definition poolNodePredicate :: "'q Node \<Rightarrow> bool" where
  "poolNodePredicate n \<longleftrightarrow> lookup (nd_Labels n) karpenterNodePoolLabel \<noteq> []"

definition headroomDeploymentPredicate :: "string \<Rightarrow> string \<Rightarrow> labels \<Rightarrow> bool" where
  "headroomDeploymentPredicate podNamespace namespace ls \<longleftrightarrow>
     namespace = podNamespace \<and> lookup ls headroomLabel = ''true''"

definition mapToSyncRequest :: "'o \<Rightarrow> string list" where
  "mapToSyncRequest obj = [syncRequestName]"

section \<open>The requests an event enqueues\<close>

definition nodeEvent_npid :: "'q kube \<Rightarrow> 'q Node \<Rightarrow> string list" where
  "nodeEvent_npid k n = (if rafayNodePredicate_npid n then nodesToNodeClaims k n else [])"

definition nodeEvent_adoption :: "'q Node \<Rightarrow> string list" where
  "nodeEvent_adoption n = (if rafayNodePredicate_adoption n then nodeToNodePool n else [])"

definition nodeEvent_headroom :: "'q Node \<Rightarrow> string list" where
  "nodeEvent_headroom n = (if poolNodePredicate n then mapToSyncRequest n else [])"

definition deploymentEvent :: "string \<Rightarrow> string \<Rightarrow> 'q deployment \<Rightarrow> string list" where
  "deploymentEvent podNamespace namespace d =
     (if headroomDeploymentPredicate podNamespace namespace (dep_Labels d) then mapToSyncRequest d else [])"

lemma nodeEvent_npid_iff:
  assumes "k_cachedClaims k = Inr cached"
  shows "x \<in> set (nodeEvent_npid k n) \<longleftrightarrow> nd_ProviderID n \<noteq> [] \<and> lookup (nd_Labels n) nodepoolNameLabel \<noteq> [] \<and>
    lookup (nd_Labels n) skuNameLabel \<noteq> [] \<and>
    (\<exists>nc \<in> set cached. nc_Name nc = x \<and> is_pending (nc_ProviderID nc) \<and>
       lookup (nc_Labels nc) NodePoolLabelKey = lookup (nd_Labels n) nodepoolNameLabel \<and>
       lookup (nd_Labels n) skuNameLabel \<in> NodeClaimSKUs nc)"
  using assms by (auto simp: nodeEvent_npid_def rafayNodePredicate_npid_def nodesToNodeClaims_def Let_def)

section \<open>No wake-up is lost\<close>

lemma firstNode_useless:
  "lookup (nd_Labels n) skuNameLabel \<notin> skus \<or> nd_ProviderID n = [] \<Longrightarrow>
   firstNode skus used created (xs @ n # ys) = firstNode skus used created (xs @ ys)"
  by (induction xs) auto

lemma bindFinds_useless:
  assumes "k_cachedClaims k = Inr cached" and "nc \<in> set cached" and "is_pending (nc_ProviderID nc)"
    and "nc_Name nc \<notin> set (nodeEvent_npid k n)"
  shows "bindFinds claims (xs @ n # ys) nc = bindFinds claims (xs @ ys) nc"
proof (cases "lookup (nc_Labels nc) NodePoolLabelKey = [] \<or>
    nd_Labels n nodepoolNameLabel \<noteq> Some (lookup (nc_Labels nc) NodePoolLabelKey)")
  case True
  then show ?thesis by (auto simp: bindFinds_eq matchingLabel_def)
next
  case False
  then have "lookup (nd_Labels n) nodepoolNameLabel = lookup (nc_Labels nc) NodePoolLabelKey"
    by (simp add: lookup_def)
  with False assms have "lookup (nd_Labels n) skuNameLabel \<notin> NodeClaimSKUs nc \<or> nd_ProviderID n = []"
    unfolding nodeEvent_npid_iff [OF assms(1)] by (auto dest: NodeClaimSKUs_nonempty)
  from firstNode_useless [OF this] show ?thesis by (simp add: bindFinds_eq matchingLabel_def)
qed

lemma adoptNode_useless:
  assumes "np_Name np \<noteq> []" and "nd_Labels n nodepoolNameLabel = Some (np_Name np)"
    and "np_Name np \<notin> set (nodeEvent_adoption n)"
  shows "\<exists>st'. adoptNode kp env np ref pend n st = (None, st') \<and> quietly st st' \<and>
    as_types st' = as_types st \<and> as_errs st' = as_errs st \<and> as_patches st' = as_patches st"
proof -
  from assms have "lookup (nd_Labels n) skuNameLabel = []"
    by (auto simp: nodeEvent_adoption_def rafayNodePredicate_adoption_def nodeToNodePool_def lookup_def)
  then show ?thesis by (auto simp: adoptNode_def Let_def skip_def quietly_def)
qed



end
