(* ===== verification/Controller_Setup.thy ===== *)
theory Controller_Setup
  imports Event_Routing Node_Adoption Main_Config
begin

text \<open>
  How the controllers are registered (the \<^verbatim>\<open>Register\<close> methods), what the API package registers
  (\<^verbatim>\<open>pkg/apis/v1alpha1/register.go\<close>), the provider's constant answers, and the check of an existing
  PriorityClass. The controller runtime that acts on a registration is outside code.
\<close>

section \<open>The API group\<close>

definition SchemeGroupVersion :: "string \<times> string" where
  "SchemeGroupVersion = (GroupName, ''v1alpha1'')"

text \<open>\<^verbatim>\<open>AddToScheme\<close> on a scheme, the set of its kinds; the meta kinds of the group are the library's.\<close>

definition AddToScheme :: "((string \<times> string) \<Rightarrow> 's \<Rightarrow> 's) \<Rightarrow> ((string \<times> string) \<times> string \<Rightarrow> 's \<Rightarrow> 's) \<Rightarrow> 's \<Rightarrow> 's" where
  "AddToScheme addToGroupVersion addKnownType scheme =
     addToGroupVersion SchemeGroupVersion
       (fold (\<lambda>kind. addKnownType (SchemeGroupVersion, kind)) [''RafayNodeClass'', ''RafayNodeClassList''] scheme)"

text \<open>\<^verbatim>\<open>init\<close> of \<^verbatim>\<open>pkg/operator/operator.go\<close>, on the scheme of the client library.\<close>

definition operator_init :: "((string \<times> string) \<Rightarrow> 's \<Rightarrow> 's) \<Rightarrow> ((string \<times> string) \<times> string \<Rightarrow> 's \<Rightarrow> 's) \<Rightarrow> 's \<Rightarrow> 's" where
  "operator_init addToGroupVersion addKnownType scheme = AddToScheme addToGroupVersion addKnownType scheme"

section \<open>Constant answers of the provider\<close>

definition RepairPolicies :: "string list" where "RepairPolicies = []"
definition ProviderName :: string where "ProviderName = ''rafay''"
definition GetSupportedNodeClasses :: "string list" where "GetSupportedNodeClasses = [''RafayNodeClass'']"

text \<open>The kinds of NodeClass the provider names are in the scheme once the package is loaded, nothing is lost from it.\<close>

lemma supported_kinds_known:
  "scheme \<subseteq> operator_init (\<lambda>_ s. s) insert scheme \<and>
   (\<forall>kind \<in> set GetSupportedNodeClasses. (SchemeGroupVersion, kind) \<in> operator_init (\<lambda>_ s. s) insert scheme)"
  by (auto simp: operator_init_def AddToScheme_def GetSupportedNodeClasses_def)

section \<open>Registrations\<close>

text \<open>
  A reconciler has a name, the kind it reconciles, the kinds it watches besides, and how many of its
  reconciles may run at a time; a runnable is started once, on the leader only or on every replica.
\<close>

datatype registration =
    Reconciler (rg_name: string) (rg_for: string) (rg_watches: "string list") (rg_maxConcurrent: nat)
  | Runnable (rg_leaderOnly: bool)

definition Register_rafaynodeclass :: "registration list" where
  "Register_rafaynodeclass = [Reconciler ''rafaynodeclass.readiness'' ''RafayNodeClass'' [] 10]"

definition Register_npid :: "registration list" where
  "Register_npid = [Reconciler ''nodeclaim.nodeproviderid'' ''NodeClaim'' [''Node''] 1]"

definition Register_adoption :: "registration list" where
  "Register_adoption = [Reconciler ''nodepool.nodeadoption'' ''NodePool'' [''Node''] 1]"

text \<open>The runnable makes the PriorityClass; without a method that says otherwise it runs on the leader.\<close>

definition Register_headroom :: "registration list" where
  "Register_headroom = [Runnable True, Reconciler ''headroom'' ''ConfigMap'' [''Node'', ''Deployment''] 1]"

definition NeedLeaderElection_batchresume :: bool where "NeedLeaderElection_batchresume = True"
definition NeedLeaderElection_nodeconfig :: bool where "NeedLeaderElection_nodeconfig = True"

definition Register_batchresume :: "registration list" where
  "Register_batchresume = [Runnable NeedLeaderElection_batchresume]"

definition Register_nodeconfig :: "registration list" where
  "Register_nodeconfig = [Runnable NeedLeaderElection_nodeconfig]"

fun registrations :: "controllerName \<Rightarrow> registration list" where
  "registrations RafayNodeClassCtrl = Register_rafaynodeclass"
| "registrations NodeProviderIDCtrl = Register_npid"
| "registrations HeadroomCtrl = Register_headroom"
| "registrations NodeAdoptionCtrl = Register_adoption"
| "registrations NodeConfigCtrl = Register_nodeconfig"
| "registrations BatchResumeCtrl = Register_batchresume"

text \<open>What \<^verbatim>\<open>main\<close> hands to the operator: its own controllers, then those of Karpenter.\<close>

definition allCtrls :: "settings \<Rightarrow> 'x list \<Rightarrow> (controllerName + 'x) list" where
  "allCtrls s coreCtrls = map Inl (se_controllers s) @ map Inr coreCtrls"

fun isReconciler :: "registration \<Rightarrow> bool" where
  "isReconciler (Reconciler _ _ _ _) = True"
| "isReconciler (Runnable _) = False"

lemmas register_eval = Register_rafaynodeclass_def Register_npid_def Register_adoption_def
  Register_headroom_def Register_batchresume_def Register_nodeconfig_def
  NeedLeaderElection_batchresume_def NeedLeaderElection_nodeconfig_def

text \<open>
  Whatever the environment, the reconcilers \<open>main\<close> starts have different names, as the controller
  runtime demands; the ones that decide over nodes (binding, adoption, headroom) never run two
  reconciles at a time, which is why their models take a reconcile as one step against the other
  writers; and what is run once at start runs on the leader only.
\<close>
theorem controllers_apart:
  assumes "main ce session env = Inr s"
  shows "(let regs = concat (map registrations (se_controllers s)) in
      distinct (map rg_name (filter isReconciler regs)) \<and>
      (\<forall>r \<in> set regs. isReconciler r \<and> rg_for r \<noteq> ''RafayNodeClass'' \<longrightarrow> rg_maxConcurrent r = 1) \<and>
      (\<forall>r \<in> set regs. \<not> isReconciler r \<longrightarrow> rg_leaderOnly r))"
  using assms by (auto simp: main_def andThen_Inr register_eval Let_def)

theorem controllers_apart_witness:
  "\<exists>s. main noCerts ''id'' plainEnv = Inr s \<and>
     distinct (map rg_name (filter isReconciler (concat (map registrations (se_controllers s)))))"
proof -
  have "isInsecure plainEnv" "trimSpace (Getenv plainEnv ''EDGE_BROKER_GRPC_HOST'') = ''h''"
    by (simp_all add: Getenv_def plainEnv_def plain_words isInsecure_def)
  then obtain s where s: "main noCerts ''id'' plainEnv = Inr s"
    by (simp add: main_def main_client_def Let_def)
  from controllers_apart [OF s] s show ?thesis by (auto simp: Let_def)
qed

section \<open>The PriorityClass\<close>

text \<open>
  A PriorityClass that exists is never changed; the class the controller makes itself passes its own
  check; and the check is silent exactly for a class with that value and policy, so one that would
  keep headroom pods from yielding, or let them evict others, is reported at every sync.
\<close>
theorem priority_class_guarded:
  "(cl_priorityClass c \<noteq> None \<longrightarrow> snd (ensurePriorityClass env c) = c) \<and>
   (cl_priorityClass c = None \<and> he_createClassErr env = None \<longrightarrow> fst (ensurePriorityClass env c) = (None, []) \<and>
      (\<exists>pc. cl_priorityClass (snd (ensurePriorityClass env c)) = Some pc \<and> checkPriorityClassDrift None pc = (None, []))) \<and>
   (checkPriorityClassDrift None existing = (None, []) \<longleftrightarrow> existing = (priorityValue, Some ''Never''))"
  by (cases existing) (auto simp: ensurePriorityClass_def checkPriorityClassDrift_def split: option.splits if_splits)

theorem priority_class_guarded_witness:
  "checkPriorityClassDrift None (0, None) \<noteq> (None, []) \<and> 
     snd (ensurePriorityClass exEnv (exCluster\<lparr>cl_priorityClass := Some (0, None)\<rparr>)) = exCluster\<lparr>cl_priorityClass := Some (0, None)\<rparr>"
  using priority_class_guarded [of "exCluster\<lparr>cl_priorityClass := Some (0, None)\<rparr>" exEnv "(0, None)"]
  by (simp add: priorityValue_def)

end
