(* ===== verification/Broker_Properties.thy ===== *)
theory Broker_Properties
  imports Broker_Client Batcher_Facts
begin

text \<open>
  What the broker connection guarantees: how often a request is issued, what becomes of the
  connection, which error a caller sees, and where the client dials.
\<close>

section \<open>Logging the attempts\<close>

text \<open>
  The environment with a log beside the world, and a request that logs the connection it was
  issued on.
\<close>

definition keep :: "('w \<Rightarrow> 'a \<times> 'w) \<Rightarrow> 'w \<times> 'l \<Rightarrow> 'a \<times> 'w \<times> 'l" where
  "keep f = (\<lambda>(w, l). case f w of (x, w') \<Rightarrow> (x, w', l))"

definition liftEnv :: "'w grpcEnv \<Rightarrow> ('w \<times> 'l) grpcEnv" where
  "liftEnv env =
     \<lparr>ge_newUUID = keep (ge_newUUID env), ge_openStream = (\<lambda>cc ctx. keep (ge_openStream env cc ctx)),
      ge_send = (\<lambda>st m. keep (ge_send env st m)), ge_recv = (\<lambda>st. keep (ge_recv env st)),
      ge_closeSend = (\<lambda>st (w, l). (ge_closeSend env st w, l)),
      ge_closeConn = (\<lambda>cc (w, l). (ge_closeConn env cc w, l)),
      ge_dialInsecure = (\<lambda>h p. keep (ge_dialInsecure env h p)),
      ge_dialSecure = (\<lambda>h p cr. keep (ge_dialSecure env h p cr)),
      ge_serverHost = ge_serverHost env, ge_credentials = ge_credentials env\<rparr>"

definition logged :: "(conn \<Rightarrow> 'w \<Rightarrow> 'a result \<times> 'w) \<Rightarrow> conn \<Rightarrow> 'w \<times> conn list \<Rightarrow> 'a result \<times> 'w \<times> conn list" where
  "logged fn cc = (\<lambda>(w, l). case fn cc w of (r, w') \<Rightarrow> (r, w', l @ [cc]))"

lemma dialBroker_lift: "dialBroker (liftEnv env) c (w, l) = (case dialBroker env c w of (r, w') \<Rightarrow> (r, w', l))"
  by (auto simp: dialBroker_def liftEnv_def keep_def Let_def split: sum.splits prod.splits)

lemma getConn_lift:
  "getConn (liftEnv env) (c, w, l) = (case getConn env (c, w) of (r, c', w') \<Rightarrow> (r, c', w', l))"
  by (auto simp: getConn_def dialBroker_lift split: option.splits sum.splits prod.splits)

lemma closeConn_lift:
  "closeConn (liftEnv env) (c, w, l) = (case closeConn env (c, w) of (c', w') \<Rightarrow> (c', w', l))"
  by (auto simp: closeConn_def closeConnLocked_def liftEnv_def split: option.splits)

lemma closeConn_None [simp]: "bc_conn (fst (closeConn env cw)) = None"
  by (auto simp: closeConn_def closeConnLocked_def split: prod.splits option.splits)

lemma getConn_Inr: "getConn env (c, w) = (Inr cc, c', w') \<Longrightarrow> bc_conn c' = Some cc"
  by (auto simp: getConn_def split: option.splits prod.splits sum.splits)

lemma getConn_Inl: "getConn env (c, w) = (Inl e, c', w') \<Longrightarrow> bc_conn c' = None"
  by (auto simp: getConn_def split: option.splits prod.splits sum.splits)

text \<open>
  A request that must not be repeated is issued at most once: \<open>callBrokerOnce\<close>, which sends the
  batches, runs its function on at most one connection. A success keeps that connection for the next
  call; an Unavailable status drops it, so that the next call dials; and when the function was not
  run at all the caller gets an error.
\<close>
theorem call_once_at_most_once:
  assumes "callBrokerOnce (liftEnv env) (logged fn) (c, w, []) = (r, c', w', l)"
  shows "length l \<le> 1 \<and> (l = [] \<longrightarrow> isl r \<and> bc_conn c' = None) \<and>
    (\<forall>x. r = Inr x \<longrightarrow> (\<exists>cc. l = [cc] \<and> bc_conn c' = Some cc)) \<and>
    (\<forall>e. r = Inl e \<and> l \<noteq> [] \<longrightarrow> bc_conn c' = (if shouldRedial e then None else Some (hd l)))"
proof (cases "getConn env (c, w)")
  case (fields g c1 w1)
  show ?thesis
  proof (cases g)
    case (Inl e)
    with assms fields getConn_Inl [of env c w e c1 w1] show ?thesis
      by (auto simp: callBrokerOnce_def getConn_lift)
  next
    case (Inr cc)
    with fields getConn_Inr [of env c w cc c1 w1] have c1: "bc_conn c1 = Some cc" by simp
    obtain r2 w2 where f: "fn cc w1 = (r2, w2)" by fastforce
    have cl: "bc_conn (fst (closeConn (liftEnv env) (c1, w2, [cc]))) = None" by (rule closeConn_None)
    show ?thesis
    proof (cases r2)
      case e: (Inl e)
      show ?thesis
      proof (cases "shouldRedial e")
        case True
        with assms fields Inr f e cl show ?thesis
          by (auto simp: callBrokerOnce_def getConn_lift logged_def closeConn_lift split: prod.splits)
      next
        case False
        with assms fields Inr f e c1 show ?thesis
          by (auto simp: callBrokerOnce_def getConn_lift logged_def)
      qed
    next
      case (Inr x)
      with assms fields \<open>g = Inr cc\<close> f c1 show ?thesis
        by (auto simp: callBrokerOnce_def getConn_lift logged_def)
    qed
  qed
qed

text \<open>A small environment: the broker answers \<open>reply\<close>, dialing gives connection 5.\<close>

definition envOf :: "gerror option \<Rightarrow> brokerReply result \<Rightarrow> nat grpcEnv" where
  "envOf sendErr reply =
     \<lparr>ge_newUUID = (\<lambda>w. (''uuid'', w)), ge_openStream = (\<lambda>cc ctx w. (Inr 1, w)),
      ge_send = (\<lambda>st m w. (sendErr, w)), ge_recv = (\<lambda>st w. (reply, w)),
      ge_closeSend = (\<lambda>st w. w), ge_closeConn = (\<lambda>cc w. w),
      ge_dialInsecure = (\<lambda>h p w. (Inr 5, w)), ge_dialSecure = (\<lambda>h p cr w. (Inr 5, w)),
      ge_serverHost = (\<lambda>p. Inr ''broker''), ge_credentials = (\<lambda>c k a. Inr (0, ''broker''))\<rparr>"

definition aClient :: BrokerClient where
  "aClient = NewBrokerClient [] [] [] 0 ''edge'' ''sid'' ''broker'' True"

definition unavailable :: gerror where
  "unavailable = GrpcError Unavailable ''down''"

lemma trimSpace_plain: "trimSpace ''broker'' = ''broker''" "trimSpace ''sid'' = ''sid''"
  by (simp_all add: trimSpace_def trimLeft_fixed space_runes_def hasPrefix_def)

lemma aClient_conn: "getConn (envOf e r) (aClient, w) = (Inr 5, aClient\<lparr>bc_conn := Some 5\<rparr>, w)"
  by (simp add: getConn_def dialBroker_def aClient_def NewBrokerClient_def envOf_def trimSpace_plain)

lemma aClient_close: "closeConn (envOf e r) (aClient\<lparr>bc_conn := Some 5\<rparr>, w) = (aClient\<lparr>bc_conn := None\<rparr>, w)"
  by (simp add: closeConn_def closeConnLocked_def envOf_def)

theorem call_once_at_most_once_witness:
  "\<exists>r c' w' l. callBrokerOnce (liftEnv (envOf None (Inl unavailable))) (logged (\<lambda>cc w. (Inl unavailable :: nat result, w)))
     (aClient, 0, []) = (r, c', w', l) \<and> length l \<le> 1 \<and> bc_conn c' = None"
proof -
  let ?call = "callBrokerOnce (liftEnv (envOf None (Inl unavailable))) (logged (\<lambda>cc w. (Inl unavailable :: nat result, w)))
     (aClient, 0, [])"
  obtain r c' w' l where c: "?call = (r, c', w', l)" by (cases ?call) auto
  then have "r = Inl unavailable \<and> l = [5]"
    by (auto simp: callBrokerOnce_def getConn_lift aClient_conn logged_def closeConn_lift aClient_close split: prod.splits if_splits)
  with call_once_at_most_once [OF c] have "bc_conn c' = None" "length l \<le> 1"
    by (auto simp: shouldRedial_def unavailable_def)
  with c show ?thesis by blast
qed

text \<open>
  A request that may be repeated is issued at most twice, and twice only after an Unavailable
  status on the first connection: \<open>callBroker\<close> then closes that connection, dials again and returns
  whatever the second attempt returns. Any other error, and any success, is returned from the one
  attempt.
\<close>
theorem call_retried_once:
  assumes "callBroker (liftEnv env) (logged fn) (c, w, []) = (r, c', w', l)"
    and "getConn env (c, w) = (Inr cc, c1, w1)"
  shows "hd l = cc \<and> length l \<in> {1, 2} \<and>
    (length l = 2 \<longrightarrow> (\<exists>e w2 c2 w3. fn cc w1 = (Inl e, w2) \<and> shouldRedial e \<and>
       closeConn env (c1, w2) = (c2, w3) \<and> bc_conn c2 = None \<and>
       (\<exists>c3 w4. getConn env (c2, w3) = (Inr (l ! 1), c3, w4) \<and> fn (l ! 1) w4 = (r, w')))) \<and>
    ((\<nexists>e. fst (fn cc w1) = Inl e \<and> shouldRedial e) \<longrightarrow>
       l = [cc] \<and> (r, w') = fn cc w1 \<and> bc_conn c' = Some cc)"
proof -
  obtain r2 w2 where f: "fn cc w1 = (r2, w2)" by fastforce
  show ?thesis
  proof (cases "\<exists>e. r2 = Inl e \<and> shouldRedial e")
    case False
    with assms f getConn_Inr [OF assms(2)] show ?thesis
      by (cases r2) (auto simp: callBroker_def getConn_lift logged_def)
  next
    case True
    then obtain e where e: "r2 = Inl e" "shouldRedial e" by blast
    obtain c2 w3 where cl: "closeConn env (c1, w2) = (c2, w3)" by fastforce
    from closeConn_None [of env "(c1, w2)"] cl have n: "bc_conn c2 = None" by simp
    obtain g c3 w4 where g: "getConn env (c2, w3) = (g, c3, w4)" by (metis prod_cases3)
    obtain r5 w5 where f2: "\<And>x. g = Inr x \<Longrightarrow> fn x w4 = (r5, w5)"
      by (cases g) (auto, metis surj_pair)
    show ?thesis using assms f e cl g f2 n
      by (cases g) (auto simp: callBroker_def getConn_lift closeConn_lift logged_def)
  qed
qed

theorem call_retried_once_witness:
  "\<exists>r c' w' l. callBroker (liftEnv (envOf None (Inl unavailable))) (logged (\<lambda>cc w. (Inl unavailable :: nat result, w)))
     (aClient, 0, []) = (r, c', w', l) \<and> length l \<le> 2 \<and> hd l = 5"
proof -
  let ?call = "callBroker (liftEnv (envOf None (Inl unavailable))) (logged (\<lambda>cc w. (Inl unavailable :: nat result, w)))
     (aClient, 0, [])"
  obtain r c' w' l where c: "?call = (r, c', w', l)" by (cases ?call) auto
  from call_retried_once [OF c aClient_conn] have "length l \<le> 2" "hd l = 5" by auto
  with c show ?thesis by blast
qed

section \<open>Sending a batch\<close>

lemma client_SendBatch_call:
  assumes "bc_conn c = Some cc" and "trimSpace (bc_StreamID c) \<noteq> []"
  shows "client_SendBatch env nodes (c, w) =
    (case stream_sendBatch env \<lparr>cx_sessionid = Some (trimSpace (bc_StreamID c)), cx_timeout = brokerCallTimeout\<rparr> cc nodes w of
       (Inr x, w2) \<Rightarrow> (Inr x, c, w2)
     | (Inl e, w2) \<Rightarrow>
         (Inl e, if shouldRedial e then (c\<lparr>bc_conn := None\<rparr>, ge_closeConn env cc w2) else (c, w2)))"
proof -
  have "streamContext c brokerCallTimeout =
      \<lparr>cx_sessionid = Some (trimSpace (bc_StreamID c)), cx_timeout = brokerCallTimeout\<rparr>"
    using assms(2) by (simp add: streamContext_def)
  moreover have "closeConn env (c, v) = (c\<lparr>bc_conn := None\<rparr>, ge_closeConn env cc v)" for v
    using assms(1) by (simp add: closeConn_def closeConnLocked_def)
  ultimately show ?thesis using assms
    by (simp add: client_SendBatch_def callBrokerOnce_def getConn_def split: sum.splits prod.splits)
qed

text \<open>
  The outcome of sending a batch, on every branch. Without a stream ID, or with no nodes, no
  stream is opened. Otherwise, with a connection and an open stream: an accepted batch gives the ID
  the broker chose; a rejection gives an error that is \<open>ErrBatchRejected\<close>, whatever the reason; a
  failed send gives the status that receiving reports; and the connection is dropped exactly when
  the error carries the status Unavailable, even through the wrapping of the failed send.
\<close>
theorem send_batch_outcomes:
  assumes cc: "bc_conn c = Some cc" and sid: "trimSpace (bc_StreamID c) \<noteq> []" and ne: "nodes \<noteq> []"
    and uid: "ge_newUUID env w = (uid, w1)"
    and opn: "ge_openStream env cc \<lparr>cx_sessionid = Some (trimSpace (bc_StreamID c)),
       cx_timeout = brokerCallTimeout\<rparr> w1 = (Inr st, w2)"
    and snd: "ge_send env st (BatchAdd uid nodes) w2 = (se, w3)" and rcv: "ge_recv env st w3 = (rr, w4)"
  shows "case (se, rr) of
      (Some e, Inl e') \<Rightarrow> (\<exists>w5. client_SendBatch env nodes (c, w) =
         (Inl (Wrapf ''sendBatch: send: %w'' [] e'),
          (if grpcStatus e' = Some Unavailable then c\<lparr>bc_conn := None\<rparr> else c), w5))
    | (Some e, Inr _) \<Rightarrow> (\<exists>w5. client_SendBatch env nodes (c, w) =
         (Inl (Wrapf ''sendBatch: send: %w'' [] e),
          (if grpcStatus e = Some Unavailable then c\<lparr>bc_conn := None\<rparr> else c), w5))
    | (None, Inl e') \<Rightarrow> (\<exists>w5. client_SendBatch env nodes (c, w) =
         (Inl (Wrapf ''sendBatch: recv: %w'' [] e'),
          (if grpcStatus e' = Some Unavailable then c\<lparr>bc_conn := None\<rparr> else c), w5))
    | (None, Inr reply) \<Rightarrow>
        (case rp_BatchAccepted reply of
           Some bid \<Rightarrow> client_SendBatch env nodes (c, w) = (Inr bid, c, ge_closeSend env st w4)
         | None \<Rightarrow> (\<exists>e w5. client_SendBatch env nodes (c, w) = (Inl e, c, w5) \<and>
             (rp_BatchRejected reply \<noteq> None \<longrightarrow> errorsIs e ErrBatchRejected)))"
proof -
  show ?thesis unfolding client_SendBatch_call [OF cc sid] using ne uid opn snd rcv
    by (auto simp: stream_sendBatch_def sendError_def shouldRedial_def split: option.splits sum.splits)
qed

theorem send_batch_outcomes_witness:
  "\<exists>e w5. client_SendBatch (envOf (Some (ExternalError ''EOF'')) (Inl unavailable)) [toAddItem (resumeItem ''u'')] (aClient\<lparr>bc_conn := Some 5\<rparr>, 0) =
     (Inl e, aClient\<lparr>bc_conn := None\<rparr>, w5) \<and> shouldRedial e"
proof -
  let ?env = "envOf (Some (ExternalError ''EOF'')) (Inl unavailable)"
  have s: "trimSpace (bc_StreamID (aClient\<lparr>bc_conn := Some 5\<rparr>)) \<noteq> []" and
    b: "bc_conn (aClient\<lparr>bc_conn := Some 5\<rparr>) = Some 5"
    by (simp_all add: aClient_def NewBrokerClient_def trimSpace_plain)
  have env: "ge_newUUID ?env 0 = (''uuid'', 0)" "\<And>cc ctx. ge_openStream ?env cc ctx 0 = (Inr 1, 0)"
    "\<And>m. ge_send ?env 1 m 0 = (Some (ExternalError ''EOF''), 0)" "ge_recv ?env 1 0 = (Inl unavailable, 0)"
    by (simp_all add: envOf_def)
  from send_batch_outcomes [OF b s, of "[toAddItem (resumeItem ''u'')]" ?env, OF _ env(1) env(2) env(3) env(4)]
  show ?thesis by (auto simp: unavailable_def shouldRedial_def)
qed

section \<open>The client under the batcher\<close>

text \<open>What a send leaves, for the two kinds of outcome of the client's call.\<close>

lemma sendAddBatch_accepted:
  assumes "client_SendBatch env (map toAddItem batch) cw = (Inr bid, cw1)"
    and "sendAddBatch (clientBroker env) now batch (cw, b) = (cw', b')" and "i \<in> set batch"
  shows "nb_pending b' (bi_operationID i) = None \<and> enqueue_check (bi_operationID i) b' = Some bid \<and>
    map_option ipb_items (nb_inProgress b' bid) = Some batch \<and>
    (\<forall>ch \<in> set (waiters b (bi_operationID i)). ackResult bid \<in> set (nb_chans b' ch))"
proof -
  from assms(1,2) have b': "b' = registerAndAck now opKindAdd bid batch b"
    by (simp add: sendAddBatch_def clientBroker_def)
  have "waiters (registerBatch now opKindAdd bid batch b) op = waiters b op" for op
    by (simp add: waiters_def)
  with assms(3) show ?thesis unfolding b' registerAndAck_def
    by (auto simp: fold_resolve_pending enqueue_check_def fold_resolve_sends)
qed

lemma sendAddBatch_failed:
  assumes "client_SendBatch env (map toAddItem batch) cw = (Inl e, cw1)"
    and "sendAddBatch (clientBroker env) now batch (cw, b) = (cw', b')" and "i \<in> set batch"
  shows "nb_pending b' (bi_operationID i) = None \<and> enqueue_check op b' = enqueue_check op b \<and>
    nb_inProgress b' = nb_inProgress b \<and>
    (\<forall>ch \<in> set (waiters b (bi_operationID i)). sendFailure opKindAdd e \<in> set (nb_chans b' ch))"
proof -
  from assms(1,2) have b': "b' = failBatchSend opKindAdd batch e b"
    by (simp add: sendAddBatch_def clientBroker_def)
  from assms(3) show ?thesis unfolding b' failBatchSend_def
    by (auto simp: fold_resolve_pending enqueue_check_def fold_resolve_sends)
qed

section \<open>Dialing\<close>

text \<open>
  Where the client dials. The trimmed \<open>DialHost\<close> wins over the host in the certificate, with TLS
  as without; the port is the configured one when positive and otherwise 5449 without TLS, 5448 with
  it; without a host and without a certificate there is no dial at all, only an error.
\<close>
theorem dial_target:
  "(trimSpace (bc_DialHost c) \<noteq> [] \<and> bc_GRPCInsecure c \<longrightarrow>
      dialBroker env c w = ge_dialInsecure env (trimSpace (bc_DialHost c))
        (if bc_BrokerPort c \<le> 0 then 5449 else bc_BrokerPort c) w) \<and>
   (\<not> bc_GRPCInsecure c \<and> ge_serverHost env (bc_CertPath c) = Inr h \<and> bc_CertPath c \<noteq> [] \<and>
    ge_credentials env (bc_CertPath c) (bc_KeyPath c) (bc_CAPath c) = Inr (creds, tlsHost) \<longrightarrow>
      dialBroker env c w = ge_dialSecure env
        (if trimSpace (bc_DialHost c) = [] then tlsHost else trimSpace (bc_DialHost c))
        (if bc_BrokerPort c \<le> 0 then 5448 else bc_BrokerPort c) creds w) \<and>
   (trimSpace (bc_DialHost c) = [] \<and> bc_CertPath c = [] \<longrightarrow>
      isl (fst (dialBroker env c w)) \<and> snd (dialBroker env c w) = w)"
  by (simp add: dialBroker_def dialPort_def defaultEdgeBrokerRPCPort_def defaultEdgeClientTLSPort_def)

theorem dial_target_witness:
  "dialBroker (envOf None (Inl unavailable)) aClient 0 = ge_dialInsecure (envOf None (Inl unavailable)) ''broker'' 5449 0"
proof -
  have "trimSpace (bc_DialHost aClient) = ''broker''" "bc_GRPCInsecure aClient" "bc_BrokerPort aClient = 0"
    by (simp_all add: aClient_def NewBrokerClient_def trimSpace_plain)
  with dial_target [of aClient "envOf None (Inl unavailable)" 0] show ?thesis by simp
qed

end
