(* ===== verification/Batch_Resume.thy ===== *)
theory Batch_Resume
  imports Node_Matching Batcher_Facts
begin

text \<open>
  The one-shot controller of \<^verbatim>\<open>pkg/controllers/batchresume/controller.go\<close>: after a restart it
  groups the pending NodeClaims by the batch they were sent in and hands each batch to the batcher.
  The order in which Go walks the map of batches is a parameter. What the controller needs of the
  batcher is the locale \<open>batch_tracker\<close>, met by \<open>ResumeAddBatch\<close>.
\<close>

definition claimBatch :: "'q NodeClaim \<Rightarrow> string" where
  "claimBatch nc = trimSpace (lookup (nc_Annotations nc) BatchIDAnnotationKey)"

definition groupClaim :: "'q NodeClaim \<Rightarrow> (string \<rightharpoonup> string list) \<Rightarrow> (string \<rightharpoonup> string list)" where
  "groupClaim nc m =
     (if nc_DeletionTimestamp nc \<noteq> None then m
      else if \<not> is_pending (nc_ProviderID nc) then m
      else if claimBatch nc = [] then m
      else m(claimBatch nc \<mapsto> (case m (claimBatch nc) of None \<Rightarrow> [] | Some ops \<Rightarrow> ops) @ [nc_UID nc]))"

definition groupByBatch :: "'q NodeClaim list \<Rightarrow> (string \<rightharpoonup> string list)" where
  "groupByBatch claims = fold groupClaim claims Map.empty"

text \<open>The loop over the batches: the counters \<open>resumed\<close> and \<open>claimsResumed\<close>, and the batcher.\<close>

fun resumeAll ::
  "(string \<Rightarrow> string list \<Rightarrow> 's \<Rightarrow> bool \<times> 's) \<Rightarrow> (string \<times> string list) list \<Rightarrow> nat \<times> nat \<times> 's
    \<Rightarrow> nat \<times> nat \<times> 's" where
  "resumeAll resume [] st = st"
| "resumeAll resume ((batchID, ops) # rest) (resumed, claimsResumed, s) =
     (case resume batchID ops s of
        (True, s') \<Rightarrow> resumeAll resume rest (Suc resumed, claimsResumed + length ops, s')
      | (False, s') \<Rightarrow> resumeAll resume rest (resumed, claimsResumed, s'))"

definition Start_batchresume ::
  "(string \<Rightarrow> time) \<Rightarrow> 'q NodeClaim list result \<Rightarrow> string list \<Rightarrow> NodeBatcher \<Rightarrow> nat \<times> nat \<times> NodeBatcher" where
  "Start_batchresume clock listing order b =
     (case listing of
        Inl e \<Rightarrow> (0, 0, b)
      | Inr claims \<Rightarrow>
          resumeAll (\<lambda>batchID. ResumeAddBatch (clock batchID) batchID)
            (map (\<lambda>batchID. (batchID, the (groupByBatch claims batchID))) order) (0, 0, b))"

section \<open>The groups\<close>

definition resumable :: "'q NodeClaim \<Rightarrow> bool" where
  "resumable nc \<longleftrightarrow>
     nc_DeletionTimestamp nc = None \<and> is_pending (nc_ProviderID nc) \<and> claimBatch nc \<noteq> []"

text \<open>The operations of the claims of a batch.\<close>

definition batchOps :: "'q NodeClaim list \<Rightarrow> string \<Rightarrow> string list" where
  "batchOps claims batchID = map nc_UID (filter (\<lambda>nc. resumable nc \<and> claimBatch nc = batchID) claims)"

lemma groupByBatch_eq:
  "groupByBatch claims batchID = (if batchOps claims batchID = [] then None else Some (batchOps claims batchID))"
proof (induction claims arbitrary: batchID rule: rev_induct)
  case Nil
  then show ?case by (simp add: groupByBatch_def batchOps_def)
next
  case (snoc nc claims)
  have "groupByBatch (claims @ [nc]) = groupClaim nc (groupByBatch claims)"
    by (simp add: groupByBatch_def)
  with snoc show ?case by (auto simp: groupClaim_def batchOps_def resumable_def)
qed

lemma dom_groupByBatch: "dom (groupByBatch claims) = {bid. batchOps claims bid \<noteq> []}"
  by (auto simp: groupByBatch_eq dom_def split: if_splits)

lemma batchOps_mem: "op \<in> set (batchOps claims bid) \<longleftrightarrow>
    (\<exists>nc \<in> set claims. resumable nc \<and> claimBatch nc = bid \<and> nc_UID nc = op)"
  by (auto simp: batchOps_def)

section \<open>What the controller needs of the batcher\<close>

definition cleanOp :: "string \<Rightarrow> bool" where
  "cleanOp x \<longleftrightarrow> x \<noteq> [] \<and> trimSpace x = x"

definition cleanBatch :: "string \<times> string list \<Rightarrow> bool" where
  "cleanBatch = (\<lambda>(bid, ops). cleanOp bid \<and> ops \<noteq> [] \<and> (\<forall>op \<in> set ops. cleanOp op))"

text \<open>
  \<open>tracked s\<close> gives the operations of each batch in progress, \<open>owner s\<close> the batch an operation in
  flight is in. A batch is taken exactly when none of its name is tracked; then its operations are
  its own, and nothing else changes.
\<close>

locale batch_tracker =
  fixes resume :: "string \<Rightarrow> string list \<Rightarrow> 's \<Rightarrow> bool \<times> 's"
    and tracked :: "'s \<Rightarrow> string \<Rightarrow> string set option"
    and owner :: "'s \<Rightarrow> string \<Rightarrow> string option"
  assumes taken: "cleanBatch (bid, ops) \<Longrightarrow> fst (resume bid ops s) \<longleftrightarrow> tracked s bid = None"
    and tracks: "cleanBatch (bid, ops) \<Longrightarrow> tracked s bid = None \<Longrightarrow>
      tracked (snd (resume bid ops s)) = (tracked s)(bid := Some (set ops))"
    and owns: "cleanBatch (bid, ops) \<Longrightarrow> tracked s bid = None \<Longrightarrow>
      owner (snd (resume bid ops s)) op = (if op \<in> set ops then Some bid else owner s op)"
    and keeps: "\<not> fst (resume bid ops s) \<Longrightarrow> snd (resume bid ops s) = s"
begin

lemma step_tracked:
  assumes "cleanBatch (bid, ops)"
  shows "tracked (snd (resume bid ops s)) =
    (if tracked s bid = None then (tracked s)(bid := Some (set ops)) else tracked s)"
  using tracks [OF assms] taken [OF assms] keeps by auto

lemma step_owner:
  assumes "cleanBatch (bid, ops)"
  shows "owner (snd (resume bid ops s)) op =
    (if tracked s bid = None \<and> op \<in> set ops then Some bid else owner s op)"
proof (cases "tracked s bid = None")
  case True
  with owns [OF assms] show ?thesis by simp
next
  case False
  then obtain y where y: "tracked s bid = Some y" by auto
  with taken [OF assms] have "\<not> fst (resume bid ops s)" by simp
  with keeps y show ?thesis by simp
qed

lemma resumeAll_Cons:
  "resumeAll resume ((bid, ops) # rest) (r, c, s) =
     resumeAll resume rest (r + (if fst (resume bid ops s) then 1 else 0),
       c + (if fst (resume bid ops s) then length ops else 0), snd (resume bid ops s))"
  by (simp split: prod.splits bool.splits)

lemma all_tracked:
  assumes "distinct (map fst bs)" and "\<forall>x \<in> set bs. cleanBatch x"
  shows "tracked (snd (snd (resumeAll resume bs (r, c, s)))) bid =
    (if tracked s bid = None then map_option set (map_of bs bid) else tracked s bid)"
  using assms
proof (induction bs arbitrary: r c s)
  case Nil
  then show ?case by simp
next
  case (Cons x bs)
  obtain b0 ops where x: "x = (b0, ops)" by (cases x)
  from Cons.prems x have cl: "cleanBatch (b0, ops)" and n: "b0 \<notin> fst ` set bs"
    by auto
  then have "map_of bs b0 = None" by (simp add: map_of_eq_None_iff)
  with Cons x cl show ?case by (auto simp: resumeAll_Cons step_tracked simp del: resumeAll.simps)
qed

lemma all_counts:
  assumes "distinct (map fst bs)" and "\<forall>x \<in> set bs. cleanBatch x"
  shows "resumeAll resume bs (r, c, s) =
    (r + length (filter (\<lambda>x. tracked s (fst x) = None) bs),
     c + sum_list (map (\<lambda>x. length (snd x)) (filter (\<lambda>x. tracked s (fst x) = None) bs)),
     snd (snd (resumeAll resume bs (r, c, s))))"
  using assms
proof (induction bs arbitrary: r c s)
  case Nil
  then show ?case by simp
next
  case (Cons x bs)
  obtain b0 ops where x: "x = (b0, ops)" by (cases x)
  from Cons.prems x have cl: "cleanBatch (b0, ops)" and n: "\<forall>y \<in> set bs. fst y \<noteq> b0"
    by force+
  let ?s = "snd (resume b0 ops s)"
  from n have "filter (\<lambda>y. tracked ?s (fst y) = None) bs = filter (\<lambda>y. tracked s (fst y) = None) bs"
    by (intro filter_cong) (auto simp: step_tracked [OF cl])
  note f = this
  from Cons.prems have d: "distinct (map fst bs)" "\<forall>x \<in> set bs. cleanBatch x" by simp_all
  note ih = Cons.IH [OF d, of _ _ ?s, unfolded f]
  show ?case
  proof (cases "tracked s b0 = None")
    case True
    then show ?thesis unfolding x resumeAll_Cons taken [OF cl] by (subst ih) simp
  next
    case False
    then obtain y where "tracked s b0 = Some y" by auto
    then show ?thesis unfolding x resumeAll_Cons taken [OF cl] by (subst ih) simp
  qed
qed

lemma all_owner:
  assumes "distinct (map fst bs)" and "\<forall>x \<in> set bs. cleanBatch x"
    and "\<forall>x \<in> set bs. \<forall>y \<in> set bs. op \<in> set (snd x) \<longrightarrow> op \<in> set (snd y) \<longrightarrow> x = y"
  shows "owner (snd (snd (resumeAll resume bs (r, c, s)))) op =
    (case find (\<lambda>x. op \<in> set (snd x) \<and> tracked s (fst x) = None) bs of
       Some x \<Rightarrow> Some (fst x) | None \<Rightarrow> owner s op)"
  using assms
proof (induction bs arbitrary: r c s)
  case Nil
  then show ?case by simp
next
  case (Cons x bs)
  obtain b0 ops where x: "x = (b0, ops)" by (cases x)
  from Cons.prems x have cl: "cleanBatch (b0, ops)" and n: "\<forall>y \<in> set bs. fst y \<noteq> b0"
    by force+
  let ?s = "snd (resume b0 ops s)"
  from Cons.prems(1,2) have d: "distinct (map fst bs)" "\<forall>x \<in> set bs. cleanBatch x" by simp_all
  from Cons.prems(3) have o: "\<forall>x \<in> set bs. \<forall>y \<in> set bs. op \<in> set (snd x) \<longrightarrow> op \<in> set (snd y) \<longrightarrow> x = y"
    by simp
  from n have f: "find (\<lambda>y. op \<in> set (snd y) \<and> tracked ?s (fst y) = None) bs =
      find (\<lambda>y. op \<in> set (snd y) \<and> tracked s (fst y) = None) bs"
    by (intro find_cong) (auto simp: step_tracked [OF cl])
  note ih = Cons.IH [OF d o, of _ _ ?s, unfolded f]
  show ?case
  proof (cases "op \<in> set ops \<and> tracked s b0 = None")
    case True
    have "\<forall>y \<in> set bs. op \<notin> set (snd y)"
    proof
      fix y assume y: "y \<in> set bs"
      with n have "x \<noteq> y" by (auto simp: x)
      with y Cons.prems(3) True show "op \<notin> set (snd y)" unfolding x by (metis list.set_intros snd_conv)
    qed
    then have "find (\<lambda>y. op \<in> set (snd y) \<and> tracked s (fst y) = None) bs = None"
      by (auto simp: find_None_iff)
    moreover have "owner ?s op = Some b0" using True by (simp add: step_owner [OF cl])
    ultimately show ?thesis using True unfolding x resumeAll_Cons ih by simp
  next
    case False
    have "find (\<lambda>y. op \<in> set (snd y) \<and> tracked s (fst y) = None) (x # bs) =
        find (\<lambda>y. op \<in> set (snd y) \<and> tracked s (fst y) = None) bs"
      by (simp only: x find.simps fst_conv snd_conv False if_False)
    moreover have "owner ?s op = owner s op" using False by (auto simp: step_owner [OF cl])
    ultimately show ?thesis by (simp only: x resumeAll_Cons ih)
  qed
qed

end

definition trackedOps :: "NodeBatcher \<Rightarrow> string \<Rightarrow> string set option" where
  "trackedOps b bid = map_option (\<lambda>ipb. bi_operationID ` set (ipb_items ipb)) (nb_inProgress b bid)"

lemma resume_clean:
  assumes "cleanBatch (bid, ops)"
  shows "fst (ResumeAddBatch now bid ops b) \<longleftrightarrow> nb_inProgress b bid = None"
    and "bi_operationID ` set (resumeItems ops) = set ops" and "trimSpace bid = bid"
proof -
  from assms have o: "\<forall>op \<in> set ops. trimSpace op = op \<and> op \<noteq> []" and bid: "trimSpace bid = bid" "bid \<noteq> []"
    and ne: "ops \<noteq> []" by (auto simp: cleanBatch_def cleanOp_def)
  show img: "bi_operationID ` set (resumeItems ops) = set ops" unfolding resumeItems_ops using o by force
  with ne have "resumeItems ops \<noteq> []" by auto
  with bid show "fst (ResumeAddBatch now bid ops b) \<longleftrightarrow> nb_inProgress b bid = None" "trimSpace bid = bid"
    by (simp_all add: ResumeAddBatch_def Let_def)
qed

interpretation resuming: batch_tracker "\<lambda>bid. ResumeAddBatch (clock bid) bid" trackedOps "\<lambda>b op. enqueue_check op b"
  for clock
proof unfold_locales
  fix bid ops b
  assume cl: "cleanBatch (bid, ops)"
  note rc = resume_clean [OF cl]
  show "fst (ResumeAddBatch (clock bid) bid ops b) \<longleftrightarrow> trackedOps b bid = None"
    by (simp add: rc trackedOps_def)
  assume none: "trackedOps b bid = None"
  then have "fst (ResumeAddBatch (clock bid) bid ops b)" by (simp add: rc trackedOps_def)
  then obtain b' where b': "ResumeAddBatch (clock bid) bid ops b = (True, b')" by (metis prod.collapse)
  note t = ResumeAddBatch_True(1) [OF b']
  show "trackedOps (snd (ResumeAddBatch (clock bid) bid ops b)) = (trackedOps b)(bid := Some (set ops))"
    by (rule ext) (simp add: b' t trackedOps_def rc)
  show "enqueue_check op (snd (ResumeAddBatch (clock bid) bid ops b)) =
      (if op \<in> set ops then Some bid else enqueue_check op b)" for op
    using rc(2) by (simp add: b' t enqueue_check_def rc)
next
  fix bid ops b
  assume "\<not> fst (ResumeAddBatch (clock bid) bid ops b)"
  then obtain b' where "ResumeAddBatch (clock bid) bid ops b = (False, b')" by (metis prod.collapse)
  with ResumeAddBatch_False [OF this] show "snd (ResumeAddBatch (clock bid) bid ops b) = b" by simp
qed

section \<open>What a resume does\<close>

text \<open>The identifiers the API server gives are UUIDs: not blank, no white space around them.\<close>

definition cleanUIDs :: "'q NodeClaim list \<Rightarrow> bool" where
  "cleanUIDs claims \<longleftrightarrow> (\<forall>nc \<in> set claims. cleanOp (nc_UID nc))"

definition someOrder :: "'q NodeClaim list \<Rightarrow> string list \<Rightarrow> bool" where
  "someOrder claims order \<longleftrightarrow> distinct order \<and> set order = dom (groupByBatch claims)"

abbreviation entries :: "'q NodeClaim list \<Rightarrow> string list \<Rightarrow> (string \<times> string list) list" where
  "entries claims order \<equiv> map (\<lambda>bid. (bid, the (groupByBatch claims bid))) order"

lemma entries_ok:
  assumes "cleanUIDs claims" and "someOrder claims order"
  shows "distinct (map fst (entries claims order))" and "\<forall>x \<in> set (entries claims order). cleanBatch x"
    and "map_of (entries claims order) bid = groupByBatch claims bid"
    and "(bid, ops) \<in> set (entries claims order) \<longleftrightarrow> ops \<noteq> [] \<and> ops = batchOps claims bid"
proof -
  from assms(2) have d: "distinct order" and o: "set order = {bid. batchOps claims bid \<noteq> []}"
    by (simp_all add: someOrder_def dom_groupByBatch)
  show "distinct (map fst (entries claims order))" using d by (simp add: comp_def)
  show mem: "(bid, ops) \<in> set (entries claims order) \<longleftrightarrow> ops \<noteq> [] \<and> ops = batchOps claims bid" for bid ops
    using o by (auto simp: groupByBatch_eq)
  show "\<forall>x \<in> set (entries claims order). cleanBatch x"
  proof (clarsimp simp only: mem split_paired_all)
    fix bid
    assume "batchOps claims bid \<noteq> []"
    then obtain nc where "nc \<in> set claims" "resumable nc" "claimBatch nc = bid"
      by (auto simp: batchOps_def filter_empty_conv)
    then have "cleanOp bid" by (auto simp: resumable_def cleanOp_def claimBatch_def)
    with \<open>batchOps claims bid \<noteq> []\<close> assms(1) show "cleanBatch (bid, batchOps claims bid)"
      by (auto simp: cleanBatch_def cleanUIDs_def batchOps_mem)
  qed
  show "map_of (entries claims order) bid = groupByBatch claims bid"
    using o by (cases "bid \<in> set order") (auto simp: map_of_map_restrict groupByBatch_eq)
qed

text \<open>
  C19: A restart loses no pending add: after the resume pass, whatever order the batches are walked in,
  the batcher tracks exactly the batches it tracked before and one per batch ID that a pending, not
  deleted NodeClaim carries, each with exactly the operations of those claims; a batch it already
  tracked is left alone. No other claim is polled for. Nothing happens when the list fails.
\<close>
theorem resume_covers_pending:
  assumes "cleanUIDs claims" and "someOrder claims order"
  shows "trackedOps (snd (snd (Start_batchresume clock (Inr claims) order b))) bid =
      (case trackedOps b bid of
         Some ops \<Rightarrow> Some ops
       | None \<Rightarrow>
           (let ops = {nc_UID nc | nc. nc \<in> set claims \<and> nc_DeletionTimestamp nc = None \<and>
               is_pending (nc_ProviderID nc) \<and> claimBatch nc = bid \<and> bid \<noteq> []}
            in if ops = {} then None else Some ops)) \<and>
    Start_batchresume clock (Inl e) order b = (0, 0, b)"
proof (rule conjI)
  note ok = entries_ok [OF assms]
  have ops: "{nc_UID nc | nc. nc \<in> set claims \<and> nc_DeletionTimestamp nc = None \<and>
      is_pending (nc_ProviderID nc) \<and> claimBatch nc = bid \<and> bid \<noteq> []} = set (batchOps claims bid)"
    by (auto simp: batchOps_mem resumable_def)
  have "trackedOps (snd (snd (Start_batchresume clock (Inr claims) order b))) bid =
      (if trackedOps b bid = None then map_option set (groupByBatch claims bid) else trackedOps b bid)"
    using resuming.all_tracked [OF ok(1,2), of clock 0 0 b bid]
    unfolding Start_batchresume_def ok(3) by simp
  then show "trackedOps (snd (snd (Start_batchresume clock (Inr claims) order b))) bid =
      (case trackedOps b bid of
         Some ops \<Rightarrow> Some ops
       | None \<Rightarrow>
           (let ops = {nc_UID nc | nc. nc \<in> set claims \<and> nc_DeletionTimestamp nc = None \<and>
               is_pending (nc_ProviderID nc) \<and> claimBatch nc = bid \<and> bid \<noteq> []}
            in if ops = {} then None else Some ops))"
    unfolding ops Let_def groupByBatch_eq by (simp split: option.splits)
  show "Start_batchresume clock (Inl e) order b = (0, 0, b)" by (simp add: Start_batchresume_def)
qed

text \<open>
  After a restart a repeated \<open>Create\<close> of a pending claim is acknowledged from the resumed state:
  for a pending claim whose batch the batcher did not track yet, enqueueing its operation again
  answers at once with the very batch ID on the claim and sends nothing to the broker.
\<close>
theorem resume_answers_create:
  assumes "cleanUIDs claims" and "someOrder claims order" and "distinct (map nc_UID claims)"
    and "nc \<in> set claims" and "nc_DeletionTimestamp nc = None" and "is_pending (nc_ProviderID nc)"
    and "claimBatch nc \<noteq> []" and "nb_inProgress b (claimBatch nc) = None"
    and "Start_batchresume clock (Inr claims) order b = (r, c, b1)" and "Enqueue (nc_UID nc) req b1 = (ch, b2)"
  shows "b2 = sendChan (ackResult (claimBatch nc)) ch (snd (makeChan b1)) \<and> nb_queue b2 = nb_queue b1"
proof -
  note ok = entries_ok [OF assms(1,2)]
  have same: "x = y" if "x \<in> set (entries claims order)" "y \<in> set (entries claims order)"
    "nc_UID nc \<in> set (snd x)" "nc_UID nc \<in> set (snd y)" for x y
  proof -
    obtain bx ox by' oy where x: "x = (bx, ox)" and y: "y = (by', oy)" by (cases x, cases y) blast
    from that x y ok(4) have "nc_UID nc \<in> set (batchOps claims bx)" "nc_UID nc \<in> set (batchOps claims by')"
      by auto
    then obtain c1 c2 where "c1 \<in> set claims" "claimBatch c1 = bx" "nc_UID c1 = nc_UID nc"
      "c2 \<in> set claims" "claimBatch c2 = by'" "nc_UID c2 = nc_UID nc" unfolding batchOps_mem by blast
    with assms(3) have "bx = by'" by (metis distinct_map inj_onD)
    with that(1,2) show ?thesis unfolding x y ok(4) by simp
  qed
  let ?bid = "claimBatch nc"
  have op: "nc_UID nc \<in> set (batchOps claims ?bid)"
    using assms(4-7) by (auto simp: batchOps_mem resumable_def)
  then have "batchOps claims ?bid \<noteq> []" by auto
  then have e: "(?bid, batchOps claims ?bid) \<in> set (entries claims order)" unfolding ok(4) by simp
  have none: "trackedOps b ?bid = None" using assms(8) by (simp add: trackedOps_def)
  have "find (\<lambda>x. nc_UID nc \<in> set (snd x) \<and> trackedOps b (fst x) = None) (entries claims order)
      = Some (?bid, batchOps claims ?bid)"
  proof (cases "find (\<lambda>x. nc_UID nc \<in> set (snd x) \<and> trackedOps b (fst x) = None) (entries claims order)")
    case None
    with e op none show ?thesis unfolding find_None_iff by force
  next
    case (Some x)
    then have "x \<in> set (entries claims order)" "nc_UID nc \<in> set (snd x)"
      unfolding find_Some_iff by (metis nth_mem)+
    with same [OF _ e] op Some show ?thesis by simp
  qed
  then have check: "enqueue_check (nc_UID nc) b1 = Some ?bid"
    using resuming.all_owner [OF ok(1,2), of "nc_UID nc" clock 0 0 b] same assms(9)
    by (simp add: Start_batchresume_def)
  obtain c1 b0 where mk: "makeChan b1 = (c1, b0)" by fastforce
  then have "enqueue_check (nc_UID nc) b0 = Some ?bid" "nb_queue b0 = nb_queue b1"
    using check by (auto simp: makeChan_def enqueue_check_def split: if_splits)
  then show ?thesis using assms(10)
    by (auto simp: Enqueue_def enqueueItem_def mk sendChan_def)
qed

section \<open>A small restart\<close>

definition waitingClaim :: "string \<Rightarrow> string \<Rightarrow> unit NodeClaim" where
  "waitingClaim uid batch = zeroNodeClaim\<lparr>nc_Name := uid, nc_UID := uid,
     nc_Annotations := [BatchIDAnnotationKey \<mapsto> batch], nc_ProviderID := PendingProviderIDPrefix @ uid\<rparr>"

lemma waiting_sel [simp]: "nc_UID (waitingClaim u bid) = u" "nc_DeletionTimestamp (waitingClaim u bid) = None"
  "is_pending (nc_ProviderID (waitingClaim u bid))" "claimBatch (waitingClaim u bid) = trimSpace bid"
  by (simp_all add: waitingClaim_def zeroNodeClaim_def claimBatch_def)

lemma plain_ids: "trimSpace ''u1'' = ''u1''" "trimSpace ''u2'' = ''u2''" "trimSpace ''b1'' = ''b1''"
  by (code_simp)+

lemma waiting_world: "cleanUIDs [waitingClaim ''u1'' ''b1'', waitingClaim ''u2'' ''b1'']"
  "someOrder [waitingClaim ''u1'' ''b1'', waitingClaim ''u2'' ''b1''] [''b1'']"
  by (auto simp: cleanUIDs_def cleanOp_def plain_ids someOrder_def dom_groupByBatch batchOps_def
    resumable_def split: if_splits)

theorem resume_covers_pending_witness:
  "trackedOps (snd (snd (Start_batchresume (\<lambda>_. 7) (Inr [waitingClaim ''u1'' ''b1'', waitingClaim ''u2'' ''b1'']) [''b1'']
     NewNodeBatcher))) ''b1'' = Some {''u1'', ''u2''}"
proof -
  have "{nc_UID nc | nc. nc \<in> set [waitingClaim ''u1'' ''b1'', waitingClaim ''u2'' ''b1''] \<and>
      nc_DeletionTimestamp nc = None \<and> is_pending (nc_ProviderID nc) \<and> claimBatch nc = ''b1'' \<and>
      (''b1'' :: string) \<noteq> []} = {''u1'', ''u2''}"
    (is "?A = _")
  proof (intro equalityI subsetI)
    fix x assume "x \<in> ?A" then show "x \<in> {''u1'', ''u2''}" by auto
  next
    fix x assume "x \<in> {''u1'', ''u2'' :: string}"
    then show "x \<in> ?A" by (auto simp: plain_ids intro: exI [of _ "waitingClaim x ''b1''"])
  qed
  note ops = this
  have "trackedOps NewNodeBatcher ''b1'' = None" by (simp add: trackedOps_def NewNodeBatcher_def)
  with conjunct1 [OF resume_covers_pending [OF waiting_world, of "\<lambda>_. 7" NewNodeBatcher "''b1''"]] show ?thesis
    unfolding Let_def ops by simp
qed

theorem resume_answers_create_witness:
  "\<exists>r c b1 ch b2. Start_batchresume (\<lambda>_. 7) (Inr [waitingClaim ''u1'' ''b1'', waitingClaim ''u2'' ''b1'']) [''b1'']
      NewNodeBatcher = (r, c, b1) \<and> Enqueue ''u1'' zeroAddReq b1 = (ch, b2) \<and>
    b2 = sendChan (ackResult ''b1'') ch (snd (makeChan b1))"
proof -
  obtain r c b1 where s: "Start_batchresume (\<lambda>_. 7) (Inr [waitingClaim ''u1'' ''b1'', waitingClaim ''u2'' ''b1''])
      [''b1''] NewNodeBatcher = (r, c, b1)" by (metis prod_cases3)
  obtain ch b2 where e: "Enqueue ''u1'' zeroAddReq b1 = (ch, b2)" by fastforce
  have "b2 = sendChan (ackResult (claimBatch (waitingClaim ''u1'' ''b1''))) ch (snd (makeChan b1)) \<and>
      nb_queue b2 = nb_queue b1"
    by (rule resume_answers_create [OF waiting_world _ _ _ _ _ _ s, where req = zeroAddReq])
      (simp_all add: plain_ids NewNodeBatcher_def e)
  with s e show ?thesis by (auto simp: plain_ids)
qed

end
