(* ===== verification/Adoption_Passes.thy ===== *)
theory Adoption_Passes
  imports Adoption_Properties "HOL-Library.Multiset"
begin

text \<open>
  Adoption pass after pass, \<^verbatim>\<open>pkg/controllers/nodeadoption/controller.go\<close> together with the API server
  and every other writer of nodes and claims. The claims are read from the API server; the nodes come
  from a cache that may hold any version of a node the server ever stored. A patch of a node carries
  the resource version that was read, and the server refuses it when the node has another one by then.
  The writes of a pass are one step; between its list of the claims and that step others may write.
\<close>

section \<open>What a pass sends\<close>

definition adoptedID :: "'q NodeClaim \<Rightarrow> string" where
  "adoptedID nc = lookup (nc_Annotations nc) AdoptedProviderIDAnnotationKey"

lemma sentNode_sel [simp]:
  "nd_Name (sentNode np n) = nd_Name n" "nd_ResourceVersion (sentNode np n) = nd_ResourceVersion n"
  "nd_ProviderID (sentNode np n) = effectiveID np n"
  by (simp_all add: sentNode_def setRegistered_def)

lemma prepareNode_sends:
  assumes "prepareNode env n (np_Name np) (lookup (nd_Labels n) skuNameLabel) = (r, ps)"
  shows "set ps \<subseteq> {sentNode np n} \<and> (ps \<noteq> [] \<longrightarrow> effectiveID np n \<noteq> []) \<and>
    (nd_ProviderID n = [] \<and> \<not> isl r \<longrightarrow> ps = [sentNode np n])"
  using assms
  by (auto simp: prepareNode_def sentNode_def effectiveID_def equalNodes_def setRegistered_def Let_def
      split: if_splits option.splits)

text \<open>
  What a node adds to the patches and claims of the pass: its own patch at most, and a claim with its
  ID at most, after the patch when the node had no ID.
\<close>

definition sends :: "('q, 'r) adoptEnv \<Rightarrow> NodePool \<Rightarrow> 'q Node set \<Rightarrow> ('q, 'r) adoptSt \<Rightarrow> ('q, 'r) adoptSt \<Rightarrow> bool" where
  "sends env np ns st st' \<longleftrightarrow> set (as_patches st) \<subseteq> set (as_patches st') \<and>
     set (as_patches st') \<subseteq> set (as_patches st) \<union> sentNode np ` {n \<in> ns. effectiveID np n \<noteq> []} \<and>
     (\<forall>nc \<in> set (as_created st'). nc \<in> set (as_created st) \<or>
        (\<exists>n \<in> ns. adoptedID nc = effectiveID np n \<and>
           (nd_ProviderID n = [] \<longrightarrow> sentNode np n \<in> set (as_patches st') \<and> ae_Patch env (sentNode np n) = None)))"

lemma sends_same:
  "as_patches st' = as_patches st \<Longrightarrow> as_created st' = as_created st \<Longrightarrow> sends env np ns st st'"
  by (auto simp: sends_def)

lemma sends_trans:
  assumes "sends env np ms st st1" and "sends env np ns st1 st2"
  shows "sends env np (ms \<union> ns) st st2"
proof -
  have "nc \<in> set (as_created st) \<or> (\<exists>n \<in> ms \<union> ns. adoptedID nc = effectiveID np n \<and>
      (nd_ProviderID n = [] \<longrightarrow> sentNode np n \<in> set (as_patches st2) \<and> ae_Patch env (sentNode np n) = None))"
    if nc: "nc \<in> set (as_created st2)" for nc
  proof (cases "nc \<in> set (as_created st1)")
    case True
    with assms show ?thesis unfolding sends_def by (meson UnI1 subsetD)
  next
    case False
    with assms(2) nc show ?thesis unfolding sends_def by (meson UnI2)
  qed
  moreover have "set (as_patches st) \<subseteq> set (as_patches st2)"
    "set (as_patches st2) \<subseteq> set (as_patches st) \<union> sentNode np ` {n \<in> ms \<union> ns. effectiveID np n \<noteq> []}"
    using assms unfolding sends_def by blast+
  ultimately show ?thesis unfolding sends_def by blast
qed

lemma takeNode_sends: "sends env np {n} st (takeNode env np n (lookup (nd_Labels n) skuNameLabel) nc st)"
proof (cases "prepareNode env n (np_Name np) (lookup (nd_Labels n) skuNameLabel)")
  case (Pair r ps)
  note s = prepareNode_sends [OF Pair]
  show ?thesis
  proof (cases r)
    case (Inl e)
    with Pair s show ?thesis by (auto simp: takeNode_def sends_def)
  next
    case (Inr pid)
    with prepareNode_Inr Pair have "pid = effectiveID np n"
      "nd_ProviderID n = [] \<longrightarrow> ae_Patch env (sentNode np n) = None" by blast+
    with Pair Inr s show ?thesis
      by (auto simp: takeNode_def sends_def Let_def adoptedID_def split: option.splits)
  qed
qed

lemma examineType_sends:
  "sends env np {n} st (examineType kp env np ref n (lookup (nd_Labels n) skuNameLabel) st)"
  by (auto simp: examineType_def skip_def Let_def takeNode_sends intro: sends_same split: option.splits)

lemma adoptNode_sends:
  assumes "adoptNode kp env np ref pend n st = (r, st')"
  shows "sends env np {n} st st'"
proof -
  have "sends env np {n} st (examineType kp env np ref n (lookup (nd_Labels n) skuNameLabel) (st\<lparr>as_types := its\<rparr>))" for its
    using sends_trans [OF sends_same examineType_sends, of "st\<lparr>as_types := its\<rparr>" st env np "{}" n kp ref] by simp
  with assms examineType_sends [of env np n st kp ref] show ?thesis
    by (auto simp: adoptNode_def Let_def skip_def intro: sends_same split: if_splits sum.splits)
qed

lemma adoptNodes_sends: "adoptNodes kp env np ref pend ns st = (r, st') \<Longrightarrow> sends env np (set ns) st st'"
proof (induction ns arbitrary: st)
  case Nil
  then show ?case by (auto intro: sends_same)
next
  case (Cons n ns)
  obtain r1 st1 where n: "adoptNode kp env np ref pend n st = (r1, st1)" by fastforce
  note s = adoptNode_sends [OF n]
  show ?case
  proof (cases r1)
    case None
    with Cons.prems n have "adoptNodes kp env np ref pend ns st1 = (r, st')" by simp
    from sends_trans [OF s Cons.IH [OF this]] show ?thesis by simp
  next
    case (Some e)
    with Cons.prems n have "st' = st1" by simp
    with sends_trans [OF s sends_same, of st1 "set ns"] show ?thesis by simp
  qed
qed

section \<open>The passes and the other writers\<close>

text \<open>
  \<open>ac_nodes\<close> and \<open>ac_claims\<close> are the objects the API server has, \<open>ac_seen\<close> every version of a node it
  had, \<open>ac_claimed\<close> every provider ID a claim has ever spoken for.
\<close>

record 'q adoptCluster =
  ac_nodes :: "string \<rightharpoonup> 'q Node"
  ac_seen :: "'q Node set"
  ac_claims :: "'q NodeClaim list"
  ac_claimed :: "string set"

text \<open>The provider ID of a node, or the one built for it when it has none.\<close>

definition ownID :: "'q Node \<Rightarrow> string" where
  "ownID n =
     (if nd_ProviderID n = []
      then BuildProviderID (lookup (nd_Labels n) nodepoolNameLabel) (lookup (nd_Labels n) skuNameLabel) (nd_Name n)
      else nd_ProviderID n)"

text \<open>
  What the server does with a write: a patch with a resource version is refused unless the node still
  has it; an accepted write is stored under a new version; a NodeClaim is created without its status.
\<close>

definition locking :: "('q, 'r) adoptEnv \<Rightarrow> 'q adoptCluster \<Rightarrow> bool" where
  "locking env s \<longleftrightarrow> (\<forall>p. ae_Patch env p = None \<longrightarrow> (\<exists>cur. ac_nodes s (nd_Name p) = Some cur \<and>
     (nd_ResourceVersion p = [] \<or> nd_ResourceVersion p = nd_ResourceVersion cur)))"

definition newVersion :: "'q adoptCluster \<Rightarrow> string \<Rightarrow> bool" where
  "newVersion s v \<longleftrightarrow> v \<noteq> [] \<and> (\<forall>m \<in> ac_seen s. nd_ResourceVersion m \<noteq> v)"

definition applyPatches ::
  "('q, 'r) adoptEnv \<Rightarrow> (string \<Rightarrow> string) \<Rightarrow> 'q Node list \<Rightarrow> (string \<rightharpoonup> 'q Node) \<Rightarrow> (string \<rightharpoonup> 'q Node)" where
  "applyPatches env v ps N name =
     (case find (\<lambda>p. nd_Name p = name \<and> ae_Patch env p = None) ps of
        None \<Rightarrow> N name
      | Some p \<Rightarrow> Some (p\<lparr>nd_ResourceVersion := v name\<rparr>))"

definition stored :: "'q NodeClaim \<Rightarrow> 'q NodeClaim" where
  "stored nc = nc\<lparr>nc_ProviderID := []\<rparr>"

definition adoptedIDs :: "'q NodeClaim list \<Rightarrow> string list" where
  "adoptedIDs claims = filter (\<lambda>pid. pid \<noteq> []) (map adoptedID claims)"

definition unidentified :: "'q adoptCluster \<Rightarrow> 'q Node \<Rightarrow> bool" where
  "unidentified s n \<longleftrightarrow> ac_nodes s (nd_Name n) = Some n \<and> nd_ProviderID n = []"

definition ac_init :: "'q adoptCluster \<Rightarrow> bool" where
  "ac_init s \<longleftrightarrow> ac_nodes s = Map.empty \<and> ac_seen s = {} \<and> ac_claims s = [] \<and> ac_claimed s = {}"

text \<open>
  The other writers. A provider ID, once set, stays; an ID, given or to be built, belongs to one node
  name, and a node is not created under a name that was there before; nobody else writes the adoption
  annotation, and a claim gets an ID only from a node that has one. A pass lists the claims in a version
  in which the ones adopted so far are present, as reconciles run one at a time.
\<close>

inductive adopt_step :: "('q, 'r) karpenter \<Rightarrow> 'q adoptCluster \<Rightarrow> 'q adoptCluster \<Rightarrow> bool" for kp where
  pass:
    "\<lbrakk>Reconcile_adoption kp env k np = (r, st);
      \<And>claims. k_claims k = Inr claims \<Longrightarrow>
        claimedIDs claims \<subseteq> ac_claimed s \<and> set (adoptedIDs (ac_claims s)) \<subseteq> claimedIDs claims;
      \<And>nodes. k_cachedNodes k = Inr nodes \<Longrightarrow> set nodes \<subseteq> ac_seen s \<and> distinct (map nd_Name nodes);
      locking env s; \<And>name. newVersion s (v name); N = applyPatches env v (as_patches st) (ac_nodes s)\<rbrakk> \<Longrightarrow>
     adopt_step kp s \<lparr>ac_nodes = N, ac_seen = ac_seen s \<union> ran N,
       ac_claims = ac_claims s @ map stored (as_created st),
       ac_claimed = ac_claimed s \<union> set (adoptedIDs (as_created st))\<rparr>"
| node_created:
    "\<lbrakk>\<And>m. m \<in> ac_seen s \<Longrightarrow> nd_Name m \<noteq> nd_Name n \<and> ownID m \<noteq> ownID n; newVersion s (nd_ResourceVersion n);
      nd_ProviderID n = [] \<Longrightarrow> ownID n \<notin> ac_claimed s\<rbrakk> \<Longrightarrow>
     adopt_step kp s (s\<lparr>ac_nodes := (ac_nodes s)(nd_Name n \<mapsto> n), ac_seen := insert n (ac_seen s)\<rparr>)"
| node_updated:
    "\<lbrakk>ac_nodes s (nd_Name n) = Some cur; newVersion s (nd_ResourceVersion n);
      nd_ProviderID cur \<noteq> [] \<Longrightarrow> nd_ProviderID n = nd_ProviderID cur;
      \<And>m. m \<in> ac_seen s \<Longrightarrow> ownID m = ownID n \<Longrightarrow> nd_Name m = nd_Name n;
      nd_ProviderID n = [] \<Longrightarrow> ownID n \<notin> ac_claimed s\<rbrakk> \<Longrightarrow>
     adopt_step kp s (s\<lparr>ac_nodes := (ac_nodes s)(nd_Name n \<mapsto> n), ac_seen := insert n (ac_seen s)\<rparr>)"
| node_deleted:
    "adopt_step kp s (s\<lparr>ac_nodes := (ac_nodes s)(name := None)\<rparr>)"
| claims_written:
    "\<lbrakk>mset (adoptedIDs claims) \<subseteq># mset (adoptedIDs (ac_claims s));
      \<And>n. unidentified s n \<Longrightarrow> ownID n \<notin> claimedIDs claims\<rbrakk> \<Longrightarrow>
     adopt_step kp s (s\<lparr>ac_claims := claims, ac_claimed := ac_claimed s \<union> claimedIDs claims\<rparr>)"

section \<open>The invariant\<close>

definition nodes_inv :: "'q adoptCluster \<Rightarrow> bool" where
  "nodes_inv s \<longleftrightarrow>
     (\<forall>name n. ac_nodes s name = Some n \<longrightarrow> nd_Name n = name \<and> n \<in> ac_seen s) \<and>
     (\<forall>m \<in> ac_seen s. nd_ResourceVersion m \<noteq> []) \<and>
     (\<forall>m \<in> ac_seen s. \<forall>n \<in> ac_seen s. nd_Name m = nd_Name n \<longrightarrow> nd_ResourceVersion m = nd_ResourceVersion n \<longrightarrow> m = n) \<and>
     (\<forall>m \<in> ac_seen s. \<forall>n \<in> ac_seen s. ownID m = ownID n \<longrightarrow> nd_Name m = nd_Name n) \<and>
     (\<forall>m \<in> ac_seen s. \<forall>n. nd_ProviderID m \<noteq> [] \<longrightarrow> ac_nodes s (nd_Name m) = Some n \<longrightarrow> nd_ProviderID n = nd_ProviderID m)"

definition adopt_inv :: "'q adoptCluster \<Rightarrow> bool" where
  "adopt_inv s \<longleftrightarrow> nodes_inv s \<and> (\<forall>n. unidentified s n \<longrightarrow> ownID n \<notin> ac_claimed s) \<and>
     claimedIDs (ac_claims s) \<subseteq> ac_claimed s \<and> distinct (adoptedIDs (ac_claims s))"

lemma nodes_invD:
  assumes "nodes_inv s"
  shows "\<And>name n. ac_nodes s name = Some n \<Longrightarrow> nd_Name n = name \<and> n \<in> ac_seen s"
    and "\<And>m. m \<in> ac_seen s \<Longrightarrow> nd_ResourceVersion m \<noteq> []"
    and "\<And>m n. \<lbrakk>m \<in> ac_seen s; n \<in> ac_seen s; nd_Name m = nd_Name n; nd_ResourceVersion m = nd_ResourceVersion n\<rbrakk> \<Longrightarrow> m = n"
    and "\<And>m n. \<lbrakk>m \<in> ac_seen s; n \<in> ac_seen s; ownID m = ownID n\<rbrakk> \<Longrightarrow> nd_Name m = nd_Name n"
    and "\<And>m n. \<lbrakk>m \<in> ac_seen s; nd_ProviderID m \<noteq> []; ac_nodes s (nd_Name m) = Some n\<rbrakk> \<Longrightarrow> nd_ProviderID n = nd_ProviderID m"
  using assms unfolding nodes_inv_def by blast+

text \<open>A set \<open>W\<close> of nodes written with new versions, one for a name, their IDs their own.\<close>

definition writes :: "'q adoptCluster \<Rightarrow> 'q Node set \<Rightarrow> bool" where
  "writes s W \<longleftrightarrow>
     (\<forall>n \<in> W. newVersion s (nd_ResourceVersion n) \<and>
        (\<forall>m \<in> ac_seen s. ownID m = ownID n \<longrightarrow> nd_Name m = nd_Name n) \<and>
        (\<forall>m \<in> ac_seen s. nd_Name m = nd_Name n \<longrightarrow> nd_ProviderID m \<noteq> [] \<longrightarrow> nd_ProviderID n = nd_ProviderID m)) \<and>
     (\<forall>n \<in> W. \<forall>n' \<in> W. nd_Name n = nd_Name n' \<or> ownID n = ownID n' \<longrightarrow> n = n')"

lemma writesD:
  assumes "writes s W" and "n \<in> W"
  shows "nd_ResourceVersion n \<noteq> []" and "\<And>m. m \<in> ac_seen s \<Longrightarrow> nd_ResourceVersion m \<noteq> nd_ResourceVersion n"
    and "\<And>m. m \<in> ac_seen s \<Longrightarrow> ownID m = ownID n \<Longrightarrow> nd_Name m = nd_Name n"
    and "\<And>m. m \<in> ac_seen s \<Longrightarrow> nd_Name m = nd_Name n \<Longrightarrow> nd_ProviderID m \<noteq> [] \<Longrightarrow> nd_ProviderID n = nd_ProviderID m"
    and "\<And>n'. n' \<in> W \<Longrightarrow> nd_Name n = nd_Name n' \<Longrightarrow> n = n'" and "\<And>n'. n' \<in> W \<Longrightarrow> ownID n = ownID n' \<Longrightarrow> n = n'"
  using assms unfolding writes_def newVersion_def by blast+

lemma nodes_inv_writes:
  assumes inv: "nodes_inv s" and W: "writes s W"
    and N: "\<And>name n. N name = Some n \<Longrightarrow> nd_Name n = name \<and> (n \<in> W \<or> ac_nodes s name = Some n \<and> name \<notin> nd_Name ` W)"
  shows "nodes_inv \<lparr>ac_nodes = N, ac_seen = ac_seen s \<union> W, ac_claims = cs, ac_claimed = C\<rparr>"
proof -
  note I = nodes_invD [OF inv] and w = writesD [OF W]
  have 1: "nd_Name n = name \<and> n \<in> ac_seen s \<union> W" if "N name = Some n" for name n
    using N [OF that] I(1) by blast
  have 2: "nd_ResourceVersion m \<noteq> []" if "m \<in> ac_seen s \<union> W" for m using that I(2) w(1) by blast
  have 3: "m = n" if "m \<in> ac_seen s \<union> W" "n \<in> ac_seen s \<union> W" "nd_Name m = nd_Name n"
    "nd_ResourceVersion m = nd_ResourceVersion n" for m n
    using that I(3) w(2,5) by (metis UnE)
  have 4: "nd_Name m = nd_Name n" if "m \<in> ac_seen s \<union> W" "n \<in> ac_seen s \<union> W" "ownID m = ownID n" for m n
    using that I(4) w(3,6) by (metis UnE)
  have 5: "nd_ProviderID n = nd_ProviderID m"
    if "m \<in> ac_seen s \<union> W" "nd_ProviderID m \<noteq> []" "N (nd_Name m) = Some n" for m n
  proof (cases "n \<in> W")
    case True
    with that(1,2) N [OF that(3)] show ?thesis using w(4) [OF True] w(5) [OF True] by (metis UnE)
  next
    case False
    with N [OF that(3)] have n: "ac_nodes s (nd_Name m) = Some n" "nd_Name m \<notin> nd_Name ` W" by blast+
    have m: "m \<in> ac_seen s" using that(1) n(2) by blast
    show ?thesis by (rule I(5) [OF m that(2) n(1)])
  qed
  show ?thesis unfolding nodes_inv_def adoptCluster.simps using 1 2 3 4 5 by (intro conjI ballI allI impI) blast+
qed

section \<open>A pass\<close>

text \<open>The nodes of the pool in the cache, and what the pass sends of them.\<close>

lemma effectiveID_own:
  "n \<in> set (matchingLabel nodepoolNameLabel (np_Name np) nodes) \<Longrightarrow> effectiveID np n = ownID n"
  by (auto simp: matchingLabel_def effectiveID_def ownID_def lookup_def)

lemma pass_sends:
  assumes "Reconcile_adoption kp env k np = (r, st)"
    and "\<And>nodes. k_cachedNodes k = Inr nodes \<Longrightarrow> set nodes \<subseteq> S \<and> distinct (map nd_Name nodes)"
  shows "\<exists>ns st0. set ns \<subseteq> S \<and> distinct (map nd_Name ns) \<and> (\<forall>n \<in> set ns. effectiveID np n = ownID n) \<and>
    as_patches st0 = [] \<and> as_created st0 = [] \<and> sends env np (set ns) st0 st"
proof (cases "as_patches st = [] \<and> as_created st = []")
  case True
  then show ?thesis by (intro exI [of _ "[]"] exI [of _ st]) (auto intro: sends_same)
next
  case False
  with assms(1) obtain ref nodes claims e where nodes: "k_cachedNodes k = Inr nodes"
    and run: "adoptNodes kp env np ref (poolPending (np_Name np) claims)
      (matchingLabel nodepoolNameLabel (np_Name np) nodes) (adoptStart claims) = (e, st)"
    by (auto simp: Reconcile_adoption_def adoptStart_def split: if_splits option.splits sum.splits prod.splits)
  let ?ns = "matchingLabel nodepoolNameLabel (np_Name np) nodes"
  have "set ?ns \<subseteq> S" "distinct (map nd_Name ?ns)"
    using assms(2) [OF nodes] by (auto simp: matchingLabel_def intro: distinct_map_filter)
  with adoptNodes_sends [OF run] show ?thesis
    by (intro exI [of _ ?ns] exI [of _ "adoptStart claims"]) (auto simp: effectiveID_own adoptStart_def)
qed

lemma patched_node:
  assumes inv: "nodes_inv s" and lock: "locking env s" and ns: "set ns \<subseteq> ac_seen s"
    and sent: "p \<in> sentNode np ` {n \<in> set ns. effectiveID np n \<noteq> []}" "ae_Patch env p = None"
  shows "\<exists>n \<in> set ns. p = sentNode np n \<and> ac_nodes s (nd_Name p) = Some n \<and> effectiveID np n \<noteq> []"
proof -
  note I = nodes_invD [OF inv]
  from sent(1) obtain n where n: "n \<in> set ns" "p = sentNode np n" "effectiveID np n \<noteq> []" by blast
  from lock sent(2) obtain cur where cur: "ac_nodes s (nd_Name p) = Some cur"
    "nd_ResourceVersion p = [] \<or> nd_ResourceVersion p = nd_ResourceVersion cur" unfolding locking_def by blast
  have "n \<in> ac_seen s" using n(1) ns by blast
  moreover have "nd_ResourceVersion n = nd_ResourceVersion cur" using cur(2) n(2) I(2) [OF calculation] by auto
  moreover have "nd_Name cur = nd_Name n" "cur \<in> ac_seen s" using I(1) [OF cur(1)] n(2) by auto
  ultimately have "n = cur" using I(3) [of n cur] by simp
  with n cur(1) show ?thesis by blast
qed

text \<open>The nodes the server has after the patches of a pass.\<close>

definition written :: "('q, 'r) adoptEnv \<Rightarrow> (string \<Rightarrow> string) \<Rightarrow> 'q Node list \<Rightarrow> 'q Node set" where
  "written env v ps = {q. \<exists>p name. find (\<lambda>p. nd_Name p = name \<and> ae_Patch env p = None) ps = Some p \<and>
     q = p\<lparr>nd_ResourceVersion := v name\<rparr>}"

lemma written_name:
  assumes "q \<in> written env v ps"
  shows "\<exists>p \<in> set ps. ae_Patch env p = None \<and>
    find (\<lambda>p. nd_Name p = nd_Name q \<and> ae_Patch env p = None) ps = Some p \<and>
    q = p\<lparr>nd_ResourceVersion := v (nd_Name q)\<rparr>"
  using assms by (fastforce simp: written_def find_Some_iff)

lemma applyPatches_Some:
  assumes "applyPatches env v ps N name = Some q" and "\<And>name n. N name = Some n \<Longrightarrow> nd_Name n = name"
  shows "nd_Name q = name \<and> (q \<in> written env v ps \<or> N name = Some q \<and> name \<notin> nd_Name ` written env v ps)"
proof (cases "find (\<lambda>p. nd_Name p = name \<and> ae_Patch env p = None) ps")
  case None
  with assms(1) have "N name = Some q" by (simp add: applyPatches_def)
  moreover have "name \<notin> nd_Name ` written env v ps" using None written_name [of _ env v ps] by fastforce
  ultimately show ?thesis using assms(2) by blast
next
  case (Some p)
  with assms(1) have "q = p\<lparr>nd_ResourceVersion := v name\<rparr>" by (simp add: applyPatches_def)
  moreover from Some have "nd_Name p = name" by (auto simp: find_Some_iff)
  ultimately show ?thesis using Some by (auto simp: written_def)
qed

lemma applyPatches_ran:
  assumes "\<And>name n. N name = Some n \<Longrightarrow> nd_Name n = name" and "ran N \<subseteq> S"
  shows "S \<union> ran (applyPatches env v ps N) = S \<union> written env v ps"
proof -
  have "q \<in> S \<union> written env v ps" if ran: "q \<in> ran (applyPatches env v ps N)" for q
  proof -
    from ran obtain name where q: "applyPatches env v ps N name = Some q" by (auto simp: ran_def)
    from applyPatches_Some [OF q assms(1)] assms(2) show ?thesis by (auto simp: ran_def)
  qed
  moreover have "q \<in> ran (applyPatches env v ps N)" if "q \<in> written env v ps" for q
  proof -
    from that obtain p name where p: "find (\<lambda>p. nd_Name p = name \<and> ae_Patch env p = None) ps = Some p"
      "q = p\<lparr>nd_ResourceVersion := v name\<rparr>" by (auto simp: written_def)
    show ?thesis by (rule ranI [of _ name]) (simp add: applyPatches_def p)
  qed
  ultimately show ?thesis by blast
qed

lemma written_node:
  assumes inv: "nodes_inv s" and lock: "locking env s" and ns: "set ns \<subseteq> ac_seen s"
    and own: "\<forall>n \<in> set ns. effectiveID np n = ownID n"
    and sent: "set ps \<subseteq> sentNode np ` {n \<in> set ns. effectiveID np n \<noteq> []}"
    and q: "q \<in> written env v ps"
  shows "\<exists>n \<in> set ns. ac_nodes s (nd_Name q) = Some n \<and> nd_Name q = nd_Name n \<and> nd_ProviderID q = ownID n \<and>
    ownID n \<noteq> [] \<and> nd_ResourceVersion q = v (nd_Name q)"
proof -
  from written_name [OF q] obtain p where p: "p \<in> set ps" "ae_Patch env p = None"
    "q = p\<lparr>nd_ResourceVersion := v (nd_Name q)\<rparr>" by blast
  from p(1) sent have "p \<in> sentNode np ` {n \<in> set ns. effectiveID np n \<noteq> []}" by blast
  from patched_node [OF inv lock ns this p(2)] obtain n where
    n: "n \<in> set ns" "p = sentNode np n" "ac_nodes s (nd_Name p) = Some n" "effectiveID np n \<noteq> []" by blast
  have "nd_Name q = nd_Name p" "nd_ProviderID q = nd_ProviderID p" "nd_ResourceVersion q = v (nd_Name q)"
    by (subst p(3), simp)+
  with n own show ?thesis by auto
qed

lemma pass_writes:
  assumes inv: "nodes_inv s" and lock: "locking env s" and ns: "set ns \<subseteq> ac_seen s"
    and own: "\<forall>n \<in> set ns. effectiveID np n = ownID n"
    and sent: "set ps \<subseteq> sentNode np ` {n \<in> set ns. effectiveID np n \<noteq> []}"
    and v: "\<And>name. newVersion s (v name)"
  shows "writes s (written env v ps)"
proof -
  note I = nodes_invD [OF inv] and w = written_node [OF inv lock ns own sent]
  have q: "\<exists>n \<in> ac_seen s. ac_nodes s (nd_Name q) = Some n \<and> nd_Name q = nd_Name n \<and> nd_ProviderID q = ownID n \<and>
      ownID q = ownID n \<and> nd_ResourceVersion q = v (nd_Name q)" if "q \<in> written env v ps" for q
    using w [OF that] ns by (auto simp: ownID_def [of q])
  have 1: "newVersion s (nd_ResourceVersion q)" if "q \<in> written env v ps" for q using q [OF that] v by auto
  have 2: "nd_Name m = nd_Name q" if "q \<in> written env v ps" "m \<in> ac_seen s" "ownID m = ownID q" for q m
    using q [OF that(1)] that(2,3) I(4) by metis
  have 3: "nd_ProviderID q = nd_ProviderID m"
    if "q \<in> written env v ps" "m \<in> ac_seen s" "nd_Name m = nd_Name q" "nd_ProviderID m \<noteq> []" for q m
  proof -
    from q [OF that(1)] that(3) obtain n where n: "ac_nodes s (nd_Name m) = Some n" "nd_ProviderID q = ownID n"
      by auto
    from I(5) [OF that(2,4) n(1)] that(4) n(2) show ?thesis by (simp add: ownID_def)
  qed
  have same: "x = y" if "x \<in> written env v ps" "y \<in> written env v ps" "nd_Name x = nd_Name y" for x y
    using written_name [OF that(1)] written_name [OF that(2)] that(3) by (metis option.inject)
  have 4: "x = y" if "x \<in> written env v ps" "y \<in> written env v ps" "nd_Name x = nd_Name y \<or> ownID x = ownID y" for x y
    using that same q I(4) by metis
  show ?thesis unfolding writes_def using 1 2 3 4 by blast
qed

lemma stored_sel [simp]: "adoptedID (stored nc) = adoptedID nc" "nc_ProviderID (stored nc) = []"
  by (simp_all add: adoptedID_def stored_def)

lemma claimedIDs_append: "claimedIDs (xs @ ys) = claimedIDs xs \<union> claimedIDs ys"
  by (simp add: claimedIDs_def)

lemma claimedIDs_nonempty: "[] \<notin> claimedIDs cs"
  by (auto simp: claimedIDs_def claimIDs_def Let_def split: if_splits)

lemma claimedIDs_stored: "claimedIDs (map stored cs) = set (adoptedIDs cs)"
  by (auto simp: claimedIDs_def claimIDs_def adoptedIDs_def adoptedID_def [symmetric] Let_def)

lemma adoptedIDs_append: "adoptedIDs (xs @ map stored ys) = adoptedIDs xs @ adoptedIDs ys"
  by (simp add: adoptedIDs_def comp_def)

text \<open>After a pass the nodes without a provider ID are still nobody's.\<close>

lemma unclaimed_after:
  assumes inv: "nodes_inv s" and free: "\<forall>n. unidentified s n \<longrightarrow> ownID n \<notin> ac_claimed s"
    and lock: "locking env s" and ns: "set ns \<subseteq> ac_seen s" and own: "\<forall>n \<in> set ns. effectiveID np n = ownID n"
    and st0: "as_patches st0 = []" "as_created st0 = []" and sent: "sends env np (set ns) st0 st"
    and t: "applyPatches env v (as_patches st) (ac_nodes s) (nd_Name n) = Some n" "nd_ProviderID n = []"
  shows "ownID n \<notin> ac_claimed s \<union> set (adoptedIDs (as_created st))"
proof -
  note I = nodes_invD [OF inv]
  let ?W = "written env v (as_patches st)"
  have ps: "set (as_patches st) \<subseteq> sentNode np ` {n \<in> set ns. effectiveID np n \<noteq> []}"
    using sent st0 by (simp add: sends_def)
  have "n \<notin> ?W" using written_node [OF inv lock ns own ps, of n v] t(2) by auto
  with applyPatches_Some [OF t(1) conjunct1 [OF I(1)]] have n: "ac_nodes s (nd_Name n) = Some n" "nd_Name n \<notin> nd_Name ` ?W"
    by blast+
  have "ownID n \<noteq> adoptedID nc" if nc: "nc \<in> set (as_created st)" for nc
  proof
    assume e: "ownID n = adoptedID nc"
    from sent nc st0 obtain m where m: "m \<in> set ns" "adoptedID nc = effectiveID np m"
      "nd_ProviderID m = [] \<longrightarrow> sentNode np m \<in> set (as_patches st) \<and> ae_Patch env (sentNode np m) = None"
      by (auto simp: sends_def)
    have seen: "m \<in> ac_seen s" "n \<in> ac_seen s" using m(1) ns I(1) [OF n(1)] by blast+
    with e m own I(4) have name: "nd_Name m = nd_Name n" by metis
    show False
    proof (cases "nd_ProviderID m = []")
      case True
      with m(3) name have p: "sentNode np m \<in> set (as_patches st)" "ae_Patch env (sentNode np m) = None"
        "nd_Name (sentNode np m) = nd_Name n" by simp_all
      then have "find (\<lambda>p. nd_Name p = nd_Name n \<and> ae_Patch env p = None) (as_patches st) \<noteq> None"
        unfolding find_None_iff by blast
      then obtain p where "find (\<lambda>p. nd_Name p = nd_Name n \<and> ae_Patch env p = None) (as_patches st) = Some p"
        by blast
      then have "p\<lparr>nd_ResourceVersion := v (nd_Name n)\<rparr> \<in> ?W" "nd_Name p = nd_Name n"
        by (auto simp: written_def find_Some_iff)
      then have "nd_Name n \<in> nd_Name ` ?W" by (intro image_eqI) simp_all
      with n(2) show False by blast
    next
      case False
      with I(5) [OF seen(1) False] name n(1) t(2) show False by simp
    qed
  qed
  moreover have "ownID n \<notin> ac_claimed s" using free n(1) t(2) by (simp add: unidentified_def)
  ultimately show ?thesis by (auto simp: adoptedIDs_def)
qed

lemma adopted_once_after:
  assumes inv: "nodes_inv s" and free: "\<forall>n. unidentified s n \<longrightarrow> ownID n \<notin> ac_claimed s"
    and once: "distinct (adoptedIDs (ac_claims s))" and lock: "locking env s"
    and ran: "Reconcile_adoption kp env k np = (r, st)"
    and listed: "\<And>claims. k_claims k = Inr claims \<Longrightarrow>
      claimedIDs claims \<subseteq> ac_claimed s \<and> set (adoptedIDs (ac_claims s)) \<subseteq> claimedIDs claims"
    and cached: "\<And>nodes. k_cachedNodes k = Inr nodes \<Longrightarrow> set nodes \<subseteq> ac_seen s \<and> distinct (map nd_Name nodes)"
  shows "distinct (adoptedIDs (ac_claims s @ map stored (as_created st)))"
proof (cases "as_created st = []")
  case True
  with once show ?thesis by simp
next
  case False
  note I = nodes_invD [OF inv]
  from False have "as_created st \<noteq> [] \<or> r = RequeueAfter resyncInterval" by simp
  from Reconcile_adoption_runs [OF ran this] obtain nodes claims where
    k: "k_cachedNodes k = Inr nodes" "k_claims k = Inr claims" by metis
  let ?ns = "matchingLabel nodepoolNameLabel (np_Name np) nodes"
  have nodes: "set nodes \<subseteq> ac_seen s" "distinct (map nd_Name nodes)" using cached [OF k(1)] by blast+
  have ns: "set ?ns \<subseteq> ac_seen s" "inj_on nd_Name (set ?ns)"
    using nodes by (auto simp: matchingLabel_def distinct_map inj_on_def)
  have fresh: "effectiveID np m \<notin> claimedIDs claims"
    if m: "m \<in> set ?ns" and pid: "nd_ProviderID m = []" and patched: "ae_Patch env (sentNode np m) = None" for m
  proof (cases "effectiveID np m = []")
    case True
    then show ?thesis using claimedIDs_nonempty by metis
  next
    case False
    with m have "sentNode np m \<in> sentNode np ` {n \<in> set ?ns. effectiveID np n \<noteq> []}" by blast
    from patched_node [OF inv lock ns(1) this patched] obtain n where
      n: "n \<in> set ?ns" "sentNode np m = sentNode np n" "ac_nodes s (nd_Name (sentNode np m)) = Some n" by blast
    from n(2) have "nd_Name m = nd_Name n" by (metis sentNode_sel(1))
    with ns(2) m n(1) have "n = m" by (auto dest: inj_onD)
    with n(3) pid have "unidentified s m" by (simp add: unidentified_def)
    with free listed [OF k(2)] effectiveID_own [OF m] show ?thesis by auto
  qed
  have "n = m" if "m \<in> set ?ns" "n \<in> set ?ns" "effectiveID np n = effectiveID np m" for m n
  proof -
    have "ownID n = ownID m" using that effectiveID_own by metis
    with I(4) ns(1) that(1,2) have "nd_Name n = nd_Name m" by blast
    with ns(2) that(1,2) show ?thesis by (auto dest: inj_onD)
  qed
  moreover have "distinct nodes" using nodes(2) by (simp add: distinct_map)
  ultimately have "distinct (map adoptedID (as_created st)) \<and> adoptedID ` set (as_created st) \<inter> claimedIDs claims = {}"
    using adopted_ids_fresh [OF ran k] fresh unfolding adoptedID_def by blast
  moreover have "set (adoptedIDs (as_created st)) \<subseteq> adoptedID ` set (as_created st)" by (auto simp: adoptedIDs_def)
  ultimately show ?thesis
    using once conjunct2 [OF listed [OF k(2)]] unfolding adoptedIDs_append by (auto simp: adoptedIDs_def distinct_filter)
qed

section \<open>Every step\<close>

lemma pass_inv:
  assumes inv: "adopt_inv s" and ran: "Reconcile_adoption kp env k np = (r, st)"
    and listed: "\<And>claims. k_claims k = Inr claims \<Longrightarrow>
      claimedIDs claims \<subseteq> ac_claimed s \<and> set (adoptedIDs (ac_claims s)) \<subseteq> claimedIDs claims"
    and cached: "\<And>nodes. k_cachedNodes k = Inr nodes \<Longrightarrow> set nodes \<subseteq> ac_seen s \<and> distinct (map nd_Name nodes)"
    and lock: "locking env s" and v: "\<And>name. newVersion s (v name)"
    and N: "N = applyPatches env v (as_patches st) (ac_nodes s)"
  shows "adopt_inv \<lparr>ac_nodes = N, ac_seen = ac_seen s \<union> ran N, ac_claims = ac_claims s @ map stored (as_created st),
    ac_claimed = ac_claimed s \<union> set (adoptedIDs (as_created st))\<rparr>"
    (is "adopt_inv ?t")
proof -
  from inv have i: "nodes_inv s" "\<forall>n. unidentified s n \<longrightarrow> ownID n \<notin> ac_claimed s"
    "distinct (adoptedIDs (ac_claims s))" "claimedIDs (ac_claims s) \<subseteq> ac_claimed s" by (simp_all add: adopt_inv_def)
  note I = nodes_invD [OF i(1)]
  obtain ns and st0 :: "('a, 'b) adoptSt" where ns: "set ns \<subseteq> ac_seen s" "\<forall>n \<in> set ns. effectiveID np n = ownID n"
    and st0: "as_patches st0 = []" "as_created st0 = []" and sent: "sends env np (set ns) st0 st"
    using pass_sends [OF ran, of "ac_seen s"] cached by metis
  have ps: "set (as_patches st) \<subseteq> sentNode np ` {n \<in> set ns. effectiveID np n \<noteq> []}"
    using sent st0 by (simp add: sends_def)
  have names: "\<And>name n. ac_nodes s name = Some n \<Longrightarrow> nd_Name n = name" "ran (ac_nodes s) \<subseteq> ac_seen s"
    using I(1) by (auto simp: ran_def)
  have grown: "ac_seen s \<union> ran N = ac_seen s \<union> written env v (as_patches st)"
    unfolding N by (rule applyPatches_ran [OF names])
  have "nodes_inv ?t" unfolding grown
  proof (rule nodes_inv_writes [OF i(1) pass_writes [OF i(1) lock ns ps v]])
    show "nd_Name n = name \<and> (n \<in> written env v (as_patches st) \<or>
        ac_nodes s name = Some n \<and> name \<notin> nd_Name ` written env v (as_patches st))" if "N name = Some n" for name n
      using applyPatches_Some [OF that [unfolded N] names(1)] by blast
  qed
  moreover have "ownID n \<notin> ac_claimed ?t" if "unidentified ?t n" for n
    using unclaimed_after [OF i(1,2) lock ns st0 sent, of v n] that by (simp add: unidentified_def N)
  moreover have "distinct (adoptedIDs (ac_claims ?t))"
    using adopted_once_after [OF i(1-3) lock ran listed cached] by simp
  moreover have "claimedIDs (ac_claims ?t) \<subseteq> ac_claimed ?t"
    using i(4) by (auto simp: claimedIDs_append claimedIDs_stored)
  ultimately show ?thesis by (simp add: adopt_inv_def)
qed

text \<open>What the invariant asks of the nodes and of the IDs when nodes go or claims change.\<close>

lemma nodes_inv_fewer:
  assumes "nodes_inv s" and "\<And>name n. N name = Some n \<Longrightarrow> ac_nodes s name = Some n"
  shows "nodes_inv \<lparr>ac_nodes = N, ac_seen = ac_seen s, ac_claims = cs, ac_claimed = C\<rparr>"
  using nodes_inv_writes [OF assms(1), of "{}" N cs C] nodes_invD(1) [OF assms(1)] assms(2) by (simp add: writes_def)

lemma adopt_invI:
  assumes "nodes_inv \<lparr>ac_nodes = N, ac_seen = S, ac_claims = cs, ac_claimed = C\<rparr>"
    and "\<And>n. N (nd_Name n) = Some n \<Longrightarrow> nd_ProviderID n = [] \<Longrightarrow> ownID n \<notin> C"
    and "distinct (adoptedIDs cs)" and "claimedIDs cs \<subseteq> C"
  shows "adopt_inv \<lparr>ac_nodes = N, ac_seen = S, ac_claims = cs, ac_claimed = C\<rparr>"
  using assms by (simp add: adopt_inv_def unidentified_def)

lemma node_written_inv:
  assumes inv: "adopt_inv s" and w: "writes s {n}"
    and free: "nd_ProviderID n = [] \<Longrightarrow> ownID n \<notin> ac_claimed s"
  shows "adopt_inv (s\<lparr>ac_nodes := (ac_nodes s)(nd_Name n \<mapsto> n), ac_seen := insert n (ac_seen s)\<rparr>)"
    (is "adopt_inv ?t")
proof -
  from inv have i: "nodes_inv s" "\<forall>n. unidentified s n \<longrightarrow> ownID n \<notin> ac_claimed s"
    "distinct (adoptedIDs (ac_claims s))" "claimedIDs (ac_claims s) \<subseteq> ac_claimed s" by (simp_all add: adopt_inv_def)
  have N: "nd_Name m = name \<and> (m \<in> {n} \<or> ac_nodes s name = Some m \<and> name \<notin> nd_Name ` {n})"
    if "((ac_nodes s)(nd_Name n \<mapsto> n)) name = Some m" for name m
    using that nodes_invD(1) [OF i(1)] by (cases "name = nd_Name n") auto
  have "adopt_inv \<lparr>ac_nodes = (ac_nodes s)(nd_Name n \<mapsto> n), ac_seen = ac_seen s \<union> {n}, ac_claims = ac_claims s,
    ac_claimed = ac_claimed s\<rparr>"
  proof (rule adopt_invI [OF nodes_inv_writes [OF i(1) w N] _ i(3,4)])
    show "ownID m \<notin> ac_claimed s"
      if m: "((ac_nodes s)(nd_Name n \<mapsto> n)) (nd_Name m) = Some m" "nd_ProviderID m = []" for m
    proof (cases "nd_Name m = nd_Name n")
      case True
      with m(1) have "m = n" by simp
      with free m(2) show ?thesis by blast
    next
      case False
      with m have "unidentified s m" by (simp add: unidentified_def)
      with i(2) show ?thesis by blast
    qed
  qed
  then show ?thesis by (cases s) simp
qed

lemma distinct_submset:
  assumes "mset xs \<subseteq># mset ys" and "distinct ys"
  shows "distinct xs"
proof -
  have "count (mset ys) a \<le> 1" for a using assms(2) unfolding distinct_count_atmost_1 by simp
  then have "count (mset xs) a \<le> 1" for a using mset_subset_eq_count [OF assms(1)] by (rule le_trans [rotated])
  then have "count (mset xs) a = (if a \<in> set xs then 1 else 0)" for a
    using not_in_iff [of a "mset xs"] by (metis One_nat_def le_SucE le_zero_eq set_mset_mset)
  then show ?thesis unfolding distinct_count_atmost_1 by blast
qed

lemma adopt_step_inv: "adopt_step kp s t \<Longrightarrow> adopt_inv s \<Longrightarrow> adopt_inv t"
proof (induction rule: adopt_step.induct)
  case (pass env k np r st s v N)
  then show ?case by (intro pass_inv)
next
  case (node_created s n)
  have "writes s {n}" using node_created.hyps(1,2) by (auto simp: writes_def)
  from node_written_inv [OF node_created.prems this] node_created.hyps(3) show ?case by blast
next
  case (node_updated s n cur)
  have "nodes_inv s" using node_updated.prems by (simp add: adopt_inv_def)
  note I = nodes_invD [OF this]
  have "nd_ProviderID n = nd_ProviderID m" if "m \<in> ac_seen s" "nd_Name m = nd_Name n" "nd_ProviderID m \<noteq> []" for m
    using I(5) [OF that(1,3)] that(2,3) node_updated.hyps(1,3) by metis
  then have "writes s {n}" using node_updated.hyps(2,4) by (auto simp: writes_def)
  from node_written_inv [OF node_updated.prems this] node_updated.hyps(5) show ?case by blast
next
  case (node_deleted s name)
  let ?N = "(ac_nodes s)(name := None)"
  from node_deleted have i: "nodes_inv s" "\<And>n. unidentified s n \<Longrightarrow> ownID n \<notin> ac_claimed s"
    "distinct (adoptedIDs (ac_claims s))" "claimedIDs (ac_claims s) \<subseteq> ac_claimed s" by (simp_all add: adopt_inv_def)
  have fewer: "ac_nodes s x = Some n" if "?N x = Some n" for x n using that by (cases "x = name") simp_all
  have "adopt_inv \<lparr>ac_nodes = ?N, ac_seen = ac_seen s, ac_claims = ac_claims s,
    ac_claimed = ac_claimed s\<rparr>"
    using fewer i by (intro adopt_invI nodes_inv_fewer) (simp_all add: unidentified_def)
  then show ?case by (cases s) simp
next
  case (claims_written claims s)
  then have i: "nodes_inv s" "\<And>n. unidentified s n \<Longrightarrow> ownID n \<notin> ac_claimed s"
    "distinct (adoptedIDs (ac_claims s))" by (simp_all add: adopt_inv_def)
  have "adopt_inv \<lparr>ac_nodes = ac_nodes s, ac_seen = ac_seen s, ac_claims = claims,
    ac_claimed = ac_claimed s \<union> claimedIDs claims\<rparr>"
  proof (rule adopt_invI)
    show "distinct (adoptedIDs claims)" by (rule distinct_submset [OF claims_written.hyps(1) i(3)])
    show "ownID n \<notin> ac_claimed s \<union> claimedIDs claims" if "ac_nodes s (nd_Name n) = Some n" "nd_ProviderID n = []" for n
      using claims_written.hyps(2) i(2) that by (simp add: unidentified_def)
    show "claimedIDs claims \<subseteq> ac_claimed s \<union> claimedIDs claims" by blast
  qed (rule nodes_inv_fewer [OF i(1)])
  then show ?case by (cases s) simp
qed

interpretation adoptions: invariant_system ac_init "adopt_step kp" adopt_inv for kp
proof
  fix s :: "'a adoptCluster"
  assume "ac_init s"
  then show "adopt_inv s"
    by (simp add: ac_init_def adopt_inv_def nodes_inv_def unidentified_def adoptedIDs_def claimedIDs_def)
qed (rule adopt_step_inv)


text \<open>A server with the worker of the small pool, which has no provider ID yet.\<close>

definition newWorker :: "unit adoptCluster" where
  "newWorker = \<lparr>ac_nodes = [''h1'' \<mapsto> worker []], ac_seen = {worker []}, ac_claims = [], ac_claimed = {}\<rparr>"

definition lockWorld :: "unit Node \<Rightarrow> gerror option" where
  "lockWorld p = (if nd_Name p = ''h1'' \<and> nd_ResourceVersion p = ''1'' then None else Some (ExternalError ''conflict''))"

lemma worker_sel: "nd_Name (worker pid) = ''h1''" "nd_ResourceVersion (worker pid) = ''1''" "nd_ProviderID (worker pid) = pid"
  by (simp_all add: worker_def)

lemma reach_newWorker: "reach ac_init (adopt_step listKarpenter) newWorker"
proof -
  let ?s = "\<lparr>ac_nodes = Map.empty, ac_seen = {}, ac_claims = [], ac_claimed = {}\<rparr> :: unit adoptCluster"
  have "reach ac_init (adopt_step listKarpenter) ?s" by (rule reach_init) (simp add: ac_init_def)
  moreover have "adopt_step listKarpenter ?s
      (?s\<lparr>ac_nodes := (ac_nodes ?s)(nd_Name (worker []) \<mapsto> worker []), ac_seen := insert (worker []) (ac_seen ?s)\<rparr>)"
    by (rule node_created) (simp_all add: newVersion_def worker_sel claimedIDs_def)
  ultimately show ?thesis unfolding newWorker_def by (simp add: worker_sel reach_step)
qed


end
