(* ===== verification/Broker_Sharing.thy ===== *)
theory Broker_Sharing
  imports Broker_Client
begin

text \<open>
  The one connection of \<^verbatim>\<open>pkg/rafay/brokerclient.go\<close> under the calls that share it: the sender, the
  poller, cancellations and the configuration sync run \<^verbatim>\<open>callBroker\<close> or \<^verbatim>\<open>callBrokerOnce\<close> at the same
  time. One step is one section under the client's mutex (\<open>getConn\<close>, \<open>closeConn\<close>) or the return of a
  request, so that calls interleave between the sections as the goroutines may.
\<close>

section \<open>The calls as processes\<close>

datatype callMode = Retry | Once

text \<open>
  Where a call is: before its \<^verbatim>\<open>getConn\<close>, in its request, before \<^verbatim>\<open>closeConn\<close>, before the second
  \<^verbatim>\<open>getConn\<close>, in the second request, returned with its error if any.
\<close>

datatype callPc = Start | Calling conn | Dropping gerror | Again | CallingAgain conn
  | Returned "gerror option"

text \<open>
  \<open>cs_opened\<close> and \<open>cs_closed\<close> are the connections dialled and closed, in order, \<open>cs_used\<close> the ones a
  call was issued on.
\<close>

record 'w connSys =
  cs_client :: BrokerClient
  cs_world :: 'w
  cs_mode :: "nat \<Rightarrow> callMode"
  cs_pc :: "nat \<Rightarrow> callPc"
  cs_opened :: "conn list"
  cs_closed :: "conn list"
  cs_used :: "nat \<Rightarrow> conn list"

fun onConn :: "callPc \<Rightarrow> conn result \<Rightarrow> callPc option" where
  "onConn Start (Inl e) = Some (Returned (Some e))"
| "onConn Start (Inr cc) = Some (Calling cc)"
| "onConn Again (Inl e) = Some (Returned (Some e))"
| "onConn Again (Inr cc) = Some (CallingAgain cc)"
| "onConn _ _ = None"

fun onReturn :: "callPc \<Rightarrow> gerror option \<Rightarrow> callPc option" where
  "onReturn (Calling cc) None = Some (Returned None)"
| "onReturn (Calling cc) (Some e) = Some (if shouldRedial e then Dropping e else Returned (Some e))"
| "onReturn (CallingAgain cc) r = Some (Returned r)"
| "onReturn _ _ = None"

fun onDrop :: "callMode \<Rightarrow> callPc \<Rightarrow> callPc option" where
  "onDrop Retry (Dropping e) = Some Again"
| "onDrop Once (Dropping e) = Some (Returned (Some e))"
| "onDrop _ _ = None"

text \<open>What a \<^verbatim>\<open>getConn\<close> adds to the connections dialled, and a \<^verbatim>\<open>closeConn\<close> to those closed.\<close>

definition dialled :: "'w connSys \<Rightarrow> conn result \<Rightarrow> conn list" where
  "dialled s r = (case (bc_conn (cs_client s), r) of (None, Inr cc) \<Rightarrow> [cc] | _ \<Rightarrow> [])"

definition dropped :: "'w connSys \<Rightarrow> conn list" where
  "dropped s = (case bc_conn (cs_client s) of None \<Rightarrow> [] | Some cc \<Rightarrow> [cc])"

definition issued :: "conn result \<Rightarrow> conn list" where
  "issued r = (case r of Inl e \<Rightarrow> [] | Inr cc \<Rightarrow> [cc])"

definition conn_init :: "'w connSys \<Rightarrow> bool" where
  "conn_init s \<longleftrightarrow> bc_conn (cs_client s) = None \<and> cs_pc s = (\<lambda>i. Start) \<and> cs_opened s = [] \<and>
     cs_closed s = [] \<and> cs_used s = (\<lambda>i. [])"

text \<open>
  A dial gives a connection of its own, none that was dialled before. A request may return anything
  and leave the world in any state.
\<close>

inductive conn_step :: "'w grpcEnv \<Rightarrow> 'w connSys \<Rightarrow> 'w connSys \<Rightarrow> bool" for env where
  get:
    "\<lbrakk>onConn (cs_pc s i) r = Some p; getConn env (cs_client s, cs_world s) = (r, c, w);
      set (dialled s r) \<inter> set (cs_opened s) = {}\<rbrakk> \<Longrightarrow>
     conn_step env s (s\<lparr>cs_client := c, cs_world := w, cs_pc := (cs_pc s)(i := p),
       cs_opened := cs_opened s @ dialled s r, cs_used := (cs_used s)(i := cs_used s i @ issued r)\<rparr>)"
| return:
    "onReturn (cs_pc s i) r = Some p \<Longrightarrow>
     conn_step env s (s\<lparr>cs_world := w, cs_pc := (cs_pc s)(i := p)\<rparr>)"
| drop:
    "\<lbrakk>onDrop (cs_mode s i) (cs_pc s i) = Some p; closeConn env (cs_client s, cs_world s) = (c, w)\<rbrakk> \<Longrightarrow>
     conn_step env s (s\<lparr>cs_client := c, cs_world := w, cs_pc := (cs_pc s)(i := p),
       cs_closed := cs_closed s @ dropped s\<rparr>)"

section \<open>What the sections do to the cached connection\<close>

lemma getConn_cached:
  assumes "getConn env (cs_client s, w0) = (r, c, w)"
  shows "set (dialled s r) = set_option (bc_conn c) - set_option (bc_conn (cs_client s)) \<and>
    set_option (bc_conn (cs_client s)) \<subseteq> set_option (bc_conn c) \<and>
    set (issued r) = set_option (bc_conn c)"
  using assms by (auto simp: getConn_def dialled_def issued_def split: option.splits sum.splits prod.splits)

lemma closeConn_cached:
  assumes "closeConn env (cs_client s, w0) = (c, w)"
  shows "bc_conn c = None \<and> set (dropped s) = set_option (bc_conn (cs_client s))"
  using assms by (auto simp: closeConn_def closeConnLocked_def dropped_def split: option.splits)

lemma distinct_parts [simp]: "distinct (dialled s r)" "distinct (dropped s)" "distinct (issued r)"
  by (auto simp: dialled_def dropped_def issued_def split: option.splits sum.splits)

section \<open>The invariant\<close>

fun connOf :: "callPc \<Rightarrow> conn option" where
  "connOf (Calling cc) = Some cc"
| "connOf (CallingAgain cc) = Some cc"
| "connOf _ = None"

text \<open>How often a call has been issued, by where it is.\<close>

fun triesOk :: "callMode \<Rightarrow> callPc \<Rightarrow> nat \<Rightarrow> bool" where
  "triesOk m Start n \<longleftrightarrow> n = 0"
| "triesOk m (Calling cc) n \<longleftrightarrow> n = 1"
| "triesOk m (Dropping e) n \<longleftrightarrow> n = 1"
| "triesOk m Again n \<longleftrightarrow> m = Retry \<and> n = 1"
| "triesOk m (CallingAgain cc) n \<longleftrightarrow> m = Retry \<and> n = 2"
| "triesOk m (Returned r) n \<longleftrightarrow> n \<le> (case m of Retry \<Rightarrow> 2 | Once \<Rightarrow> 1)"

definition calls_ok :: "'w connSys \<Rightarrow> nat \<Rightarrow> bool" where
  "calls_ok s i \<longleftrightarrow> triesOk (cs_mode s i) (cs_pc s i) (length (cs_used s i)) \<and>
     distinct (cs_used s i) \<and> set (cs_used s i) \<subseteq> set (cs_opened s) \<and>
     set_option (connOf (cs_pc s i)) \<subseteq> set (cs_used s i) \<and>
     (cs_pc s i = Again \<longrightarrow> set (cs_used s i) \<subseteq> set (cs_closed s)) \<and>
     (length (cs_used s i) = 2 \<longrightarrow> hd (cs_used s i) \<in> set (cs_closed s))"

lemma triesOk_bound: "triesOk m p n \<Longrightarrow> n \<le> (case m of Retry \<Rightarrow> 2 | Once \<Rightarrow> 1)"
  by (cases p) (auto split: callMode.splits)

definition conn_inv :: "'w connSys \<Rightarrow> bool" where
  "conn_inv s \<longleftrightarrow> distinct (cs_opened s) \<and> distinct (cs_closed s) \<and> set (cs_closed s) \<subseteq> set (cs_opened s) \<and>
     set (cs_opened s) - set (cs_closed s) = set_option (bc_conn (cs_client s)) \<and> (\<forall>i. calls_ok s i)"

lemma onConn_cases:
  assumes "onConn pc r = Some p"
  shows "(pc = Start \<or> pc = Again) \<and>
    p = (case r of Inl e \<Rightarrow> Returned (Some e) | Inr cc \<Rightarrow> if pc = Start then Calling cc else CallingAgain cc)"
  using assms by (cases "(pc, r)" rule: onConn.cases) auto

lemma onReturn_cases:
  assumes "onReturn pc r = Some p"
  shows "(\<exists>cc. pc = Calling cc \<and> (p = Returned r \<or> (\<exists>e. r = Some e \<and> shouldRedial e \<and> p = Dropping e))) \<or>
    (\<exists>cc. pc = CallingAgain cc \<and> p = Returned r)"
  using assms by (cases "(pc, r)" rule: onReturn.cases) (auto split: if_splits)

lemma onDrop_cases:
  assumes "onDrop m pc = Some p"
  shows "\<exists>e. pc = Dropping e \<and> p = (case m of Retry \<Rightarrow> Again | Once \<Rightarrow> Returned (Some e))"
  using assms by (cases "(m, pc)" rule: onDrop.cases) auto

lemma conn_inv_init: "conn_init s \<Longrightarrow> conn_inv s"
  by (simp add: conn_init_def conn_inv_def calls_ok_def)

lemma calls_ok_mono:
  assumes "calls_ok s i" and "cs_mode t i = cs_mode s i" "cs_pc t i = cs_pc s i" "cs_used t i = cs_used s i"
    and "set (cs_opened s) \<subseteq> set (cs_opened t)" "set (cs_closed s) \<subseteq> set (cs_closed t)"
  shows "calls_ok t i"
  using assms unfolding calls_ok_def by auto

lemma conn_inv_get:
  assumes inv: "conn_inv s" and p: "onConn (cs_pc s i) r = Some p"
    and g: "getConn env (cs_client s, cs_world s) = (r, c, w)" and new: "set (dialled s r) \<inter> set (cs_opened s) = {}"
  shows "conn_inv (s\<lparr>cs_client := c, cs_world := w, cs_pc := (cs_pc s)(i := p),
    cs_opened := cs_opened s @ dialled s r, cs_used := (cs_used s)(i := cs_used s i @ issued r)\<rparr>)" (is "conn_inv ?t")
proof -
  note c = getConn_cached [OF g]
  from inv have sets: "distinct (cs_opened s)" "distinct (cs_closed s)" "set (cs_closed s) \<subseteq> set (cs_opened s)"
    "set (cs_opened s) - set (cs_closed s) = set_option (bc_conn (cs_client s))" and ok: "\<And>j. calls_ok s j"
    by (simp_all add: conn_inv_def)
  have live: "set (cs_opened s) \<union> set (dialled s r) - set (cs_closed s) = set_option (bc_conn c)"
    using sets(3,4) new c by blast
  have "calls_ok ?t i"
  proof (cases r)
    case (Inl e)
    with ok [of i] onConn_cases [OF p] show ?thesis
      by (cases "cs_mode s i") (auto simp: calls_ok_def issued_def)
  next
    case (Inr cc)
    with c have cc: "bc_conn c = Some cc" by (auto simp: issued_def)
    with live have open_: "cc \<in> set (cs_opened s) \<union> set (dialled s r)" "cc \<notin> set (cs_closed s)" by auto
    have "cc \<notin> set (cs_used s i)"
      using onConn_cases [OF p] ok [of i] open_(2) by (cases "cs_pc s i") (auto simp: calls_ok_def)
    with Inr open_(1) ok [of i] onConn_cases [OF p] show ?thesis
      by (auto simp: calls_ok_def issued_def length_Suc_conv)
  qed
  moreover have "calls_ok ?t j" if "j \<noteq> i" for j
    using that by (intro calls_ok_mono [OF ok [of j]]) auto
  ultimately have "\<forall>j. calls_ok ?t j" by metis
  with sets new live show ?thesis by (auto simp: conn_inv_def)
qed

lemma conn_inv_drop:
  assumes inv: "conn_inv s" and p: "onDrop (cs_mode s i) (cs_pc s i) = Some p"
    and d: "closeConn env (cs_client s, cs_world s) = (c, w)"
  shows "conn_inv (s\<lparr>cs_client := c, cs_world := w, cs_pc := (cs_pc s)(i := p),
    cs_closed := cs_closed s @ dropped s\<rparr>)" (is "conn_inv ?t")
proof -
  note c = closeConn_cached [OF d]
  from inv have sets: "distinct (cs_opened s)" "distinct (cs_closed s)" "set (cs_closed s) \<subseteq> set (cs_opened s)"
    "set (cs_opened s) - set (cs_closed s) = set_option (bc_conn (cs_client s))" and ok: "\<And>j. calls_ok s j"
    by (simp_all add: conn_inv_def)
  have all: "set (cs_closed s) \<union> set (dropped s) = set (cs_opened s)" "set (dropped s) \<inter> set (cs_closed s) = {}"
    using sets(3,4) c by blast+
  have "calls_ok ?t i"
    using ok [of i] onDrop_cases [OF p] all(1)
    by (cases "cs_mode s i") (auto simp: calls_ok_def)
  moreover have "calls_ok ?t j" if "j \<noteq> i" for j
    using that by (intro calls_ok_mono [OF ok [of j]]) auto
  ultimately have "\<forall>j. calls_ok ?t j" by metis
  with sets all c show ?thesis by (auto simp: conn_inv_def)
qed

lemma conn_inv_return:
  assumes inv: "conn_inv s" and p: "onReturn (cs_pc s i) r = Some p"
  shows "conn_inv (s\<lparr>cs_world := w, cs_pc := (cs_pc s)(i := p)\<rparr>)" (is "conn_inv ?t")
proof -
  from inv have ok: "\<And>j. calls_ok s j" by (simp add: conn_inv_def)
  have "calls_ok ?t i"
    using ok [of i] onReturn_cases [OF p]
    by (cases "cs_mode s i") (auto simp: calls_ok_def)
  moreover have "calls_ok ?t j" if "j \<noteq> i" for j
    using that by (intro calls_ok_mono [OF ok [of j]]) auto
  ultimately have "\<forall>j. calls_ok ?t j" by metis
  with inv show ?thesis by (auto simp: conn_inv_def)
qed

lemma conn_inv_step: "conn_inv s \<Longrightarrow> conn_step env s t \<Longrightarrow> conn_inv t"
  by (erule conn_step.cases) (simp_all only: conn_inv_get conn_inv_return conn_inv_drop)

interpretation connection: invariant_system conn_init "conn_step env" conn_inv for env
  by unfold_locales (simp_all add: conn_inv_init conn_inv_step)

text \<open>
  C13: The calls share one connection and leak none, however they interleave: at any time at most one
  of the connections dialled is open, it is the one the client caches, and every other was closed,
  exactly once. A call that must not be repeated is issued on at most one connection; a read on at most
  two, and the second attempt never goes out on the connection that failed, also when other calls
  closed it or dialled a new one in between.
\<close>
theorem connection_accounting:
  assumes "reach conn_init (conn_step env) s"
  shows "set (cs_opened s) - set (cs_closed s) = set_option (bc_conn (cs_client s)) \<and>
    distinct (cs_closed s) \<and> set (cs_closed s) \<subseteq> set (cs_opened s) \<and>
    length (cs_used s i) \<le> (case cs_mode s i of Retry \<Rightarrow> 2 | Once \<Rightarrow> 1) \<and> distinct (cs_used s i) \<and>
    set (cs_used s i) \<subseteq> set (cs_opened s) \<and>
    (length (cs_used s i) = 2 \<longrightarrow> hd (cs_used s i) \<in> set (cs_closed s))"
  using connection.reach_inv [OF assms] triesOk_bound [of "cs_mode s i" "cs_pc s i"]
  by (simp add: conn_inv_def calls_ok_def)

section \<open>The code without interleaving\<close>

text \<open>
  \<open>nextc\<close> reads from the world a bound above the connections dialled so far; a dial gives one above it.
\<close>

definition numbered :: "'w grpcEnv \<Rightarrow> ('w \<Rightarrow> nat) \<Rightarrow> (conn \<Rightarrow> 'w \<Rightarrow> 'a result \<times> 'w) \<Rightarrow> bool" where
  "numbered env nextc fn \<longleftrightarrow>
     (\<forall>c w r w'. dialBroker env c w = (r, w') \<longrightarrow>
        nextc w \<le> nextc w' \<and> (\<forall>cc. r = Inr cc \<longrightarrow> nextc w \<le> cc \<and> cc < nextc w')) \<and>
     (\<forall>cc w. nextc w \<le> nextc (ge_closeConn env cc w)) \<and> (\<forall>cc w. nextc w \<le> nextc (snd (fn cc w)))"

definition below :: "('w \<Rightarrow> nat) \<Rightarrow> 'w connSys \<Rightarrow> bool" where
  "below nextc s \<longleftrightarrow> (\<forall>cc \<in> set (cs_opened s). cc < nextc (cs_world s))"

definition at :: "'w connSys \<Rightarrow> 'w connSys \<Rightarrow> nat \<Rightarrow> BrokerClient \<Rightarrow> 'w \<Rightarrow> callPc \<Rightarrow> bool" where
  "at s t i c w p \<longleftrightarrow> cs_client t = c \<and> cs_world t = w \<and> cs_pc t = (cs_pc s)(i := p) \<and> cs_mode t = cs_mode s"

lemma seq_get:
  assumes "numbered env nextc fn" and "below nextc s" and "onConn (cs_pc s i) r = Some p"
    and "getConn env (cs_client s, cs_world s) = (r, c, w)"
  shows "\<exists>t. conn_step env s t \<and> at s t i c w p \<and> below nextc t"
proof -
  from assms(4) have "nextc (cs_world s) \<le> nextc w \<and>
      (\<forall>cc \<in> set (dialled s r). nextc (cs_world s) \<le> cc \<and> cc < nextc w)"
    using assms(1) by (fastforce simp: getConn_def dialled_def numbered_def split: option.splits sum.splits prod.splits)
  then have "set (dialled s r) \<inter> set (cs_opened s) = {}" "\<forall>cc \<in> set (cs_opened s @ dialled s r). cc < nextc w"
    using assms(2) by (auto simp: below_def dest: leD intro: less_le_trans)
  with conn_step.get [OF assms(3,4) this(1)] show ?thesis
    by (auto simp: at_def below_def intro!: exI)
qed

lemma seq_return:
  assumes "numbered env nextc fn" and "below nextc s" and "onReturn (cs_pc s i) e = Some p"
    and "fn cc (cs_world s) = (r, w)"
  shows "\<exists>t. conn_step env s t \<and> at s t i (cs_client s) w p \<and> below nextc t"
proof -
  from assms(1,4) have "nextc (cs_world s) \<le> nextc w" by (metis numbered_def snd_conv)
  with assms(2) conn_step.return [OF assms(3)] show ?thesis
    by (fastforce simp: at_def below_def intro: less_le_trans intro!: exI)
qed

lemma seq_drop:
  assumes "numbered env nextc fn" and "below nextc s" and "onDrop (cs_mode s i) (cs_pc s i) = Some p"
    and "closeConn env (cs_client s, cs_world s) = (c, w)"
  shows "\<exists>t. conn_step env s t \<and> at s t i c w p \<and> below nextc t"
proof -
  from assms(1,4) have "nextc (cs_world s) \<le> nextc w"
    by (auto simp: numbered_def closeConn_def closeConnLocked_def split: option.splits)
  with assms(2) conn_step.drop [OF assms(3,4)] show ?thesis
    by (fastforce simp: at_def below_def intro: less_le_trans intro!: exI)
qed

definition errOf :: "'a result \<Rightarrow> gerror option" where
  "errOf r = (case r of Inl e \<Rightarrow> Some e | Inr _ \<Rightarrow> None)"

lemma errOf_simps [simp]: "errOf (Inl e) = Some e" "errOf (Inr x) = None"
  by (simp_all add: errOf_def)

lemma at_trans: "at s t i c w p \<Longrightarrow> at t u i c' w' q \<Longrightarrow> at s u i c' w' q"
  by (simp add: at_def)

lemma seq_start:
  assumes "numbered env nextc fn" and "below nextc s" and "cs_pc s i \<in> {Start, Again}"
    and "getConn env (cs_client s, cs_world s) = (Inr cc, c, w)" and "fn cc w = (r, w')"
  shows "\<exists>t u p. conn_step env s t \<and> conn_step env t u \<and> at s u i c w' p \<and> below nextc u \<and>
    onReturn (if cs_pc s i = Start then Calling cc else CallingAgain cc) (errOf r) = Some p"
proof -
  let ?q = "if cs_pc s i = Start then Calling cc else CallingAgain cc"
  have "onConn (cs_pc s i) (Inr cc) = Some ?q" using assms(3) by auto
  from seq_get [OF assms(1,2) this assms(4)] obtain t where t: "conn_step env s t" "at s t i c w ?q" "below nextc t"
    by blast
  have "onReturn ?q (errOf r) \<noteq> None" by (cases "errOf r") auto
  then obtain p where p: "onReturn ?q (errOf r) = Some p" by blast
  with t(2) have "onReturn (cs_pc t i) (errOf r) = Some p" by (simp add: at_def)
  from seq_return [OF assms(1) t(3) this, of cc r w'] assms(5) t(2)
  obtain u where "conn_step env t u" "at t u i c w' p" "below nextc u" by (auto simp: at_def)
  with t(1,2) p show ?thesis by (blast intro: at_trans)
qed

lemma seq_again:
  assumes "numbered env nextc fn" and "below nextc v" and "cs_pc v i = Again"
    and "(case getConn env (cs_client v, cs_world v) of
        (Inl e, cw') \<Rightarrow> (Inl e, cw')
      | (Inr cc, c', w') \<Rightarrow> (case fn cc w' of (r, w'') \<Rightarrow> (r, c', w''))) = (r, c, w)"
  shows "\<exists>x. (conn_step env)\<^sup>*\<^sup>* v x \<and> at v x i c w (Returned (errOf r))"
proof -
  obtain g c' w' where g: "getConn env (cs_client v, cs_world v) = (g, c', w')" by (metis prod_cases3)
  show ?thesis
  proof (cases g)
    case (Inl e)
    with seq_get [OF assms(1,2) _ g, of i "Returned (Some e)"] assms(3,4) g show ?thesis by auto
  next
    case (Inr cc)
    obtain r2 w2 where f: "fn cc w' = (r2, w2)" by fastforce
    from seq_start [OF assms(1,2) _ g [unfolded Inr] f, of i] assms(3) obtain x y where
      "conn_step env v x" "conn_step env x y" "at v y i c' w2 (Returned (errOf r2))" by auto
    with assms(4) g Inr f show ?thesis by (auto intro: rtranclp.rtrancl_into_rtrancl)
  qed
qed

lemma seq_dropping:
  assumes "numbered env nextc fn" and "below nextc u" and "cs_pc u i = Dropping e"
    and "closeConn env (cs_client u, cs_world u) = (c2, w2)"
    and "(case cs_mode u i of
        Once \<Rightarrow> (Inl e, c2, w2)
      | Retry \<Rightarrow> (case getConn env (c2, w2) of
          (Inl e, cw') \<Rightarrow> (Inl e, cw')
        | (Inr cc, c', w') \<Rightarrow> (case fn cc w' of (r, w'') \<Rightarrow> (r, c', w'')))) = (r, c, w)"
  shows "\<exists>x. (conn_step env)\<^sup>*\<^sup>* u x \<and> at u x i c w (Returned (errOf r))"
proof (cases "cs_mode u i")
  case Once
  with assms(3) have "onDrop (cs_mode u i) (cs_pc u i) = Some (Returned (Some e))" by simp
  from seq_drop [OF assms(1,2) this assms(4)] Once assms(5) show ?thesis by auto
next
  case Retry
  with assms(3) have "onDrop (cs_mode u i) (cs_pc u i) = Some Again" by simp
  from seq_drop [OF assms(1,2) this assms(4)] obtain v where
    v: "conn_step env u v" "at u v i c2 w2 Again" "below nextc v" by auto
  then have vs: "cs_client v = c2" "cs_world v = w2" "cs_pc v i = Again" by (simp_all add: at_def)
  with Retry assms(5) have "(case getConn env (cs_client v, cs_world v) of
      (Inl e, cw') \<Rightarrow> (Inl e, cw')
    | (Inr cc, c', w') \<Rightarrow> (case fn cc w' of (r, w'') \<Rightarrow> (r, c', w''))) = (r, c, w)" by simp
  from seq_again [OF assms(1) v(3) vs(3) this] obtain x where
    "(conn_step env)\<^sup>*\<^sup>* v x" "at v x i c w (Returned (errOf r))" by blast
  with v(1) at_trans [OF v(2)] show ?thesis by (blast intro: converse_rtranclp_into_rtranclp)
qed

text \<open>
  C14: The functions of the source are the interleaved calls without interleaving: \<open>callBroker\<close> and
  \<open>callBrokerOnce\<close> run on their own take the client and the world through steps of the shared system,
  in which the call ends with the error the function returns and no other call moves. So what holds in
  every reachable state of that system holds after any sequence of calls, and between their sections.
\<close>
theorem call_is_a_schedule:
  assumes "numbered env nextc fn" and "below nextc s" and "cs_pc s i = Start"
    and "(case cs_mode s i of Retry \<Rightarrow> callBroker env fn | Once \<Rightarrow> callBrokerOnce env fn)
      (cs_client s, cs_world s) = (r, c, w)"
  shows "\<exists>t. (conn_step env)\<^sup>*\<^sup>* s t \<and> at s t i c w (Returned (errOf r))"
proof -
  obtain g c1 w1 where g: "getConn env (cs_client s, cs_world s) = (g, c1, w1)" by (metis prod_cases3)
  show ?thesis
  proof (cases g)
    case (Inl e)
    with assms(4) g have "r = Inl e" "c = c1" "w = w1"
      by (auto simp: callBroker_def callBrokerOnce_def split: callMode.splits)
    moreover have "onConn (cs_pc s i) g = Some (Returned (Some e))" using Inl assms(3) by simp
    ultimately show ?thesis using seq_get [OF assms(1,2) _ g, of i "Returned (Some e)"] by auto
  next
    case (Inr cc)
    obtain r1 w2 where f: "fn cc w1 = (r1, w2)" by fastforce
    from seq_start [OF assms(1,2) _ g [unfolded Inr] f, of i] assms(3) obtain t u p where
      u: "conn_step env s t" "conn_step env t u" "at s u i c1 w2 p" "below nextc u"
        "onReturn (Calling cc) (errOf r1) = Some p" by auto
    show ?thesis
    proof (cases "\<exists>e. r1 = Inl e \<and> shouldRedial e")
      case False
      with u(5) have "p = Returned (errOf r1)" by (cases r1) auto
      moreover from False assms(4) g Inr f have "r = r1" "c = c1" "w = w2"
        by (auto simp: callBroker_def callBrokerOnce_def split: callMode.splits sum.splits)
      ultimately show ?thesis using u(1-3) by (auto intro: rtranclp.rtrancl_into_rtrancl)
    next
      case True
      then obtain e where e: "r1 = Inl e" "shouldRedial e" by blast
      with u(3,5) have p: "cs_pc u i = Dropping e" "cs_mode u = cs_mode s" "cs_client u = c1" "cs_world u = w2"
        by (auto simp: at_def)
      obtain c2 w3 where d: "closeConn env (cs_client u, cs_world u) = (c2, w3)" by fastforce
      from assms(4) g Inr f e d p have "(case cs_mode u i of
          Once \<Rightarrow> (Inl e, c2, w3)
        | Retry \<Rightarrow> (case getConn env (c2, w3) of
            (Inl e, cw') \<Rightarrow> (Inl e, cw')
          | (Inr cc, c', w') \<Rightarrow> (case fn cc w' of (r, w'') \<Rightarrow> (r, c', w'')))) = (r, c, w)"
        by (cases "cs_mode s i") (simp_all add: callBroker_def callBrokerOnce_def)
      from seq_dropping [OF assms(1) u(4) p(1) d this] obtain x where
        x: "(conn_step env)\<^sup>*\<^sup>* u x" "at u x i c w (Returned (errOf r))" by blast
      from u(1,2) x(1) have "(conn_step env)\<^sup>*\<^sup>* s x" by (blast intro: converse_rtranclp_into_rtranclp)
      with at_trans [OF u(3) x(2)] show ?thesis by blast
    qed
  qed
qed

section \<open>Runs\<close>

datatype 'w connAction = Get nat | Return nat "gerror option" 'w | Drop nat

fun conn_exec :: "'w grpcEnv \<Rightarrow> 'w connAction \<Rightarrow> 'w connSys \<Rightarrow> 'w connSys option" where
  "conn_exec env (Get i) s =
     (case getConn env (cs_client s, cs_world s) of (r, c, w) \<Rightarrow>
        (case onConn (cs_pc s i) r of
           None \<Rightarrow> None
         | Some p \<Rightarrow>
             (if set (dialled s r) \<inter> set (cs_opened s) = {}
              then Some (s\<lparr>cs_client := c, cs_world := w, cs_pc := (cs_pc s)(i := p),
                cs_opened := cs_opened s @ dialled s r, cs_used := (cs_used s)(i := cs_used s i @ issued r)\<rparr>)
              else None)))"
| "conn_exec env (Return i r w) s =
     (case onReturn (cs_pc s i) r of
        None \<Rightarrow> None
      | Some p \<Rightarrow> Some (s\<lparr>cs_world := w, cs_pc := (cs_pc s)(i := p)\<rparr>))"
| "conn_exec env (Drop i) s =
     (case onDrop (cs_mode s i) (cs_pc s i) of
        None \<Rightarrow> None
      | Some p \<Rightarrow>
          (case closeConn env (cs_client s, cs_world s) of (c, w) \<Rightarrow>
             Some (s\<lparr>cs_client := c, cs_world := w, cs_pc := (cs_pc s)(i := p),
               cs_closed := cs_closed s @ dropped s\<rparr>)))"

lemma conn_exec_sound: "conn_exec env a s = Some t \<Longrightarrow> conn_step env s t"
  by (induction env a s rule: conn_exec.induct)
    (auto intro: conn_step.intros split: option.splits prod.splits if_splits)

fun conn_run :: "'w grpcEnv \<Rightarrow> 'w connAction list \<Rightarrow> 'w connSys \<Rightarrow> 'w connSys option" where
  "conn_run env [] s = Some s"
| "conn_run env (a # as) s = (case conn_exec env a s of None \<Rightarrow> None | Some t \<Rightarrow> conn_run env as t)"

lemma conn_run_reach:
  "conn_run env as s = Some t \<Longrightarrow> reach conn_init (conn_step env) s \<Longrightarrow> reach conn_init (conn_step env) t"
proof (induction as arbitrary: s)
  case (Cons a as)
  then obtain u where u: "conn_exec env a s = Some u" "conn_run env as u = Some t" by (auto split: option.splits)
  from reach_step [OF Cons.prems(2) conn_exec_sound [OF u(1)]] show ?case by (rule Cons.IH [OF u(2)])
qed simp

text \<open>An environment in which the world counts the dials.\<close>

definition countEnv :: "nat grpcEnv" where
  "countEnv =
     \<lparr>ge_newUUID = (\<lambda>w. (''uuid'', w)), ge_openStream = (\<lambda>cc ctx w. (Inr 0, w)),
      ge_send = (\<lambda>st m w. (None, w)), ge_recv = (\<lambda>st w. (Inl ContextDone, w)),
      ge_closeSend = (\<lambda>st w. w), ge_closeConn = (\<lambda>cc w. w),
      ge_dialInsecure = (\<lambda>h p w. (Inr w, Suc w)), ge_dialSecure = (\<lambda>h p cr w. (Inr w, Suc w)),
      ge_serverHost = (\<lambda>p. Inr ''broker''), ge_credentials = (\<lambda>c k a. Inr (0, ''broker''))\<rparr>"

definition sharing :: "nat connSys" where
  "sharing = \<lparr>cs_client = NewBrokerClient [] [] [] 0 [] ''sid'' ''broker'' True, cs_world = 0,
     cs_mode = (\<lambda>i. if i = 2 then Once else Retry), cs_pc = (\<lambda>i. Start), cs_opened = [], cs_closed = [],
     cs_used = (\<lambda>i. [])\<rparr>"

definition down :: gerror where "down = GrpcError Unavailable ''down''"

text \<open>
  Calls 0 and 1 share connection 0 when the broker goes away. Call 0 drops it, dials 1 and asks again;
  call 2, a batch being sent, takes connection 1 as well; then call 1 gets to its \<^verbatim>\<open>closeConn\<close>.
\<close>

definition latecomer :: "nat connAction list" where
  "latecomer = [Get 0, Get 1, Return 0 (Some down) 1, Return 1 (Some down) 1, Drop 0, Get 0, Get 2, Drop 1]"

lemma reach_sharing: "reach conn_init (conn_step env) sharing"
  by (rule reach_init) (simp add: conn_init_def sharing_def NewBrokerClient_def)

lemma trimSpace_broker: "trimSpace ''broker'' = ''broker''"
  by (simp add: trimSpace_def trimLeft_fixed space_runes_def hasPrefix_def)

lemmas conn_eval = getConn_def dialBroker_def closeConn_def closeConnLocked_def sharing_def NewBrokerClient_def
  countEnv_def dialled_def dropped_def issued_def shouldRedial_def down_def trimSpace_broker dialPort_def
  latecomer_def

theorem connection_accounting_witness:
  "\<exists>t. conn_run countEnv latecomer sharing = Some t \<and> cs_used t 0 = [0, 1] \<and> length (cs_used t 2) \<le> 1"
proof -
  obtain t where t: "conn_run countEnv latecomer sharing = Some t" "cs_used t 0 = [0, 1]" "cs_mode t 2 = Once"
    by (simp add: conn_eval)
  from connection_accounting [OF conn_run_reach [OF t(1) reach_sharing], of 2] t show ?thesis by auto
qed

text \<open>
  \<^verbatim>\<open>closeConn\<close> closes whatever connection is cached, not the one the request failed on: a call whose
  request failed on an old connection can close the new one under the requests that run on it. They fail
  with the status of a closed connection, which \<^verbatim>\<open>shouldRedial\<close> does not retry, and the batch among them
  fails for all its callers although the broker may have accepted it.
\<close>
theorem fresh_connection_closed:
  "\<exists>t. reach conn_init (conn_step countEnv) t \<and> cs_used t 1 = [0] \<and>
     cs_pc t 0 = CallingAgain 1 \<and> cs_pc t 2 = Calling 1 \<and> cs_mode t 2 = Once \<and> cs_closed t = [0, 1] \<and>
     (\<forall>msg t'. conn_exec countEnv (Return 2 (Some (GrpcError (OtherCode 1) msg)) (cs_world t)) t = Some t' \<longrightarrow>
        cs_pc t' 2 = Returned (Some (GrpcError (OtherCode 1) msg)))"
proof -
  obtain t where t: "conn_run countEnv latecomer sharing = Some t" "cs_used t 1 = [0]"
    "cs_pc t 0 = CallingAgain 1" "cs_pc t 2 = Calling 1" "cs_mode t 2 = Once" "cs_closed t = [0, 1]"
    by (simp add: conn_eval)
  then show ?thesis using conn_run_reach [OF t(1) reach_sharing]
    by (intro exI [of _ t]) (auto simp: shouldRedial_def split: option.splits)
qed

lemma numbered_countEnv: "numbered countEnv id (\<lambda>cc w. (r, w))"
  by (auto simp: numbered_def dialBroker_def countEnv_def Let_def split: sum.splits if_splits)

theorem call_is_a_schedule_witness:
  "\<exists>t. (conn_step countEnv)\<^sup>*\<^sup>* sharing t \<and> cs_pc t 0 = Returned (Some down) \<and> cs_world t = 2 \<and>
     bc_conn (cs_client t) = Some 1"
proof -
  let ?fn = "\<lambda>(cc :: conn) (w :: nat). (Inl down :: nat result, w)"
  have b: "below id sharing" "cs_pc sharing 0 = Start" by (simp_all add: below_def sharing_def)
  obtain r c w where run: "callBroker countEnv ?fn (cs_client sharing, cs_world sharing) = (r, c, w)"
    by (metis prod_cases3)
  then have e: "r = Inl down" "w = 2" "bc_conn c = Some 1"
    by (auto simp: callBroker_def conn_eval)
  from run have "(case cs_mode sharing 0 of Retry \<Rightarrow> callBroker countEnv ?fn | Once \<Rightarrow> callBrokerOnce countEnv ?fn)
      (cs_client sharing, cs_world sharing) = (r, c, w)" by (simp add: sharing_def)
  from call_is_a_schedule [OF numbered_countEnv b this] e show ?thesis by (auto simp: at_def)
qed

end
