(* ===== verification/Restart_Facts.thy ===== *)
theory Restart_Facts
  imports Batch_Resume Cloud_Properties
begin

text \<open>
  What a claim carries from \<^verbatim>\<open>Create\<close> through a restart: the claim \<^verbatim>\<open>Create\<close> returns, the
  batcher after the resume pass of a new process, and the failure-handler calls of a poll of a batch
  it resumed; and the steps of a removal from the request to its reported success. The lemmas serve the properties of the root theory that span these components.
\<close>

section \<open>The claim that Create returns\<close>

lemma created_claim:
  assumes "Create kp qo k cp wait (Some nc) b = (Inr out, b')"
    and "lookup (nc_Annotations nc) AdoptedProviderIDAnnotationKey = []"
  obtains sel ch where "selectInstanceType kp qo k nc = Inr sel"
    and "Enqueue (nc_UID nc) (addRequest cp sel nc) b = (ch, b')"
    and "\<exists>result. wait ch b' = Inr result \<and> br_Err result = None \<and> out = pendingClaim kp sel (br_BatchID result) nc"
  using assms by (auto simp: Create_def Let_def split: sum.splits option.splits prod.splits)

lemma pendingClaim_sel:
  "nc_UID (pendingClaim kp sel bid nc) = nc_UID nc"
  "nc_ProviderID (pendingClaim kp sel bid nc) = PendingProviderIDPrefix @ nc_UID nc"
  "nc_DeletionTimestamp (pendingClaim kp sel bid nc) = nc_DeletionTimestamp nc"
  "bid \<noteq> [] \<Longrightarrow> claimBatch (pendingClaim kp sel bid nc) = trimSpace bid"
  by (simp_all add: pendingClaim_def Let_def claimBatch_def)

section \<open>A new process\<close>

text \<open>The batcher as \<^verbatim>\<open>main\<close> hands it to the controllers.\<close>

abbreviation freshBatcher :: "nat option \<Rightarrow> NodeBatcher" where
  "freshBatcher fn \<equiv> SetFailureHandler fn NewNodeBatcher"

lemma freshBatcher_sel [simp]:
  "nb_inProgress (freshBatcher fn) bid = None" "trackedOps (freshBatcher fn) bid = None"
  "nb_failureHandler (freshBatcher fn) = fn"
  by (simp_all add: SetFailureHandler_def NewNodeBatcher_def trackedOps_def)

lemma resumed_fresh:
  assumes "cleanUIDs claims" and "someOrder claims order"
    and "Start_batchresume clock (Inr claims) order (freshBatcher fn) = (r, c, b1)"
  shows "trackedOps b1 bid = map_option set (groupByBatch claims bid)"
proof -
  note ok = entries_ok [OF assms(1,2)]
  from assms(3) have "snd (snd (resumeAll (\<lambda>bid. ResumeAddBatch (clock bid) bid) (entries claims order)
      (0, 0, freshBatcher fn))) = b1" by (simp add: Start_batchresume_def)
  with resuming.all_tracked [OF ok(1,2), of clock 0 0 "freshBatcher fn" bid] show ?thesis
    by (simp only: ok(3) freshBatcher_sel simp_thms if_True)
qed

text \<open>Every batch in progress is a resumed batch of adds, polled from its resumption on.\<close>

definition resumedOnly :: "(string \<Rightarrow> time) \<Rightarrow> nat \<Rightarrow> NodeBatcher \<Rightarrow> bool" where
  "resumedOnly clock fn b \<longleftrightarrow> nb_failureHandler b = Some fn \<and>
     (\<forall>bid bp. nb_inProgress b bid = Some bp \<longrightarrow> ipb_kind bp = opKindAdd \<and> ipb_sentAt bp = clock bid \<and>
        ipb_pollAfter bp = clock bid)"

lemma resumedOnly_step:
  assumes "cleanOp bid" and "resumedOnly clock fn b"
  shows "resumedOnly clock fn (snd (ResumeAddBatch (clock bid) bid ops b))"
proof (cases "ResumeAddBatch (clock bid) bid ops b")
  case (Pair ok b')
  have t: "trimSpace bid = bid" using assms(1) by (simp add: cleanOp_def)
  show ?thesis
  proof (cases ok)
    case True
    with ResumeAddBatch_True(1) [of "clock bid" bid ops b b'] Pair t assms(2) show ?thesis
      by (simp add: resumedOnly_def)
  next
    case False
    with ResumeAddBatch_False [of "clock bid" bid ops b b'] Pair assms(2) show ?thesis by simp
  qed
qed

lemma resumedOnly_all:
  assumes "\<forall>x \<in> set bs. cleanBatch x" and "resumedOnly clock fn b"
  shows "resumedOnly clock fn (snd (snd (resumeAll (\<lambda>bid. ResumeAddBatch (clock bid) bid) bs (r, c, b))))"
  using assms
proof (induction bs arbitrary: r c b)
  case Nil
  then show ?case by simp
next
  case (Cons x bs)
  obtain bid ops where x: "x = (bid, ops)" by (cases x)
  with Cons.prems(1) have "cleanOp bid" "\<forall>x \<in> set bs. cleanBatch x" by (auto simp: cleanBatch_def)
  with resumedOnly_step [OF this(1) Cons.prems(2), of ops] Cons.IH
  show ?case unfolding x resuming.resumeAll_Cons by blast
qed

section \<open>A poll that fails an operation\<close>

text \<open>A poll that finds the batch too old, or the item reported failed, calls the handler for it.\<close>

definition failsIn :: "'w batchBroker \<Rightarrow> time \<Rightarrow> time \<Rightarrow> string \<Rightarrow> string \<Rightarrow> 'w \<Rightarrow> bool" where
  "failsIn client sentAt now bid op w \<longleftrightarrow> maxBatchAge < now - sentAt \<or>
     (\<exists>results nr. fst (bb_PollBatchStatus client bid w) = Inr results \<and>
        resultMap results op = Some nr \<and> nr_State nr = Failed_state)"

lemma poll_calls_handler:
  assumes "nb_inProgress b bid = Some bp" and "i \<in> set (ipb_items bp)" and "nb_failureHandler b = Some fn"
    and "ipb_pollAfter bp \<le> now" and "failsIn client (ipb_sentAt bp) now bid (bi_operationID i) w"
    and "pollBatch client now now' bid (w, b) = (calls, w', b2)"
  shows "(\<exists>detail. (fn, bi_operationID i, ipb_kind bp, detail) \<in> set calls) \<and> bi_operationID i \<notin> nb_inFlight b2"
proof (cases "maxBatchAge < now - ipb_sentAt bp")
  case True
  with assms(1,3,4,6) have "calls = map (\<lambda>item. (fn, bi_operationID item, ipb_kind bp, expiredBatchDetail)) (ipb_items bp)"
    "nb_inFlight b2 = nb_inFlight b - bi_operationID ` set (ipb_items bp)"
    by (auto simp: pollBatch_def pollBatch_begin_def failItems_def failureHandlerFn_def)
  with assms(2) show ?thesis by auto
next
  case False
  with assms(5) obtain results nr where ans: "fst (bb_PollBatchStatus client bid w) = Inr results"
    and nr: "resultMap results (bi_operationID i) = Some nr" "nr_State nr = Failed_state"
    by (auto simp: failsIn_def)
  from nr(1) have ne: "results \<noteq> []" by (auto simp: resultMap_def)
  from ans obtain w1 where call: "bb_PollBatchStatus client bid w = (Inr results, w1)" by (metis prod.collapse)
  from assms(1,4) False have "pollBatch_begin now bid b = (PollQuery, b)"
    by (simp add: pollBatch_begin_def)
  with assms(6) call have ap: "pollBatch_apply now' bid results b = (calls, b2)"
    by (auto simp: pollBatch_def split: prod.splits)
  have "i \<in> set (failuresOf results bp)" "i \<in> set (leaves results bp)"
    using assms(2) nr by (simp_all add: failuresOf_def leaves_def reported_def unresolved_def)
  then show ?thesis using pollBatch_apply_answer(2,4) [OF assms(1) ne ap] assms(3) by auto
qed

lemma find_distinct_UID:
  "distinct (map nc_UID claims) \<Longrightarrow> nc \<in> set claims \<Longrightarrow> find (\<lambda>c. nc_UID c = nc_UID nc) claims = Some nc"
  by (induction claims) (auto simp: image_iff)

section \<open>A removal\<close>

lemma enqueueRemoval_new:
  assumes "enqueueRemoval cp wait pid nc b = (e, b1)" and "nb_pending b (removeOperation (nc_UID nc)) = None"
    and "removeOperation (nc_UID nc) \<notin> nb_inFlight b" and "length (nb_queue b) < batchItemQueueBuffer"
  shows "\<exists>item. nb_queue b1 = nb_queue b @ [item] \<and> bi_kind item = opKindRemove \<and>
    bi_operationID item = removeOperation (nc_UID nc) \<and> rr_ProviderID (bi_removeReq item) = pid"
  using assms
  by (auto simp: enqueueRemoval_def EnqueueRemove_def enqueueItem_not_inFlight enqueue_join_queued
      removeRequest_def split: sum.splits)

lemma enqueueRemoval_in_flight:
  assumes "enqueueRemoval cp wait pid nc b = (e, b1)"
    and "enqueue_check (removeOperation (nc_UID nc)) b = Some bid"
  shows "b1 = sendChan (ackResult bid) (nb_nextChan b) (snd (makeChan b))"
  using assms
  by (auto simp: enqueueRemoval_def EnqueueRemove_def enqueueItem_def makeChan_def enqueue_check_def Let_def
      split: sum.splits if_splits)

lemma sendRemoveBatch_registers:
  assumes "bb_SendBatchRemove client (map toRemoveItem batch) w = (Inr bid, w1)"
    and "sendRemoveBatch client now batch (w, b) = (w2, b1)"
  shows "nb_inProgress b1 bid = Some \<lparr>ipb_batchID = bid, ipb_kind = opKindRemove, ipb_items = batch,
      ipb_sentAt = now, ipb_pollAfter = now + nb_initialDelay b, ipb_emptyPolls = 0\<rparr>"
    and "i \<in> set batch \<Longrightarrow> enqueue_check (bi_operationID i) b1 = Some bid"
    and "nb_succeeded b1 = nb_succeeded b"
  using assms by (auto simp: sendRemoveBatch_def registerAndAck_def enqueue_check_def)

lemma poll_records_success:
  assumes "nb_inProgress b bid = Some bp" and "i \<in> set (ipb_items bp)"
    and "ipb_pollAfter bp \<le> now" "now - ipb_sentAt bp \<le> maxBatchAge"
    and "bb_PollBatchStatus client bid w = (Inr results, w1)"
    and "resultMap results (bi_operationID i) = Some nr" "nr_State nr = Succeeded_state"
    and "pollBatch client now now' bid (w, b) = (calls, w', b2)"
  shows "Succeeded (bi_operationID i) b2" and "bi_operationID i \<notin> nb_inFlight b2"
    and "\<forall>(fn, op, kind, detail) \<in> set calls. op \<noteq> bi_operationID i"
proof -
  have ne: "results \<noteq> []" using assms(6) by (auto simp: resultMap_def)
  have "pollBatch_begin now bid b = (PollQuery, b)" using assms(1,3,4) by (simp add: pollBatch_begin_def)
  with assms(5,8) have ap: "pollBatch_apply now' bid results b = (calls, b2)"
    by (auto simp: pollBatch_def split: prod.splits)
  have s: "i \<in> set (successesOf results bp)" "i \<in> set (leaves results bp)"
    using assms(2,6,7) by (simp_all add: successesOf_def leaves_def reported_def unresolved_def)
  then show "Succeeded (bi_operationID i) b2" "bi_operationID i \<notin> nb_inFlight b2"
    using pollBatch_apply_answer(2,3) [OF assms(1) ne ap] by (auto simp: Succeeded_def)
  show "\<forall>(fn, op, kind, detail) \<in> set calls. op \<noteq> bi_operationID i"
    using pollBatch_apply_answer(4) [OF assms(1) ne ap] assms(6,7)
    by (auto simp: failuresOf_def reported_def split: option.splits)
qed

section \<open>A small example\<close>

text \<open>A broker that reports one operation failed, and two claims of one batch.\<close>

definition failingBroker :: "unit batchBroker" where
  "failingBroker = \<lparr>bb_SendBatch = (\<lambda>_ w. (Inr ''b1'', w)), bb_SendBatchRemove = (\<lambda>_ w. (Inr ''b1'', w)),
     bb_PollBatchStatus = (\<lambda>_ w. (Inr [\<lparr>nr_OperationId = ''u1'', nr_State = Failed_state,
        nr_ProviderIds = [], nr_Detail = ''quota''\<rparr>], w)),
     bb_CancelOperations = (\<lambda>_ w. (Inr [], w))\<rparr>"

text \<open>A broker that accepts every batch and reports the removal of one claim succeeded.\<close>

definition removingBroker :: "unit batchBroker" where
  "removingBroker = failingBroker\<lparr>bb_PollBatchStatus := (\<lambda>_ w. (Inr [\<lparr>nr_OperationId = ''u-remove'',
     nr_State = Succeeded_state, nr_ProviderIds = [], nr_Detail = []\<rparr>], w))\<rparr>"

abbreviation twoClaims :: "unit NodeClaim list" where
  "twoClaims \<equiv> [waitingClaim ''u1'' ''b1'', waitingClaim ''u2'' ''b1'']"

end
