(* ===== verification/Spec2Isabelle.thy ===== *)
theory Spec2Isabelle
  imports ProviderID Batcher_Properties Batcher_Progress Batcher_Operations
    Batcher_Service Batcher_Aliasing Batcher_Poller Deep_Copy Broker_Conn Controller_Setup
    Broker_Properties Cloud_Properties Node_Class Node_Provider_ID Batch_Resume Adoption_Passes Broker_Sharing
    Headroom_Properties Headroom_Sync Node_Config Main_Config Event_Routing Restart_Facts
begin

text \<open>
  A verification development for the Karpenter provider of the Rafay platform.

  \<^bold>\<open>The program.\<close> Karpenter asks the provider for machines (\<^verbatim>\<open>Create\<close>, \<^verbatim>\<open>Delete\<close>, \<^verbatim>\<open>Get\<close>,
  \<^verbatim>\<open>List\<close> of \<^verbatim>\<open>pkg/cloudprovider\<close>). The provider does not call the platform for each of them: a node
  batcher (\<^verbatim>\<open>pkg/rafay/batcher.go\<close>) collects the requests of all callers, sends them in batches to a
  broker, gives every caller the broker's acknowledgement, and polls the batches in the background; a
  failure it learns that way is handed to a handler that deletes the NodeClaim. The broker is reached
  over a gRPC stream per request (\<^verbatim>\<open>pkg/rafay/brokerclient.go\<close>, \<^verbatim>\<open>batch_stream.go\<close>). A claim whose
  machine is on its way has the provider ID \<^verbatim>\<open>rafay://pending/<uid>\<close>; a controller binds it to a node
  once one joins. Further controllers resume the batches of an earlier process, adopt machines that
  exist without a NodeClaim, keep spare capacity in each pool, report whether a NodeClass is usable,
  and apply the pool configuration the broker serves.

  \<^bold>\<open>Theories.\<close>

    \<^item> \<^verbatim>\<open>Prelude\<close>: errors as values (\<open>gerror\<close>, \<open>'a result\<close>), Go's string functions, reachability in a
      transition system, the locale \<open>invariant_system\<close> in which invariants are proved once, lemmas on
      lists and maps. \<^verbatim>\<open>Go_Float\<close>: \<^verbatim>\<open>float64\<close> with rounding, infinities and not-a-number.
      \<^verbatim>\<open>Go_Strconv\<close>: the parsers of booleans, integers and durations, and \<^verbatim>\<open>EqualFold\<close>.
    \<^item> \<^verbatim>\<open>ProviderID\<close>: \<^verbatim>\<open>pkg/rafay/providerid.go\<close>.
    \<^item> \<^verbatim>\<open>Batcher\<close>, \<^verbatim>\<open>Batcher_Poll\<close>: the state of the batcher and every function of
      \<^verbatim>\<open>pkg/rafay/batcher.go\<close>; \<^verbatim>\<open>pollBatch\<close> with its loop that compacts the slice it reads. The state is
      the record \<open>NodeBatcher\<close>: one field per field of the Go struct, and the result channels as a map
      from channel numbers to what was sent. \<^verbatim>\<open>Batcher_System\<close>: callers, sender, poller and broker as
      the step relation \<open>sys_step\<close>; one step is one section under the mutex or one call of the broker,
      and the clock and the broker's answers are free. \<^verbatim>\<open>Batcher_Service\<close>: the contract of the batcher
      as a machine \<open>svc_step\<close> over calls, operations in flight and batches, without queue, waiter lists
      and sections. \<^verbatim>\<open>Batcher_Aliasing\<close>: \<^verbatim>\<open>registerAndAck\<close> walking the slice the poller compacts.
    \<^item> \<^verbatim>\<open>Broker_Client\<close>: \<^verbatim>\<open>pkg/rafay/brokerclient.go\<close>, \<^verbatim>\<open>batch_stream.go\<close>, and the errors and types of
      \<^verbatim>\<open>errors.go\<close> and \<^verbatim>\<open>client.go\<close>; \<open>clientBroker\<close> is the client as the batcher's broker.
      \<^verbatim>\<open>Broker_Sharing\<close>: the calls of all goroutines on the one connection as the step relation
      \<open>conn_step\<close>; one step is one section under the client's mutex or the return of a request.
    \<^item> \<^verbatim>\<open>Kube_Model\<close>: the Kubernetes and Karpenter objects, field by field as far as the program uses
      them. \<^verbatim>\<open>Node_Matching\<close>, \<^verbatim>\<open>Cloud_Provider\<close>: \<^verbatim>\<open>pkg/cloudprovider/cloudprovider.go\<close>.
    \<^item> The controllers under \<^verbatim>\<open>pkg/controllers\<close>: \<^verbatim>\<open>Node_Class\<close> (\<^verbatim>\<open>rafaynodeclass\<close>), \<^verbatim>\<open>Node_Provider_ID\<close>
      (\<^verbatim>\<open>nodeproviderid\<close>, with the API server and every other writer as the step relation \<open>bind_step\<close>),
      \<^verbatim>\<open>Batch_Resume\<close> (\<^verbatim>\<open>batchresume\<close>), \<^verbatim>\<open>Node_Adoption\<close> (\<^verbatim>\<open>nodeadoption\<close>; its
      passes, stale caches and the other writers as \<open>adopt_step\<close> of \<^verbatim>\<open>Adoption_Passes\<close>), \<^verbatim>\<open>Headroom_Config\<close> and
      \<^verbatim>\<open>Headroom\<close> (\<^verbatim>\<open>headroom\<close>), \<^verbatim>\<open>Node_Config\<close> (\<^verbatim>\<open>nodeconfig\<close>), \<^verbatim>\<open>Event_Routing\<close> (the watches and
      predicates of their \<^verbatim>\<open>Register\<close> methods).
    \<^item> \<^verbatim>\<open>Main_Config\<close>: \<^verbatim>\<open>cmd/controller/main.go\<close> and \<^verbatim>\<open>pkg/broker/credentials.go\<close>. \<^verbatim>\<open>Broker_Conn\<close>:
      \<^verbatim>\<open>pkg/broker/conn.go\<close> and \<^verbatim>\<open>sessionid.go\<close>, the targets and options of the dials; \<open>brokerPackage\<close> puts that package in the
      place of the client's parameters. \<^verbatim>\<open>Controller_Setup\<close>: what each \<^verbatim>\<open>Register\<close> method registers,
      \<^verbatim>\<open>pkg/apis/v1alpha1/register.go\<close>, \<^verbatim>\<open>pkg/operator/operator.go\<close>, the constant answers of the provider, and the check of an
      existing PriorityClass.
    \<^item> \<^verbatim>\<open>Deep_Copy\<close>: \<^verbatim>\<open>pkg/apis/v1alpha1/rafaynodeclass.go\<close> as Go has it, with slices that point into
      arrays of a memory, and the copies of \<^verbatim>\<open>zz_generated.deepcopy.go\<close>. Everywhere else a NodeClass is
      a value (\<open>RafayNodeClass\<close> of \<^verbatim>\<open>Kube_Model\<close>).
    \<^item> This theory: properties of several components together, on the lemmas of \<^verbatim>\<open>Restart_Facts\<close>: a reply
      of the broker up to the waiters, a machine across a restart, the life of an adopted machine, the
      removal of a machine, and what the program deletes once \<^verbatim>\<open>main\<close> has started it.

  \<^bold>\<open>What the lemmas show.\<close>

    \<^item> Batcher (\<^verbatim>\<open>Batcher_Channels\<close>, \<^verbatim>\<open>Batcher_Safety\<close>, \<^verbatim>\<open>Batcher_History\<close>, \<^verbatim>\<open>Batcher_Properties\<close>): inductive
      invariants of \<open>sys_step\<close>, hence for every interleaving. No waiter is lost, each gets exactly one
      result on a channel with room for it, what is in flight is tracked and was acknowledged, results
      and handler calls are justified by what the broker said. \<^verbatim>\<open>Batcher_Progress\<close>: from every
      reachable state all waiters can be served. \<^verbatim>\<open>Batcher_Exec\<close>: the functions run without
      interleaving are schedules of \<open>sys_step\<close>. \<^verbatim>\<open>Batcher_Operations\<close>: the single operations, among
      them the equality of the in-place loop with a filter, and two schedules that contradict comments.
      \<^verbatim>\<open>Batcher_Service\<close>: the interleaved system refines its contract, and the life of a call.
      \<^verbatim>\<open>Batcher_Poller\<close>: no batch is tracked for ever, over any run of the poller. \<^verbatim>\<open>Batcher_Aliasing\<close>:
      the shared slice is harmless once the sender's loop is through, and loses waiters before.
    \<^item> Client (\<^verbatim>\<open>Broker_Properties\<close>): how often a request is issued, when the connection is dropped, every
      outcome of sending a batch. Under any interleaving of calls no connection leaks and none is closed
      twice, the functions run alone are schedules of \<open>conn_step\<close>, and one schedule closes a fresh
      connection under other calls (\<^verbatim>\<open>Broker_Sharing\<close>).
    \<^item> Cloud provider (\<^verbatim>\<open>Cloud_Properties\<close>): the choice of the instance type, and what \<^verbatim>\<open>Create\<close>,
      \<^verbatim>\<open>Delete\<close> and the failure handler do to the batcher and to claims.
    \<^item> Controllers: no machine bound twice (\<^verbatim>\<open>Node_Provider_ID\<close>), adoption takes free machines once and
      misses none (\<^verbatim>\<open>Adoption_Properties\<close>) and never twice over any number of passes with stale caches
      (\<^verbatim>\<open>Adoption_Passes\<close>), the headroom policy parses to sane policies and a sync
      converges (\<^verbatim>\<open>Headroom_Properties\<close>, \<^verbatim>\<open>Headroom_Sync\<close>), a NodeClass is ready exactly when it converts
      (\<^verbatim>\<open>Node_Class\<close>), the configuration is applied whole or retried (\<^verbatim>\<open>Node_Config\<close>), the watch filters
      lose no wake-up (\<^verbatim>\<open>Event_Routing\<close>), every controller is registered once under its own name
      (\<^verbatim>\<open>Controller_Setup\<close>). A sync of the headroom that succeeds is a fixed point (\<^verbatim>\<open>Headroom_Sync\<close>).
    \<^item> Start (\<^verbatim>\<open>Main_Config\<close>, \<^verbatim>\<open>Broker_Conn\<close>): what holds once \<^verbatim>\<open>main\<close> is past its checks, and which
      address the client dials with which credentials.
    \<^item> Copies (\<^verbatim>\<open>Deep_Copy\<close>): a copy has the value of the original and shares no memory with it, by an
      interface for copying functions that slices and structs preserve.
    \<^item> Interfaces are locales interpreted on the model's own functions: \<open>invariant_system\<close> (\<open>work\<close>, \<open>chans\<close>,
      \<open>batcher\<close>, \<open>binds\<close>, \<open>connection\<close>, \<open>adoptions\<close>) and its extension \<open>refinement\<close> (\<open>service\<close>), \<open>deep_copier\<close> and its extension
      \<open>elem_copier\<close> (\<open>strings\<close>, \<open>types\<close>, \<open>specs\<close> and others of \<^verbatim>\<open>Deep_Copy\<close>), \<open>node_matcher\<close> (\<open>deleting\<close>, \<open>binding\<close>), \<open>batch_tracker\<close> (\<open>resuming\<close>).
\<close>

text \<open>
  \<^bold>\<open>Bounds and termination.\<close> No definition takes fuel. Loops over lists are structural recursion;
  \<^verbatim>\<open>collectBatch\<close> and the loop of \<^verbatim>\<open>Node_Config\<close> recurse over the list of events or rounds that happen,
  so that a list of any length is a run of any length and a value of \<open>None\<close> is a loop that is still
  waiting. The constants are those of the source: the queue holds 256 items, a batch is dropped after
  three empty polls or its maximum age, a pool has at most 5000 headroom replicas, the retry delay is
  doubled from five seconds up to two minutes. \<^verbatim>\<open>int64\<close> totals wrap around; \<^verbatim>\<open>float64\<close> sums, products and
  quotients are rounded; durations are parsed in the range of an \<^verbatim>\<open>int64\<close> of nanoseconds; times are
  mathematical integers.

  \<^bold>\<open>Parameters.\<close> What is not under \<^verbatim>\<open>src/\<close> is an argument: gRPC connections and streams, new UUIDs,
  certificate files, Karpenter's scheduling requirements and templates, resource quantities, the YAML
  decoder and \<^verbatim>\<open>strconv.ParseFloat\<close>, the answers of the API server, the clock, and the order in which
  a Go map is walked. Where a property needs a law of such a parameter it is a hypothesis: the UIDs
  the API server gives are distinct, not blank and without white space around them, two nodes do not
  build the same provider ID, prices are numbers, a dial gives a connection that was not dialled before,
  the server gives every write a new resource version and refuses a patch that carries an old one. The
  steps of the other writers in \<open>bind_step\<close> and \<open>adopt_step\<close> are guarded by what these may do.

  \<^bold>\<open>Not modelled.\<close> Log lines and the counts only they use; the text of error messages beyond the
  format and its arguments; the construction of Karpenter's own operator and controllers, which \<open>allCtrls\<close>
  takes as given; the queues of the controller runtime
  behind the watches; the copies of metadata and conditions inside a deep copy, which are library code (\<open>libCopies\<close>). Lists are values
  outside \<^verbatim>\<open>Deep_Copy\<close>, \<^verbatim>\<open>Batcher_Poll\<close> and \<^verbatim>\<open>Batcher_Aliasing\<close>, which have the indices of the slices
  they share; in \<open>sys_step\<close> the sender's loop has its own list. The compiler may fuse a product
  and a sum of \<^verbatim>\<open>float64\<close> on some processors; each operation rounds on its own here.
\<close>

section \<open>From the wire to the waiters\<close>

text \<open>
  C36: The broker's answer to a batch reaches every caller: when the sender's batch goes out over the
  client's connection and the broker replies, no operation of the batch is waited for any more; an
  accepted batch is tracked under the broker's ID with exactly its items, each of its operations is in
  flight in it, and every waiter of each operation gets that ID; any other reply leaves the tracked
  batches and the operations as they were, and every waiter gets one error, which is
  \<open>ErrBatchRejected\<close> when the broker rejected the batch.
\<close>
theorem answer_reaches_every_waiter:
  assumes cc: "bc_conn c = Some cc" and sid: "trimSpace (bc_StreamID c) \<noteq> []"
    and uid: "ge_newUUID env w = (uid, w1)"
    and opn: "ge_openStream env cc \<lparr>cx_sessionid = Some (trimSpace (bc_StreamID c)),
       cx_timeout = brokerCallTimeout\<rparr> w1 = (Inr st, w2)"
    and snd: "ge_send env st (BatchAdd uid (map toAddItem batch)) w2 = (None, w3)"
    and rcv: "ge_recv env st w3 = (Inr reply, w4)"
    and send: "sendAddBatch (clientBroker env) now batch ((c, w), b) = (cw', b')" and i: "i \<in> set batch"
  shows "nb_pending b' (bi_operationID i) = None \<and>
    (case rp_BatchAccepted reply of
       Some bid \<Rightarrow> enqueue_check (bi_operationID i) b' = Some bid \<and>
         map_option ipb_items (nb_inProgress b' bid) = Some batch \<and>
         (\<forall>ch \<in> set (waiters b (bi_operationID i)). ackResult bid \<in> set (nb_chans b' ch))
     | None \<Rightarrow> enqueue_check (bi_operationID i) b' = enqueue_check (bi_operationID i) b \<and>
         nb_inProgress b' = nb_inProgress b \<and>
         (\<exists>e. (rp_BatchRejected reply \<noteq> None \<longrightarrow> errorsIs e ErrBatchRejected) \<and>
            (\<forall>ch \<in> set (waiters b (bi_operationID i)). sendFailure opKindAdd e \<in> set (nb_chans b' ch))))"
proof -
  note call = client_SendBatch_call [OF cc sid, of env "map toAddItem batch" w]
  from i have ne: "map toAddItem batch \<noteq> []" by auto
  show ?thesis
  proof (cases "rp_BatchAccepted reply")
    case (Some bid)
    then have "client_SendBatch env (map toAddItem batch) (c, w) = (Inr bid, c, ge_closeSend env st w4)"
      using ne uid opn snd rcv unfolding call by (simp add: stream_sendBatch_def)
    from sendAddBatch_accepted [OF this send i] Some show ?thesis by simp
  next
    case None
    then have "\<exists>e cw1. client_SendBatch env (map toAddItem batch) (c, w) = (Inl e, cw1) \<and>
        (rp_BatchRejected reply \<noteq> None \<longrightarrow> errorsIs e ErrBatchRejected)"
      using ne uid opn snd rcv unfolding call
      by (cases "rp_BatchRejected reply") (simp_all add: stream_sendBatch_def)
    then obtain e cw1 where c: "client_SendBatch env (map toAddItem batch) (c, w) = (Inl e, cw1)"
      and r: "rp_BatchRejected reply \<noteq> None \<longrightarrow> errorsIs e ErrBatchRejected" by blast
    from sendAddBatch_failed [OF c send i] r None show ?thesis by auto
  qed
qed

definition oneWaiter :: NodeBatcher where
  "oneWaiter = NewNodeBatcher\<lparr>nb_pending := [''u'' \<mapsto> [0]]\<rparr>"

theorem answer_reaches_every_waiter_witness:
  "let env = envOf None (Inr \<lparr>rp_BatchAccepted = Some ''b1'', rp_BatchRejected = None, rp_BatchStatus = None, rp_CancelAck = None\<rparr>);
       b' = snd (sendAddBatch (clientBroker env) 7 [resumeItem ''u''] ((aClient\<lparr>bc_conn := Some 5\<rparr>, 0), oneWaiter))
   in ackResult ''b1'' \<in> set (nb_chans b' 0) \<and> enqueue_check ''u'' b' = Some ''b1''"
proof -
  let ?reply = "\<lparr>rp_BatchAccepted = Some ''b1'', rp_BatchRejected = None, rp_BatchStatus = None, rp_CancelAck = None\<rparr>"
  let ?env = "envOf None (Inr ?reply)" and ?c = "aClient\<lparr>bc_conn := Some 5\<rparr>"
  have c: "bc_conn ?c = Some 5" "trimSpace (bc_StreamID ?c) \<noteq> []"
    by (simp_all add: aClient_def NewBrokerClient_def trimSpace_plain)
  have env: "ge_newUUID ?env 0 = (''uuid'', 0)" "\<And>cc ctx. ge_openStream ?env cc ctx 0 = (Inr 1, 0)"
    "\<And>m. ge_send ?env 1 m 0 = (None, 0)" "ge_recv ?env 1 0 = (Inr ?reply, 0)"
    by (simp_all add: envOf_def)
  obtain cw' b' where s: "sendAddBatch (clientBroker ?env) 7 [resumeItem ''u''] ((?c, 0), oneWaiter) = (cw', b')"
    by fastforce
  have i: "resumeItem ''u'' \<in> set [resumeItem ''u'']" by simp
  have w: "waiters oneWaiter ''u'' = [0]" "bi_operationID (resumeItem ''u'') = ''u''"
    by (simp_all add: oneWaiter_def waiters_def resumeItem_def)
  from answer_reaches_every_waiter [OF c env(1) env(2) env(3) env(4) s i] s show ?thesis
    by (simp add: w Let_def)
qed

section \<open>A machine from request to restart\<close>

text \<open>
  C20: A machine asked for is never forgotten: when \<open>Create\<close> succeeds for a claim that is not adopted,
  with the batch ID the broker chose, and the program restarts while the stored claim is still
  pending, the new process tracks that batch with the claim's operation in it, from the annotation
  \<open>Create\<close> wrote, and answers a repeated \<open>Create\<close> of the claim at once with the same batch ID,
  putting nothing into the queue: the restart neither loses the machine nor asks for a second one.
\<close>
theorem created_claim_resumed:
  assumes "Create kp qo k cp wait (Some nc) b = (Inr out, b')"
    and "lookup (nc_Annotations nc) AdoptedProviderIDAnnotationKey = []"
    and "\<forall>ch. \<forall>result. wait ch b' = Inr result \<longrightarrow> br_BatchID result = bid" and "cleanOp bid"
    and "nc_DeletionTimestamp nc = None"
    and "out \<in> set claims" and "cleanUIDs claims" and "distinct (map nc_UID claims)" and "someOrder claims order"
    and "Start_batchresume clock (Inr claims) order (freshBatcher fn) = (r, c, b1)"
    and "Enqueue (nc_UID nc) req b1 = (ch, b2)"
  shows "lookup (nc_Annotations out) BatchIDAnnotationKey = bid \<and>
    (\<exists>ops. trackedOps b1 bid = Some ops \<and> nc_UID nc \<in> ops) \<and>
    b2 = sendChan (ackResult bid) ch (snd (makeChan b1)) \<and> nb_queue b2 = nb_queue b1"
proof -
  from created_claim [OF assms(1,2)] obtain sel ch0 result where
    "wait ch0 b' = Inr result" and out: "out = pendingClaim kp sel (br_BatchID result) nc" by blast
  moreover from this(1) assms(3) have "br_BatchID result = bid" by blast
  ultimately have out: "out = pendingClaim kp sel bid nc" by simp
  from assms(4) have ne: "bid \<noteq> []" and tr: "trimSpace bid = bid"
    by (simp_all add: cleanOp_def)
  note sel = pendingClaim_sel(1-3) [of kp sel bid nc, folded out]
  have cb: "claimBatch out = bid" using pendingClaim_sel(4) [OF ne, of kp sel nc] tr out by simp
  have "resumable out" unfolding resumable_def sel cb using ne assms(5) by simp
  with assms(6) have op: "nc_UID nc \<in> set (batchOps claims bid)"
    unfolding batchOps_mem using sel(1) cb by blast
  from resumed_fresh [OF assms(7,9,10), of bid] op have "\<exists>ops. trackedOps b1 bid = Some ops \<and> nc_UID nc \<in> ops"
    by (auto simp: groupByBatch_eq)
  moreover have "lookup (nc_Annotations out) BatchIDAnnotationKey = bid"
    using ne by (simp add: out pendingClaim_def Let_def)
  moreover have "b2 = sendChan (ackResult (claimBatch out)) ch (snd (makeChan b1)) \<and> nb_queue b2 = nb_queue b1"
    using resume_answers_create [OF assms(7,9,8,6) _ _ _ _ assms(10)] assms(11) sel cb ne assms(5)
    by (simp only: freshBatcher_sel pending_append simp_thms)
  ultimately show ?thesis by (simp add: cb)
qed

theorem created_claim_resumed_witness:
  "\<exists>out b'. Create listKarpenter trivialOps (aKube [] []) aProvider (\<lambda>ch b. Inr (ackResult ''b1''))
      (Some (anyClaim ''u1'' ''p1'' [])) NewNodeBatcher = (Inr out, b') \<and>
    lookup (nc_Annotations out) BatchIDAnnotationKey = ''b1'' \<and>
    (\<exists>ops. trackedOps (snd (snd (Start_batchresume (\<lambda>_. 7) (Inr [out]) [''b1''] (freshBatcher None)))) ''b1'' = Some ops \<and>
       ''u1'' \<in> ops)"
proof -
  let ?nc = "anyClaim ''u1'' ''p1'' []"
  let ?wait = "\<lambda>ch b. Inr (ackResult ''b1'') :: BatchResult result"
  have sel: "selectInstanceType listKarpenter trivialOps (aKube [] []) ?nc = Inr smallType"
    by (simp add: selectInstanceType_def aClaim_class aClass_types aClaim_compatible)
  define out where "out = pendingClaim listKarpenter smallType ''b1'' ?nc"
  have adp: "lookup (nc_Annotations ?nc) AdoptedProviderIDAnnotationKey = []"
    by (simp add: anyClaim_def zeroNodeClaim_def)
  obtain ch0 b' where "Enqueue (nc_UID ?nc) (addRequest aProvider smallType ?nc) NewNodeBatcher = (ch0, b')"
    by fastforce
  then have c: "Create listKarpenter trivialOps (aKube [] []) aProvider ?wait (Some ?nc) NewNodeBatcher = (Inr out, b')"
    by (simp add: Create_def sel adp out_def)
  have uid: "nc_UID ?nc = ''u1''" "nc_DeletionTimestamp ?nc = None"
    by (simp_all add: anyClaim_def zeroNodeClaim_def)
  have o: "nc_UID out = ''u1''" "is_pending (nc_ProviderID out)" "nc_DeletionTimestamp out = None"
    "claimBatch out = ''b1''"
    by (simp_all add: out_def pendingClaim_sel uid plain_ids)
  have w: "\<forall>ch. \<forall>result. ?wait ch b' = Inr result \<longrightarrow> br_BatchID result = ''b1''" by auto
  have cl: "cleanOp ''b1''" "cleanUIDs [out]" "distinct (map nc_UID [out])"
    by (simp_all add: cleanOp_def plain_ids cleanUIDs_def o)
  have "someOrder [out] [''b1'']"
    using o by (auto simp: someOrder_def dom_groupByBatch batchOps_def resumable_def split: if_splits)
  note ord = this
  have mem: "out \<in> set [out]" by simp
  obtain r m b1 where s: "Start_batchresume (\<lambda>_. 7) (Inr [out]) [''b1''] (freshBatcher None) = (r, m, b1)"
    by (metis prod_cases3)
  obtain ch b2 where e: "Enqueue (nc_UID ?nc) zeroAddReq b1 = (ch, b2)" by fastforce
  from created_claim_resumed [OF c adp w cl(1) uid(2) mem cl(2,3) ord s e] c s uid show ?thesis by auto
qed

section \<open>A failed add after a restart\<close>

text \<open>
  C21: A failed machine is given up although the process that asked for it is gone: for a pending,
  undeleted claim with a batch ID, a new process that resumes the claims and then polls the batch,
  and either finds it older than the maximum age or gets an answer that reports the claim's operation
  failed, calls the failure handler for that operation as an add, takes it out of the in-flight set,
  and the handler deletes exactly that claim, so that Karpenter makes a new one.
\<close>
theorem failed_add_reaped_after_restart:
  assumes "cleanUIDs claims" and "distinct (map nc_UID claims)" and "someOrder claims order"
    and "nc \<in> set claims" and "is_pending (nc_ProviderID nc)" and "nc_DeletionTimestamp nc = None"
    and "claimBatch nc = bid" and "bid \<noteq> []"
    and "Start_batchresume clock (Inr claims) order (freshBatcher (Some fn)) = (r, c, b1)"
    and "clock bid \<le> now" and "failsIn client (clock bid) now bid (nc_UID nc) w"
    and "pollBatch client now now' bid (w, b1) = (calls, w', b2)" and "k_claims k = Inr claims"
  shows "\<exists>detail. (fn, nc_UID nc, opKindAdd, detail) \<in> set calls \<and> nc_UID nc \<notin> nb_inFlight b2 \<and>
    NewBatchFailureHandler k (nc_UID nc) opKindAdd detail = Some nc"
proof -
  let ?b0 = "freshBatcher (Some fn)"
  note ok = entries_ok [OF assms(1,3)]
  have b1: "snd (snd (resumeAll (\<lambda>bid. ResumeAddBatch (clock bid) bid) (entries claims order) (0, 0, ?b0))) = b1"
    using assms(9) by (simp add: Start_batchresume_def)
  have "resumedOnly clock fn ?b0" by (simp only: resumedOnly_def freshBatcher_sel) simp
  from resumedOnly_all [OF ok(2) this, of 0 0] have only: "resumedOnly clock fn b1" unfolding b1 .
  have "nc_UID nc \<in> set (batchOps claims bid)"
    using assms(4-8) by (auto simp: batchOps_mem resumable_def)
  with resumed_fresh [OF assms(1,3,9), of bid] obtain bp where
    "nb_inProgress b1 bid = Some bp" "nc_UID nc \<in> bi_operationID ` set (ipb_items bp)"
    by (auto simp: trackedOps_def groupByBatch_eq split: if_splits)
  then obtain i where bp: "nb_inProgress b1 bid = Some bp" "i \<in> set (ipb_items bp)" "bi_operationID i = nc_UID nc"
    by auto
  from only bp(1) have "nb_failureHandler b1 = Some fn" "ipb_pollAfter bp \<le> now" "ipb_sentAt bp = clock bid"
    "ipb_kind bp = opKindAdd" using assms(10) by (auto simp: resumedOnly_def)
  with poll_calls_handler [OF bp(1,2) this(1,2) _ assms(12)] assms(11) bp(3)
  have "(\<exists>detail. (fn, nc_UID nc, opKindAdd, detail) \<in> set calls) \<and> nc_UID nc \<notin> nb_inFlight b2" by simp
  moreover have "NewBatchFailureHandler k (nc_UID nc) opKindAdd detail = Some nc" for detail
    using find_distinct_UID [OF assms(2,4)] assms(5,6,13) by (simp add: NewBatchFailureHandler_def opKindAdd_def)
  ultimately show ?thesis by blast
qed

theorem failed_add_reaped_after_restart_witness:
  "\<exists>b1. snd (snd (Start_batchresume (\<lambda>_. 7) (Inr twoClaims) [''b1''] (freshBatcher (Some 0)))) = b1 \<and>
     (\<exists>detail. (0, ''u1'', opKindAdd, detail) \<in> set (fst (pollBatch failingBroker 9 9 ''b1'' ((), b1))))"
proof -
  obtain r c b1 where s: "Start_batchresume (\<lambda>_. 7) (Inr twoClaims) [''b1''] (freshBatcher (Some 0)) = (r, c, b1)"
    by (metis prod_cases3)
  obtain calls w' b2 where p: "pollBatch failingBroker 9 9 ''b1'' ((), b1) = (calls, w', b2)"
    by (metis prod_cases3)
  have f: "failsIn failingBroker 7 9 ''b1'' (nc_UID (waitingClaim ''u1'' ''b1'')) ()"
    by (simp add: failsIn_def failingBroker_def resultMap_def)
  have k: "k_claims (aKube twoClaims []) = Inr twoClaims" by (simp add: aKube_def)
  have "\<exists>detail. (0, nc_UID (waitingClaim ''u1'' ''b1''), opKindAdd, detail) \<in> set calls \<and>
      nc_UID (waitingClaim ''u1'' ''b1'') \<notin> nb_inFlight b2 \<and>
      NewBatchFailureHandler (aKube twoClaims []) (nc_UID (waitingClaim ''u1'' ''b1'')) opKindAdd detail
        = Some (waitingClaim ''u1'' ''b1'')"
    by (rule failed_add_reaped_after_restart [OF waiting_world(1) _ waiting_world(2) _ _ _ _ _ s _ f p k])
      (simp_all add: plain_ids)
  then show ?thesis by (auto simp: s p)
qed

section \<open>From the start of the program to the claims it deletes\<close>



section \<open>The removal of a machine\<close>

text \<open>
  C22: A machine is removed once and the claim is let go: the first \<open>Delete\<close> of a claim with a real
  provider ID puts one removal of that machine into the queue; a \<open>Delete\<close> repeated after the broker
  accepted the batch it went out in puts nothing into the queue and is answered with that batch; and
  once a poll of that batch reports the operation succeeded, the failure handler is not called for it,
  it is no longer in flight, and the next \<open>Delete\<close> reports the claim gone without another removal.
  What the batcher does between the first \<open>Delete\<close> and the sending of the batch is free.
\<close>
theorem removal_lifecycle:
  assumes real: "nc_ProviderID nc \<noteq> []" "\<not> is_pending (nc_ProviderID nc)"
    and R: "R = removeOperation (nc_UID nc)"
    and new: "nb_pending b R = None" "R \<notin> nb_inFlight b" "length (nb_queue b) < batchItemQueueBuffer"
      "\<not> Succeeded R b"
    and first: "Delete k cp wait (Some nc) b = (e1, b1, c1)"
    and send: "bb_SendBatchRemove client (map toRemoveItem batch) w = (Inr bid, w1)"
      "sendRemoveBatch client now batch (w, b2) = (w2, b3)"
    and mem: "i \<in> set batch" "bi_operationID i = R" "\<not> Succeeded R b2"
    and retry: "Delete k' cp wait' (Some nc) b3 = (e2, b4, c2)"
    and time: "now + nb_initialDelay b2 \<le> nowP" "nowP - now \<le> maxBatchAge"
    and ans: "bb_PollBatchStatus client bid w3 = (Inr results, w4)" "resultMap results R = Some nr"
      "nr_State nr = Succeeded_state"
    and poll: "pollBatch client nowP nowA bid (w3, b4) = (calls, w5, b5)"
    and last: "Delete k'' cp wait'' (Some nc) b5 = (e3, b6, c3)"
  shows "(\<exists>item. nb_queue b1 = nb_queue b @ [item] \<and> bi_kind item = opKindRemove \<and> bi_operationID item = R \<and>
      rr_ProviderID (bi_removeReq item) = nc_ProviderID nc) \<and>
    b4 = sendChan (ackResult bid) (nb_nextChan b3) (snd (makeChan b3)) \<and>
    (\<forall>(fn, op, kind, detail) \<in> set calls. op \<noteq> R) \<and> R \<notin> nb_inFlight b5 \<and>
    e3 = Some (NodeClaimNotFoundError (Errorf ''node removed for nodeclaim %s'' [nc_Name nc])) \<and> b6 = b5 \<and>
    c1 = [] \<and> c2 = [] \<and> c3 = []"
proof -
  have del: "enqueueRemoval cp wt (nc_ProviderID nc) nc bb = (e, bb') \<and> cc = []"
    if "Delete kk cp wt (Some nc) bb = (e, bb', cc)" "\<not> Succeeded R bb" for kk wt bb e bb' cc
    using that real R by (auto simp: Delete_def split: prod.splits)
  note reg = sendRemoveBatch_registers [OF send]
  from reg(2) [OF mem(1)] mem(2) have flight: "enqueue_check R b3 = Some bid" by simp
  have "\<not> Succeeded R b3" using mem(3) by (simp add: Succeeded_def reg(3))
  note d1 = del [OF first new(4)] and d2 = del [OF retry this]
  have q: "\<exists>item. nb_queue b1 = nb_queue b @ [item] \<and> bi_kind item = opKindRemove \<and> bi_operationID item = R \<and>
      rr_ProviderID (bi_removeReq item) = nc_ProviderID nc"
    using enqueueRemoval_new [of cp wait "nc_ProviderID nc" nc b e1 b1] d1 new(1-3) R by simp
  have b4: "b4 = sendChan (ackResult bid) (nb_nextChan b3) (snd (makeChan b3))"
    using enqueueRemoval_in_flight d2 flight R by blast
  then have "nb_inProgress b4 bid = nb_inProgress b3 bid" by simp
  with reg(1) obtain bp where bp: "nb_inProgress b4 bid = Some bp" "ipb_items bp = batch"
    "ipb_sentAt bp = now" "ipb_pollAfter bp = now + nb_initialDelay b2" by simp
  note ok = poll_records_success [of b4 bid bp i nowP client w3 results w4 nr nowA calls w5 b5]
  have fin: "Succeeded R b5" "R \<notin> nb_inFlight b5" "\<forall>(fn, op, kind, detail) \<in> set calls. op \<noteq> R"
    using ok bp mem(1,2) time ans poll by simp_all
  then have "e3 = Some (NodeClaimNotFoundError (Errorf ''node removed for nodeclaim %s'' [nc_Name nc])) \<and>
      b6 = b5 \<and> c3 = []" using last real R by (simp add: Delete_def)
  with q b4 fin d1 d2 show ?thesis by blast
qed

theorem removal_lifecycle_witness:
  "\<exists>b5. Delete (aKube [] []) aProvider (\<lambda>ch b. Inl ContextDone) (Some (anyClaim ''u'' ''p1'' ''rafay://p1/small/h'')) b5
     = (Some (NodeClaimNotFoundError (Errorf ''node removed for nodeclaim %s'' [''u''])), b5, []) \<and>
     ''u-remove'' \<notin> nb_inFlight b5"
proof -
  let ?nc = "anyClaim ''u'' ''p1'' ''rafay://p1/small/h''" and ?k = "aKube [] [] :: unit kube"
  let ?wait = "\<lambda>ch b. Inl ContextDone :: BatchResult result" and ?b = "freshBatcher None"
  let ?i = "anItem opKindRemove ''u-remove''"
  have nc: "nc_ProviderID ?nc = ''rafay://p1/small/h''" "nc_UID ?nc = ''u''" "nc_Name ?nc = ''u''"
    by (simp_all add: anyClaim_def)
  have real: "nc_ProviderID ?nc \<noteq> []" "\<not> is_pending (nc_ProviderID ?nc)"
    by (simp_all add: nc hasPrefix_def PendingProviderIDPrefix_def)
  have R: "''u-remove'' = removeOperation (nc_UID ?nc)" by (simp add: nc removeOperation_def)
  have new: "nb_pending ?b ''u-remove'' = None" "''u-remove'' \<notin> nb_inFlight ?b"
    "length (nb_queue ?b) < batchItemQueueBuffer" "\<not> Succeeded ''u-remove'' ?b" "nb_initialDelay ?b = defaultInitialDelay"
    by (simp_all add: SetFailureHandler_def NewNodeBatcher_def batchItemQueueBuffer_def Succeeded_def)
  have i: "?i \<in> set [?i]" "bi_operationID ?i = ''u-remove''" by (simp_all add: anItem_def)
  have s: "bb_SendBatchRemove removingBroker (map toRemoveItem [?i]) () = (Inr ''b1'', ())"
    by (simp add: removingBroker_def failingBroker_def)
  have t: "0 + nb_initialDelay ?b \<le> 130 * second" "130 * second - 0 \<le> maxBatchAge"
    by (simp_all add: new(5) defaultInitialDelay_def maxBatchAge_def second_def)
  obtain results nr where p: "bb_PollBatchStatus removingBroker ''b1'' () = (Inr results, ())"
    and r: "resultMap results ''u-remove'' = Some nr" "nr_State nr = Succeeded_state"
    by (simp add: removingBroker_def failingBroker_def resultMap_def)
  obtain e1 b1 c1 where d1: "Delete ?k aProvider ?wait (Some ?nc) ?b = (e1, b1, c1)" by (metis prod_cases3)
  obtain w2 b3 where sb: "sendRemoveBatch removingBroker 0 [?i] ((), ?b) = (w2, b3)" by (metis prod.exhaust)
  obtain e2 b4 c2 where d2: "Delete ?k aProvider ?wait (Some ?nc) b3 = (e2, b4, c2)" by (metis prod_cases3)
  obtain calls w5 b5 where po: "pollBatch removingBroker (130 * second) (131 * second) ''b1'' ((), b4) = (calls, w5, b5)"
    by (metis prod_cases3)
  obtain e3 b6 c3 where d3: "Delete ?k aProvider ?wait (Some ?nc) b5 = (e3, b6, c3)" by (metis prod_cases3)
  from removal_lifecycle [OF real R new(1-4) d1 s sb i new(4) d2 t p r po d3] d3 nc show ?thesis by auto
qed

section \<open>The life of an adopted machine\<close>

text \<open>
  C23: An adopted machine is neither bought again nor lost: \<open>Create\<close> of a claim that node adoption
  created, under whatever name, UID and time the server gives it, leaves the batcher untouched, and a
  success carries the provider ID of the very node of the pool the claim was created for. When that ID
  does not have the pending prefix, the provider-ID controller leaves the claim alone, the failure
  handler never deletes it, and \<open>Delete\<close> sends no cancel and enqueues at most one removal, under the
  claim's own operation, of that node.
\<close>
theorem adopted_machine_lifecycle:
  assumes "Reconcile_adoption kp env k np = (r, st)" and "nc \<in> set (as_created st)"
    and "k_cachedNodes k = Inr nodes" and "k_claims k = Inr claims"
    and "obj = nc\<lparr>nc_Name := name, nc_UID := uid, nc_CreationTimestamp := created\<rparr>"
    and "Create kp qo k1 cp wait (Some obj) b = (res, b')"
  shows "b' = b \<and> (\<forall>out. res = Inr out \<longrightarrow> (\<exists>n \<in> set nodes. nd_Labels n nodepoolNameLabel = Some (np_Name np) \<and>
    nc_ProviderID out = effectiveID np n \<and>
    (\<not> is_pending (effectiveID np n) \<longrightarrow>
      Reconcile_npid k2 patch out = (Finished, None) \<and>
      NewBatchFailureHandler k3 op kind detail \<noteq> Some out \<and>
      (\<forall>b2 e b3 cancels. Delete k4 cp wait' (Some out) b2 = (e, b3, cancels) \<longrightarrow> cancels = [] \<and>
        (nb_queue b3 = nb_queue b2 \<or> (\<exists>item. nb_queue b3 = nb_queue b2 @ [item] \<and> bi_kind item = opKindRemove \<and>
           bi_operationID item = removeOperation uid \<and> rr_ProviderID (bi_removeReq item) = effectiveID np n))))))"
proof -
  from created_for_node [OF assms(1-4)] obtain ref n where n: "n \<in> set nodes"
    "nd_Labels n nodepoolNameLabel = Some (np_Name np)"
    and f: "claimFor kp env np ref (poolPending (np_Name np) claims) n nc" by metis
  let ?id = "effectiveID np n"
  have a: "lookup (nc_Annotations obj) AdoptedProviderIDAnnotationKey = ?id" "?id \<noteq> []"
    using adopted_annotation [OF f] f assms(5) by (auto simp: claimFor_def)
  show ?thesis
  proof (cases "selectInstanceType kp qo k1 obj")
    case (Inl e)
    with assms(6) have "b' = b" "res = Inl e" by (simp_all add: Create_def)
    then show ?thesis by simp
  next
    case (Inr sel)
    with assms(6) a have c: "b' = b" "res = Inr (adoptedClaim kp sel ?id obj)" by (auto simp: Create_def)
    define out where "out = adoptedClaim kp sel ?id obj"
    have o: "nc_ProviderID out = ?id" "nc_UID out = uid" by (simp_all add: out_def adoptedClaim_def assms(5))
    have "Reconcile_npid k2 patch out = (Finished, None)" if "\<not> is_pending ?id"
      using that by (simp add: Reconcile_npid_def o)
    moreover have "NewBatchFailureHandler k3 op kind detail \<noteq> Some out" if "\<not> is_pending ?id"
      using that a(2) o by (auto simp: NewBatchFailureHandler_def split: if_splits sum.splits option.splits)
    moreover have "cancels = [] \<and> (nb_queue b3 = nb_queue b2 \<or> (\<exists>item. nb_queue b3 = nb_queue b2 @ [item] \<and>
        bi_kind item = opKindRemove \<and> bi_operationID item = removeOperation uid \<and>
        rr_ProviderID (bi_removeReq item) = ?id))"
      if "\<not> is_pending ?id" "Delete k4 cp wait' (Some out) b2 = (e, b3, cancels)" for b2 e b3 cancels
    proof (cases "Succeeded (removeOperation uid) b2")
      case True
      with that a(2) o show ?thesis by (simp add: Delete_def)
    next
      case False
      with that a(2) o have "enqueueRemoval cp wait' ?id out b2 = (e, b3)" "cancels = []"
        by (auto simp: Delete_def split: prod.splits)
      with enqueueRemoval_next [OF this(1)] o show ?thesis by auto
    qed
    ultimately have "\<exists>n \<in> set nodes. nd_Labels n nodepoolNameLabel = Some (np_Name np) \<and>
        nc_ProviderID out = effectiveID np n \<and>
        (\<not> is_pending (effectiveID np n) \<longrightarrow>
          Reconcile_npid k2 patch out = (Finished, None) \<and>
          NewBatchFailureHandler k3 op kind detail \<noteq> Some out \<and>
          (\<forall>b2 e b3 cancels. Delete k4 cp wait' (Some out) b2 = (e, b3, cancels) \<longrightarrow> cancels = [] \<and>
            (nb_queue b3 = nb_queue b2 \<or> (\<exists>item. nb_queue b3 = nb_queue b2 @ [item] \<and> bi_kind item = opKindRemove \<and>
               bi_operationID item = removeOperation uid \<and> rr_ProviderID (bi_removeReq item) = effectiveID np n))))"
      using n o(1) by (intro bexI [of _ n]) blast+
    then show ?thesis using c unfolding out_def [symmetric] by (simp only: sum.inject) blast
  qed
qed

theorem adopted_machine_lifecycle_witness:
  "\<exists>st. Reconcile_adoption listKarpenter adoptWorld (aKube [] [worker []]) pool1 = (RequeueAfter resyncInterval, st) \<and>
     as_created st = [adoptedWorker []] \<and>
     snd (Create listKarpenter trivialOps (aKube [] []) aProvider (\<lambda>ch b. Inl ContextDone)
       (Some ((adoptedWorker [])\<lparr>nc_Name := ''c1'', nc_UID := ''u1'', nc_CreationTimestamp := 9\<rparr>)) NewNodeBatcher)
       = NewNodeBatcher"
proof -
  from worker_taken [of "[]" "[]"] obtain st where
    st: "Reconcile_adoption listKarpenter adoptWorld (aKube [] [worker []]) pool1 = (RequeueAfter resyncInterval, st)"
    "as_created st = [adoptedWorker []]" by (auto simp: no_claims)
  have k: "k_cachedNodes (aKube [] [worker []]) = Inr [worker []]" "k_claims (aKube [] [worker []]) = Inr []"
    by (simp_all add: aKube_def)
  have "adoptedWorker [] \<in> set (as_created st)" by (simp add: st(2))
  obtain res b' where "Create listKarpenter trivialOps (aKube [] []) aProvider (\<lambda>ch b. Inl ContextDone)
      (Some ((adoptedWorker [])\<lparr>nc_Name := ''c1'', nc_UID := ''u1'', nc_CreationTimestamp := 9\<rparr>)) NewNodeBatcher = (res, b')"
    by fastforce
  note c = this
  have "b' = NewNodeBatcher"
    by (rule conjunct1 [OF adopted_machine_lifecycle [OF st(1) \<open>adoptedWorker [] \<in> set (as_created st)\<close> k refl c]])
  with c st show ?thesis by simp
qed

text \<open>
  The condition on the pending prefix matters: the IDs of a pool that is called \<open>pending\<close> have it.
  \<open>Delete\<close> of such a claim looks for a node created after the claim; an adopted node is older, so
  the claim is reported gone and the machine is never removed.
\<close>
theorem pool_named_pending_never_removed:
  assumes "nc_ProviderID nc = BuildProviderID ''pending'' sku host" and "sku \<noteq> []" and "host \<noteq> []"
    and "k_claims k = Inr claims" and "k_nodes k = Inr nodes"
    and "\<forall>n \<in> set nodes. nd_CreationTimestamp n \<le> nc_CreationTimestamp nc"
    and "\<not> Succeeded (removeOperation (nc_UID nc)) b"
  shows "Delete k cp wait (Some nc) b =
    (Some (NodeClaimNotFoundError (Errorf ''node not yet provisioned for nodeclaim %s'' [nc_Name nc])), b, [nc_UID nc])"
proof -
  have p: "is_pending (nc_ProviderID nc)" using assms(1-3) build_pending_iff [of "''pending''" sku host] by simp
  have "deleteFinds claims nodes nc = []"
  proof (rule ccontr)
    assume "deleteFinds claims nodes nc \<noteq> []"
    from deleting.right_node [OF refl this] assms(6) show False by force
  qed
  with findNodeProviderID_eq [OF assms(4,5), of nc] p assms(7) pending_not_Nil [OF p] show ?thesis
    by (simp add: Delete_def)
qed

end
